(* ===== verification/Prelude.thy ===== *)
theory Prelude
  imports Main "HOL-Library.Word"
begin

text \<open>
  Shared vocabulary of the development: machine integers, the value of a Rust
  \<^verbatim>\<open>async\<close> call, the \<^verbatim>\<open>?\<close> operator on such values, little-endian
  integers, in-place writes to a byte buffer, and the contract of an inductive
  invariant of a step relation.
\<close>

named_theorems outcome_simps \<open>equations and inversions of asynchronous results\<close>

type_synonym u8 = "8 word"
type_synonym u16 = "16 word"
type_synonym u32 = "32 word"
type_synonym u64 = "64 word"
type_synonym i32 = "32 word"
type_synonym i64 = "64 word"

section \<open>Results of asynchronous calls\<close>

text \<open>
  Polling a future to completion gives \<open>Ok\<close> or \<open>Err\<close>; \<open>Pending\<close> is a future
  that is still waiting when its caller stops polling it, as \<^verbatim>\<open>tokio::select!\<close>
  and \<^verbatim>\<open>tokio::time::timeout\<close> do. Synchronous fallible functions return a sum,
  with \<open>Inl\<close> the error.
\<close>

datatype ('e, 'a) outcome = Ok 'a | Err 'e | Pending

fun map_err :: "('e \<Rightarrow> 'f) \<Rightarrow> ('e, 'a) outcome \<Rightarrow> ('f, 'a) outcome" where
  "map_err f (Ok a) = Ok a"
| "map_err f (Err e) = Err (f e)"
| "map_err f Pending = Pending"

fun of_sum :: "'e + 'a \<Rightarrow> ('e, 'a) outcome" where
  "of_sum (Inl e) = Err e"
| "of_sum (Inr a) = Ok a"

text \<open>The \<^verbatim>\<open>.await?\<close> of the source: go on with the value, or return early.\<close>

definition and_then ::
  "('e, 'a) outcome \<times> 's \<Rightarrow> ('a \<Rightarrow> 's \<Rightarrow> ('e, 'b) outcome \<times> 's) \<Rightarrow> ('e, 'b) outcome \<times> 's" where
  "and_then x f =
     (case x of (Ok a, s) \<Rightarrow> f a s | (Err e, s) \<Rightarrow> (Err e, s) | (Pending, s) \<Rightarrow> (Pending, s))"

section \<open>Bytes\<close>

text \<open>\<^verbatim>\<open>u32::from_le_bytes\<close> and \<^verbatim>\<open>u32::to_le_bytes\<close>.\<close>

definition u32_from_le_bytes :: "u8 \<Rightarrow> u8 \<Rightarrow> u8 \<Rightarrow> u8 \<Rightarrow> u32" where
  "u32_from_le_bytes a b c d =
     word_of_nat (unat a + 256 * unat b + 65536 * unat c + 16777216 * unat d)"

definition u32_to_le_bytes :: "u32 \<Rightarrow> u8 list" where
  "u32_to_le_bytes w =
     [word_of_nat (unat w), word_of_nat (unat w div 256),
      word_of_nat (unat w div 65536), word_of_nat (unat w div 16777216)]"

text \<open>
  Overwriting \<open>buf[i ..]\<close> in place with the bytes \<open>bs\<close>; the buffer keeps its length.
\<close>

definition write_at :: "u8 list \<Rightarrow> nat \<Rightarrow> u8 list \<Rightarrow> u8 list" where
  "write_at buf i bs = take (length buf) (take i buf @ bs @ drop (i + length bs) buf)"

section \<open>Lemmas\<close>

lemma and_then_simps [simp, outcome_simps]:
  "and_then (Ok a, s) f = f a s"
  "and_then (Err e, s) f = (Err e, s)"
  "and_then (Pending, s) f = (Pending, s)"
  by (simp_all add: and_then_def)

lemma and_then_Ok_iff [outcome_simps]:
  "and_then x f = (Ok b, s') \<longleftrightarrow> (\<exists>a s. x = (Ok a, s) \<and> f a s = (Ok b, s'))"
  by (auto simp: and_then_def split: prod.splits outcome.splits)

lemma map_err_Ok_iff [simp, outcome_simps]: "map_err f x = Ok a \<longleftrightarrow> x = Ok a"
  by (cases x) auto

lemma map_err_Pending_iff [simp, outcome_simps]: "map_err f x = Pending \<longleftrightarrow> x = Pending"
  by (cases x) auto

lemma map_err_Err_iff [outcome_simps]: "map_err f x = Err e \<longleftrightarrow> (\<exists>d. x = Err d \<and> e = f d)"
  by (cases x) auto

lemma map_prod_id_eq [outcome_simps]:
  "map_prod id g x = (a, y) \<longleftrightarrow> (\<exists>b. x = (a, b) \<and> y = g b)"
  by (cases x) auto

lemma of_sum_not_Pending [simp]: "of_sum x \<noteq> Pending"
  by (cases x) auto

lemma of_sum_Ok_iff [simp]: "of_sum x = Ok a \<longleftrightarrow> x = Inr a"
  by (cases x) auto

lemma unat_byte_less: "unat (b :: u8) < 256"
  using unsigned_less [of b] by simp

lemma unat_word_of_nat32: "n < 4294967296 \<Longrightarrow> unat (word_of_nat n :: u32) = n"
  by (simp only: unat_of_nat) simp

lemma unat_word_of_nat8: "unat (word_of_nat n :: u8) = n mod 256"
  by (simp only: unat_of_nat) simp

lemma unat_u32_from_le_bytes:
  "unat (u32_from_le_bytes a b c d) =
     unat a + 256 * unat b + 65536 * unat c + 16777216 * unat d"
  unfolding u32_from_le_bytes_def
  using unat_byte_less [of a] unat_byte_less [of b] unat_byte_less [of c] unat_byte_less [of d]
  by (intro unat_word_of_nat32) linarith

lemma base_256_digits:
  assumes "n < 4294967296"
  shows "n mod 256 + 256 * (n div 256 mod 256) + 65536 * (n div 65536 mod 256)
     + 16777216 * (n div 16777216 mod 256) = (n :: nat)"
proof -
  have "n div 256 div 256 = n div 65536" "n div 65536 div 256 = n div 16777216"
    by (simp_all add: div_mult2_eq [symmetric])
  moreover have "n div 16777216 mod 256 = n div 16777216"
    using assms by (simp add: less_mult_imp_div_less)
  moreover have horner: "r0 + 256 * r1 + 65536 * r2 + 16777216 * j = n"
    if "m * 256 + r0 = n" "k * 256 + r1 = m" "j * 256 + r2 = k" for m k j r0 r1 r2 :: nat
    using that by simp
  ultimately show ?thesis
    using horner [OF div_mult_mod_eq [of n 256], of "n div 65536" "n div 256 mod 256"]
      div_mult_mod_eq [of "n div 256" 256] div_mult_mod_eq [of "n div 65536" 256] by metis
qed

lemma u32_le_bytes_roundtrip:
  assumes "u32_to_le_bytes w = [a, b, c, d]"
  shows "u32_from_le_bytes a b c d = w"
proof -
  have w: "unat w < 4294967296"
    using unsigned_less [of w] by simp
  have "a = word_of_nat (unat w)" "b = word_of_nat (unat w div 256)"
    "c = word_of_nat (unat w div 65536)" "d = word_of_nat (unat w div 16777216)"
    using assms unfolding u32_to_le_bytes_def by simp_all
  then have "unat a = unat w mod 256" "unat b = unat w div 256 mod 256"
    "unat c = unat w div 65536 mod 256" "unat d = unat w div 16777216 mod 256"
    by (simp_all only: unat_word_of_nat8)
  then have "unat (u32_from_le_bytes a b c d) = unat w"
    unfolding unat_u32_from_le_bytes using base_256_digits [OF w] by simp
  then show ?thesis
    by (simp add: word_unat_eq_iff)
qed

lemma length_u32_to_le_bytes [simp]: "length (u32_to_le_bytes w) = 4"
  by (simp add: u32_to_le_bytes_def)

lemma length_write_at [simp]: "i \<le> length buf \<Longrightarrow> length (write_at buf i bs) = length buf"
  by (auto simp: write_at_def)

lemma take_write_at:
  "i + length bs \<le> length buf \<Longrightarrow> take (i + length bs) (write_at buf i bs) = take i buf @ bs"
  by (cases bs) (auto simp: write_at_def min_def)

lemma take_write_at_prefix:
  "i + length bs \<le> length buf \<Longrightarrow> j \<le> i \<Longrightarrow> take j (write_at buf i bs) = take j buf"
  by (simp add: write_at_def min_def)

section \<open>Inductive invariants\<close>

text \<open>
  The contract of an invariant: the start states have it and every step keeps it.
  Every reachable state then has it.
\<close>

locale inductive_invariant =
  fixes start :: "'s \<Rightarrow> bool"
    and step :: "'s \<Rightarrow> 's \<Rightarrow> bool"
    and inv :: "'s \<Rightarrow> bool"
  assumes start_inv: "start s \<Longrightarrow> inv s"
    and step_inv: "inv s \<Longrightarrow> step s t \<Longrightarrow> inv t"
begin

lemma steps_inv: "step\<^sup>*\<^sup>* s t \<Longrightarrow> inv s \<Longrightarrow> inv t"
  by (induction rule: rtranclp_induct) (auto intro: step_inv)

lemma reachable_inv: "start s \<Longrightarrow> step\<^sup>*\<^sup>* s t \<Longrightarrow> inv t"
  using steps_inv start_inv by blast

end

end
