(* ===== verification/Foreign.thy ===== *)
theory Foreign
  imports Prelude
begin

text \<open>
  What the crates \<^verbatim>\<open>bitcoin\<close>, \<^verbatim>\<open>bip324\<close> and \<^verbatim>\<open>tokio\<close> give to
  the program. Their sources are not part of the repository: their functions are fields of
  the records \<open>bitcoin_api\<close> and \<open>runtime\<close>, which every definition that calls
  them takes as an argument, and what the program relies on is a named predicate on those
  fields. Of their data only the parts the program builds or inspects are spelled out; the
  other variants of an enum are one constructor that carries uninterpreted bytes.
\<close>

section \<open>Addresses and messages\<close>

text \<open>\<^verbatim>\<open>std::net\<close>: IP addresses as numbers, socket addresses.\<close>

datatype ip_addr = V4 u32 | V6 "128 word"

record socket_addr =
  sock_ip :: ip_addr
  sock_port :: u16

definition ipv6_UNSPECIFIED :: "128 word" where
  "ipv6_UNSPECIFIED = 0"

text \<open>\<^verbatim>\<open>AddrV2\<close>: the program distinguishes IPv4, IPv6 and everything else.\<close>

datatype addr_v2 = Ipv4 u32 | Ipv6 "128 word" | AddrOther u8 "u8 list"

type_synonym service_flags = u64
type_synonym magic = "u8 list"
type_synonym encode_error = string

datatype network = Bitcoin | Testnet | Signet | Regtest

text \<open>\<^verbatim>\<open>p2p::Address\<close>, the legacy address entry of version and addr messages.\<close>

record net_address =
  addr_services :: service_flags
  addr_address :: "u16 list"
  addr_port :: u16

record addr_v2_message =
  av2_services :: service_flags
  av2_addr :: addr_v2
  av2_port :: u16

record version_message =
  vm_version :: u32
  vm_services :: service_flags
  vm_timestamp :: i64
  vm_receiver :: net_address
  vm_sender :: net_address
  vm_nonce :: u64
  vm_user_agent :: string
  vm_start_height :: i32
  vm_relay :: bool

datatype network_message =
    Version version_message
  | Verack
  | SendAddrV2
  | SendHeaders
  | WtxidRelay
  | GetAddr
  | Addr "(u32 \<times> net_address) list"
  | AddrV2 "addr_v2_message list"
  | Ping u64
  | Pong u64
  | OtherMessage string "u8 list"

datatype io_kind = UnexpectedEof | BrokenPipe | OtherKind nat

datatype io_error = IoError io_kind string

section \<open>The functions of the crates\<close>

text \<open>
  \<^verbatim>\<open>bitcoin\<close>: the network magic, service flag tests, legacy addresses and the
  serialization of a raw message (a magic and a payload).
\<close>

record bitcoin_api =
  network_magic :: "network \<Rightarrow> magic"
  flags_has :: "service_flags \<Rightarrow> service_flags \<Rightarrow> bool"
  flag_P2P_V2 :: service_flags
  flag_NONE :: service_flags
  address_new :: "socket_addr \<Rightarrow> service_flags \<Rightarrow> net_address"
  address_socket_addr :: "net_address \<Rightarrow> io_error + socket_addr"
  raw_serialize :: "magic \<times> network_message \<Rightarrow> u8 list"
  raw_deserialize :: "u8 list \<Rightarrow> encode_error + magic \<times> network_message"

datatype role = Initiator | Responder

text \<open>
  \<^verbatim>\<open>tokio\<close> and \<^verbatim>\<open>bip324\<close>. \<open>'net\<close> is the network seen by
  \<open>TcpStream::connect\<close>, \<open>'st\<close> a TCP stream, \<open>'r\<close> a buffered read half,
  \<open>'w\<close> a write half, \<open>'pr\<close> and \<open>'pw\<close> the two halves of an established
  BIP-324 session. Reading into a buffer of \<open>k\<close> bytes returns the bytes that were put
  there; filling the internal buffer returns the bytes that are buffered after it. The
  program discards the errors of \<^verbatim>\<open>bip324\<close>, so they are \<open>unit\<close>.
\<close>

record ('net, 'st, 'r, 'w, 'pr, 'pw) runtime = bitcoin_api +
  tcp_connect :: "'net \<Rightarrow> socket_addr \<Rightarrow> (io_error, 'st) outcome \<times> 'net"
  tcp_set_nodelay :: "'st \<Rightarrow> bool \<Rightarrow> io_error + 'st"
  tcp_peer_addr :: "'st \<Rightarrow> io_error + socket_addr"
  tcp_into_split :: "'st \<Rightarrow> 'r \<times> 'w"
  fill_buf :: "'r \<Rightarrow> (io_error, u8 list) outcome \<times> 'r"
  async_read :: "'r \<Rightarrow> nat \<Rightarrow> (io_error, u8 list) outcome \<times> 'r"
  write_all :: "'w \<Rightarrow> u8 list \<Rightarrow> (io_error, unit) outcome \<times> 'w"
  flush :: "'w \<Rightarrow> (io_error, unit) outcome \<times> 'w"
  protocol_new :: "network \<Rightarrow> role \<Rightarrow> 'r \<Rightarrow> 'w \<Rightarrow> (unit, 'pr \<times> 'pw) outcome"
  protocol_read :: "'pr \<Rightarrow> (unit, u8 list) outcome \<times> 'pr"
  protocol_write :: "'pw \<Rightarrow> u8 list \<Rightarrow> (unit, unit) outcome \<times> 'pw"
  v2_serialize :: "network_message \<Rightarrow> u8 list"
  v2_deserialize :: "u8 list \<Rightarrow> unit + network_message"

section \<open>Documented behaviour\<close>

text \<open>
  \<^verbatim>\<open>AsyncRead\<close>: a read puts at most as many bytes into the buffer as it holds, they
  are the next bytes of the stream, and a read that fails or is dropped while it waits
  takes nothing from the stream. \<open>stream\<close> is what the source still has to deliver.
\<close>

definition byte_source :: "('r \<Rightarrow> nat \<Rightarrow> (io_error, u8 list) outcome \<times> 'r) \<Rightarrow> ('r \<Rightarrow> u8 list) \<Rightarrow> bool" where
  "byte_source rd stream \<longleftrightarrow>
     (\<forall>r k. case rd r k of
        (Ok bs, r') \<Rightarrow> length bs \<le> k \<and> stream r = bs @ stream r'
      | (_, r') \<Rightarrow> stream r = stream r')"

text \<open>
  A connection that stays up: while bytes are left, a read delivers some or has to wait,
  and it waits finitely often. \<open>waits\<close> bounds how often that still happens.
\<close>

definition eventually_delivers ::
  "('r \<Rightarrow> nat \<Rightarrow> (io_error, u8 list) outcome \<times> 'r) \<Rightarrow> ('r \<Rightarrow> u8 list) \<Rightarrow> ('r \<Rightarrow> nat) \<Rightarrow> bool" where
  "eventually_delivers rd stream waits \<longleftrightarrow>
     (\<forall>r k. 0 < k \<and> stream r \<noteq> [] \<longrightarrow>
        (\<exists>bs r'. bs \<noteq> [] \<and> rd r k = (Ok bs, r') \<and> waits r' \<le> waits r)
        \<or> (\<exists>r'. rd r k = (Pending, r') \<and> waits r' < waits r))"

text \<open>A stream that has ended: a read returns no bytes, and goes on doing so.\<close>

definition ends_with_eof ::
  "('r \<Rightarrow> nat \<Rightarrow> (io_error, u8 list) outcome \<times> 'r) \<Rightarrow> ('r \<Rightarrow> u8 list) \<Rightarrow> bool" where
  "ends_with_eof rd stream \<longleftrightarrow> (\<forall>r k. stream r = [] \<longrightarrow> (\<exists>r'. rd r k = (Ok [], r')))"

text \<open>
  The V1 wire format of a raw message: a 24-byte header and a payload, the header holds the
  payload's length as a little-endian \<open>u32\<close> at offset 16, and decoding inverts encoding.
\<close>

definition header_payload_len :: "u8 list \<Rightarrow> nat" where
  "header_payload_len h = unat (u32_from_le_bytes (h ! 16) (h ! 17) (h ! 18) (h ! 19))"

definition well_framed :: "('a) bitcoin_api_scheme \<Rightarrow> magic \<times> network_message \<Rightarrow> bool" where
  "well_framed B raw \<longleftrightarrow>
     raw_deserialize B (raw_serialize B raw) = Inr raw
     \<and> 24 \<le> length (raw_serialize B raw)
     \<and> length (raw_serialize B raw) = 24 + header_payload_len (raw_serialize B raw)"

text \<open>
  \<^verbatim>\<open>AsyncWriteExt\<close>: a successful \<open>write_all\<close> has put all its bytes on the wire,
  a successful \<open>flush\<close> adds none. \<open>wire\<close> is what was written so far.
\<close>

definition byte_sink ::
  "('w \<Rightarrow> u8 list \<Rightarrow> (io_error, unit) outcome \<times> 'w) \<Rightarrow> ('w \<Rightarrow> (io_error, unit) outcome \<times> 'w)
   \<Rightarrow> ('w \<Rightarrow> u8 list) \<Rightarrow> bool" where
  "byte_sink wr fl wire \<longleftrightarrow>
     (\<forall>w bs w'. wr w bs = (Ok (), w') \<longrightarrow> wire w' = wire w @ bs)
     \<and> (\<forall>w w'. fl w = (Ok (), w') \<longrightarrow> wire w' = wire w)"

lemma byte_source_Ok:
  "byte_source rd stream \<Longrightarrow> rd r k = (Ok bs, r') \<Longrightarrow> length bs \<le> k \<and> stream r = bs @ stream r'"
  unfolding byte_source_def by (drule spec [of _ r], drule spec [of _ k]) simp

lemma byte_source_other:
  "byte_source rd stream \<Longrightarrow> rd r k = (x, r') \<Longrightarrow> (\<And>bs. x \<noteq> Ok bs) \<Longrightarrow> stream r' = stream r"
  unfolding byte_source_def by (drule spec [of _ r], drule spec [of _ k]) (cases x; auto)

lemma header_payload_len_append [simp]:
  "24 \<le> length h \<Longrightarrow> header_payload_len (h @ p) = header_payload_len h"
  by (simp add: header_payload_len_def nth_append)

lemma header_payload_len_take [simp]: "header_payload_len (take 24 h) = header_payload_len h"
  by (simp add: header_payload_len_def)

lemma header_payload_len_bound: "header_payload_len h < 4294967296"
  unfolding header_payload_len_def
  using unsigned_less [of "u32_from_le_bytes (h ! 16) (h ! 17) (h ! 18) (h ! 19)"] by simp

end
