(* ===== verification/Example_Env.thy ===== *)
theory Example_Env
  imports Foreign
begin

text \<open>
  A concrete environment on which the documented laws of the crates hold, for examples: a
  scripted reader that delivers chunks, stalls and fails, a writer that logs its bytes, an
  encoding of a few messages, and a scripted BIP-324 session.
\<close>

section \<open>Readers and the V1 codec\<close>

datatype read_event = Chunk "u8 list" | Stall | Fail io_error

fun script_read :: "read_event list \<Rightarrow> nat \<Rightarrow> (io_error, u8 list) outcome \<times> read_event list" where
  "script_read [] k = (Ok [], [])"
| "script_read (Chunk bs # es) k =
     (if length bs \<le> k then (Ok bs, es) else (Ok (take k bs), Chunk (drop k bs) # es))"
| "script_read (Stall # es) k = (Pending, es)"
| "script_read (Fail e # es) k = (Err e, es)"

fun script_stream :: "read_event list \<Rightarrow> u8 list" where
  "script_stream [] = []"
| "script_stream (Chunk bs # es) = bs @ script_stream es"
| "script_stream (_ # es) = script_stream es"

text \<open>A script without errors or empty chunks, with the number of its stalls.\<close>

type_synonym healthy_script = "(u8 list \<times> u8) option list"

fun healthy_read :: "healthy_script \<Rightarrow> nat \<Rightarrow> (io_error, u8 list) outcome \<times> healthy_script" where
  "healthy_read [] k = (Ok [], [])"
| "healthy_read (None # es) k = (Pending, es)"
| "healthy_read (Some (bs, b) # es) k =
     (if length bs < k then (Ok (bs @ [b]), es)
      else (Ok (take k bs), Some (drop k bs, b) # es))"

fun healthy_stream :: "healthy_script \<Rightarrow> u8 list" where
  "healthy_stream [] = []"
| "healthy_stream (None # es) = healthy_stream es"
| "healthy_stream (Some (bs, b) # es) = bs @ [b] @ healthy_stream es"

definition healthy_waits :: "healthy_script \<Rightarrow> nat" where
  "healthy_waits es = length (filter (\<lambda>e. e = None) es)"

definition example_magic :: magic where
  "example_magic = [0xF9, 0xBE, 0xB4, 0xD9]"

text \<open>Version messages that carry a protocol version above 70000, services and a nonce.\<close>

definition example_address :: net_address where
  "example_address = \<lparr>addr_services = 0, addr_address = [], addr_port = 0\<rparr>"

definition example_version :: "u32 \<Rightarrow> service_flags \<Rightarrow> u64 \<Rightarrow> version_message" where
  "example_version v s n =
     \<lparr>vm_version = v, vm_services = s, vm_timestamp = 0, vm_receiver = example_address,
      vm_sender = example_address, vm_nonce = n, vm_user_agent = [], vm_start_height = 0,
      vm_relay = False\<rparr>"

fun example_serialize :: "magic \<times> network_message \<Rightarrow> u8 list" where
  "example_serialize (m, Ping n) = m @ [1,0,0,0, 0,0,0,0, 0,0,0,0, 1,0,0,0, 0,0,0,0, ucast n]"
| "example_serialize (m, Verack) = m @ [2,0,0,0, 0,0,0,0, 0,0,0,0, 0,0,0,0, 0,0,0,0]"
| "example_serialize (m, Version v) =
     m @ [3,0,0,0, 0,0,0,0, 0,0,0,0, 3,0,0,0, 0,0,0,0,
          ucast (vm_version v - 70000), ucast (vm_services v), ucast (vm_nonce v)]"
| "example_serialize (m, _) = m"

definition example_deserialize :: "u8 list \<Rightarrow> encode_error + magic \<times> network_message" where
  "example_deserialize bs =
     (if length bs = 25 \<and> bs ! 4 = 1 then Inr (take 4 bs, Ping (ucast (bs ! 24)))
      else if length bs = 24 \<and> bs ! 4 = 2 then Inr (take 4 bs, Verack)
      else if length bs = 27 \<and> bs ! 4 = 3 then
        Inr (take 4 bs, Version (example_version (70000 + ucast (bs ! 24)) (ucast (bs ! 25)) (ucast (bs ! 26))))
      else Inl ''unknown command'')"

lemma script_byte_source: "byte_source script_read script_stream"
  unfolding byte_source_def
proof (intro allI)
  fix es k
  show "case script_read es k of
      (Ok bs, es') \<Rightarrow> length bs \<le> k \<and> script_stream es = bs @ script_stream es'
    | (_, es') \<Rightarrow> script_stream es = script_stream es'"
  proof (cases "(es, k)" rule: script_read.cases)
    case (2 bs es' k')
    then show ?thesis using append_take_drop_id [of k bs] by (auto simp del: append_take_drop_id)
  qed simp_all
qed

lemma healthy_byte_source: "byte_source healthy_read healthy_stream"
  unfolding byte_source_def
proof (intro allI)
  fix es k
  show "case healthy_read es k of
      (Ok bs, es') \<Rightarrow> length bs \<le> k \<and> healthy_stream es = bs @ healthy_stream es'
    | (_, es') \<Rightarrow> healthy_stream es = healthy_stream es'"
  proof (cases "(es, k)" rule: healthy_read.cases)
    case (3 bs b es' k')
    then show ?thesis using append_take_drop_id [of k bs] by (auto simp del: append_take_drop_id)
  qed simp_all
qed

lemma healthy_eventually_delivers: "eventually_delivers healthy_read healthy_stream healthy_waits"
  unfolding eventually_delivers_def
proof (intro allI impI)
  fix es and k :: nat
  assume "0 < k \<and> healthy_stream es \<noteq> []"
  then show "(\<exists>bs r'. bs \<noteq> [] \<and> healthy_read es k = (Ok bs, r') \<and> healthy_waits r' \<le> healthy_waits es)
      \<or> (\<exists>r'. healthy_read es k = (Pending, r') \<and> healthy_waits r' < healthy_waits es)"
    by (cases "(es, k)" rule: healthy_read.cases) (auto simp: healthy_waits_def)
qed

text \<open>A reader that hands out at most seven bytes at a time and never waits.\<close>

definition trickle_read :: "u8 list \<Rightarrow> nat \<Rightarrow> (io_error, u8 list) outcome \<times> u8 list" where
  "trickle_read bs k = (Ok (take (min k 7) bs), drop (min k 7) bs)"

lemma trickle_laws:
  "byte_source trickle_read (\<lambda>bs. bs)" "eventually_delivers trickle_read (\<lambda>bs. bs) (\<lambda>_. 0)"
  "ends_with_eof trickle_read (\<lambda>bs. bs)"
  by (auto simp: byte_source_def eventually_delivers_def ends_with_eof_def trickle_read_def min_def)

lemma example_codec_evaluates:
  "example_deserialize (example_serialize (example_magic, Verack)) = Inr (example_magic, Verack)"
  "example_deserialize (example_serialize (example_magic, Ping 42)) = Inr (example_magic, Ping 42)"
  "example_deserialize (example_serialize (example_magic, Version (example_version 70016 8 77)))
     = Inr (example_magic, Version (example_version 70016 8 77))"
  "length (example_serialize (example_magic, Version (example_version 70016 8 77))) = 27"
  "header_payload_len (example_serialize (example_magic, Version (example_version 70016 8 77))) = 3"
  "length (example_serialize (example_magic, Verack)) = 24"
  "length (example_serialize (example_magic, Ping 42)) = 25"
  "header_payload_len (example_serialize (example_magic, Verack)) = 0"
  "header_payload_len (example_serialize (example_magic, Ping 42)) = 1"
  by (simp_all add: example_magic_def example_deserialize_def header_payload_len_def
      u32_from_le_bytes_def example_version_def)

lemma example_well_framed:
  assumes "raw_serialize B = example_serialize" "raw_deserialize B = example_deserialize"
  shows "well_framed B (example_magic, Verack)" "well_framed B (example_magic, Ping 42)"
    "well_framed B (example_magic, Version (example_version 70016 8 77))"
  unfolding well_framed_def assms example_codec_evaluates by simp_all

section \<open>An environment\<close>

text \<open>
  Packets of the scripted BIP-324 session: one byte for the command, then its fields.
\<close>

definition example_v2_serialize :: "network_message \<Rightarrow> u8 list" where
  "example_v2_serialize m =
     (case m of Version v \<Rightarrow> [7] | Verack \<Rightarrow> [1] | SendAddrV2 \<Rightarrow> [2] | SendHeaders \<Rightarrow> [3]
      | WtxidRelay \<Rightarrow> [4] | GetAddr \<Rightarrow> [5] | Ping n \<Rightarrow> [6, ucast n] | Pong n \<Rightarrow> [9, ucast n]
      | _ \<Rightarrow> [0])"

definition example_v2_deserialize :: "u8 list \<Rightarrow> unit + network_message" where
  "example_v2_deserialize bs =
     (if bs = [1] then Inr Verack
      else if bs = [2] then Inr SendAddrV2
      else if bs = [3] then Inr SendHeaders
      else if bs = [4] then Inr WtxidRelay
      else if bs = [5] then Inr GetAddr
      else (case bs of
              [c, x] \<Rightarrow>
                if c = 6 then Inr (Ping (ucast x))
                else if c = 8 then
                  Inr (AddrV2 [\<lparr>av2_services = 1, av2_addr = Ipv4 (ucast x), av2_port = 8333\<rparr>])
                else Inl ()
            | [c, v, s, n] \<Rightarrow> if c = 7 then Inr (Version (example_version (70000 + ucast v) (ucast s) (ucast n)))
                             else Inl ()
            | _ \<Rightarrow> Inl ()))"

fun example_protocol_read :: "u8 list list \<Rightarrow> (unit, u8 list) outcome \<times> u8 list list" where
  "example_protocol_read [] = (Pending, [])"
| "example_protocol_read (p # ps) = (Ok p, ps)"

text \<open>
  The read side of a stream is \<open>'r\<close>, its write side a log of bytes; the network is the
  list of streams that the next connection attempts get. The handshake of BIP-324 succeeds
  or fails as \<open>v2\<close> says.
\<close>

definition example_env ::
  "('r \<Rightarrow> nat \<Rightarrow> (io_error, u8 list) outcome \<times> 'r) \<Rightarrow> ('r \<Rightarrow> u8 list)
   \<Rightarrow> (unit, u8 list list \<times> u8 list list) outcome
   \<Rightarrow> ('r list, 'r, 'r, u8 list, u8 list list, u8 list list) runtime" where
  "example_env rd peek v2 =
     \<lparr>network_magic = (\<lambda>_. example_magic),
      flags_has = (\<lambda>a b. and a b = b),
      flag_P2P_V2 = 2048, flag_NONE = 0,
      address_new = (\<lambda>_ s. \<lparr>addr_services = s, addr_address = [], addr_port = 0\<rparr>),
      address_socket_addr = (\<lambda>a. Inr \<lparr>sock_ip = V4 0x7F000001, sock_port = addr_port a\<rparr>),
      raw_serialize = example_serialize,
      raw_deserialize = example_deserialize,
      tcp_connect = (\<lambda>net _. case net of [] \<Rightarrow> (Err (IoError (OtherKind 0) ''refused''), [])
                              | st # net' \<Rightarrow> (Ok st, net')),
      tcp_set_nodelay = (\<lambda>st _. Inr st),
      tcp_peer_addr = (\<lambda>_. Inr \<lparr>sock_ip = V4 0x7F000001, sock_port = 8333\<rparr>),
      tcp_into_split = (\<lambda>st. (st, [])),
      fill_buf = (\<lambda>r. (Ok (peek r), r)),
      async_read = rd,
      write_all = (\<lambda>w bs. (Ok (), w @ bs)),
      flush = (\<lambda>w. (Ok (), w)),
      protocol_new = (\<lambda>_ _ _ _. v2),
      protocol_read = example_protocol_read,
      protocol_write = (\<lambda>w bs. (Ok (), w @ [bs])),
      v2_serialize = example_v2_serialize,
      v2_deserialize = example_v2_deserialize\<rparr>"

abbreviation healthy_env ::
  "(healthy_script list, healthy_script, healthy_script, u8 list, u8 list list, u8 list list) runtime" where
  "healthy_env \<equiv> example_env healthy_read healthy_stream Pending"

lemma example_env_simps [simp]:
  "raw_serialize (example_env rd peek v2) = example_serialize"
  "raw_deserialize (example_env rd peek v2) = example_deserialize"
  "async_read (example_env rd peek v2) = rd"
  "write_all (example_env rd peek v2) = (\<lambda>w bs. (Ok (), w @ bs))"
  "flush (example_env rd peek v2) = (\<lambda>w. (Ok (), w))"
  "protocol_read (example_env rd peek v2) = example_protocol_read"
  "protocol_write (example_env rd peek v2) = (\<lambda>w bs. (Ok (), w @ [bs]))"
  "v2_serialize (example_env rd peek v2) = example_v2_serialize"
  "v2_deserialize (example_env rd peek v2) = example_v2_deserialize"
  by (simp_all add: example_env_def)

lemma example_byte_sink:
  "byte_sink (write_all (example_env rd peek v2)) (flush (example_env rd peek v2)) (\<lambda>w. w)"
  by (simp add: byte_sink_def)

end
