(* ===== verification/V1_Transport.thy ===== *)
theory V1_Transport
  imports Foreign Example_Env
begin

text \<open>
  The plaintext transport, \<^verbatim>\<open>connection/src/transport/v1.rs\<close>, and the error type
  of \<^verbatim>\<open>connection/src/transport/mod.rs\<close>. A reader keeps how far it has got with
  the current message in its receive state, so that a read that is dropped while it waits
  can be called again. Lengths are \<^verbatim>\<open>usize\<close>: on 64-bit targets a \<open>u32\<close>
  payload length plus 24 does not overflow, and they are \<open>nat\<close> here.
\<close>

section \<open>Model\<close>

datatype transport_error =
    Io io_error
  | Deserialize encode_error
  | MagicMismatch
  | Encryption

text \<open>The conversions that \<^verbatim>\<open>?\<close> makes, \<^verbatim>\<open>From\<close> of \<^verbatim>\<open>TransportError\<close>.\<close>

definition transport_error_from_io :: "io_error \<Rightarrow> transport_error" where
  [simp]: "transport_error_from_io = Io"

definition transport_error_from_encode :: "encode_error \<Rightarrow> transport_error" where
  [simp]: "transport_error_from_encode = Deserialize"

definition HEADER_SIZE :: nat where "HEADER_SIZE = 24"

definition PAYLOAD_LENGTH_OFFSET :: nat where "PAYLOAD_LENGTH_OFFSET = 16"

datatype v1_receive_state =
    ReadingHeader "u8 list" nat
  | ReadingPayload "u8 list" nat

definition reading_header :: v1_receive_state where
  "reading_header = ReadingHeader (replicate HEADER_SIZE 0) 0"

definition reading_payload :: "u8 list \<Rightarrow> nat \<Rightarrow> v1_receive_state" where
  "reading_payload header payload_len =
     ReadingPayload (header @ replicate (HEADER_SIZE + payload_len - length header) 0) HEADER_SIZE"

record 'w v1_writer =
  v1w_magic :: magic
  v1w_writer :: 'w

definition v1_writer_new :: "magic \<Rightarrow> 'w \<Rightarrow> 'w v1_writer" where
  "v1_writer_new m w = \<lparr>v1w_magic = m, v1w_writer = w\<rparr>"

definition v1_writer_write ::
  "('net, 'st, 'r, 'w, 'pr, 'pw) runtime \<Rightarrow> 'w v1_writer \<Rightarrow> network_message
   \<Rightarrow> (io_error, unit) outcome \<times> 'w v1_writer" where
  "v1_writer_write E tw message =
     (let data = raw_serialize E (v1w_magic tw, message);
          (res, w) = and_then (write_all E (v1w_writer tw) data) (\<lambda>_ w. flush E w)
      in (res, tw\<lparr>v1w_writer := w\<rparr>))"

record 'r v1_reader =
  v1r_magic :: magic
  receive_state :: v1_receive_state
  v1r_reader :: 'r

definition v1_reader_new :: "magic \<Rightarrow> 'r \<Rightarrow> 'r v1_reader" where
  "v1_reader_new m r = \<lparr>v1r_magic = m, receive_state = reading_header, v1r_reader = r\<rparr>"

text \<open>
  The inner loops of \<^verbatim>\<open>read\<close>: read into the rest of the buffer until it is full;
  \<open>msg\<close> is the message of the error for a stream that ends early.
\<close>

function fill :: "('r \<Rightarrow> nat \<Rightarrow> (io_error, u8 list) outcome \<times> 'r) \<Rightarrow> string \<Rightarrow> u8 list \<Rightarrow> nat \<Rightarrow> 'r
   \<Rightarrow> (transport_error, unit) outcome \<times> u8 list \<times> nat \<times> 'r" where
  "fill rd msg buf n r =
     (if n < length buf then
        (case rd r (length buf - n) of
           (Ok bs, r') \<Rightarrow>
             if bs = [] then (Err (Io (IoError UnexpectedEof msg)), buf, n, r')
             else fill rd msg (write_at buf n bs) (n + length bs) r'
         | (Err e, r') \<Rightarrow> (Err (transport_error_from_io e), buf, n, r')
         | (Pending, r') \<Rightarrow> (Pending, buf, n, r'))
      else (Ok (), buf, n, r))"
  by pat_completeness auto
termination
  by (relation "measure (\<lambda>(rd, msg, buf, n, r). length buf - n)") (auto simp flip: length_greater_0_conv)

declare fill.simps [simp del]

text \<open>
  One turn of the outer \<^verbatim>\<open>loop\<close>: \<open>None\<close> to go round again, \<open>Some\<close> to return.
\<close>

definition v1_read_turn ::
  "('net, 'st, 'r, 'w, 'pr, 'pw) runtime \<Rightarrow> 'r v1_reader
   \<Rightarrow> (transport_error, network_message) outcome option \<times> 'r v1_reader" where
  "v1_read_turn E tr =
     (case receive_state tr of
        ReadingHeader header bytes_read \<Rightarrow>
          (case fill (async_read E) ''connection closed while reading header'' header bytes_read
                  (v1r_reader tr) of
             (Ok _, header', _, r') \<Rightarrow>
               let payload_len = unat (u32_from_le_bytes
                     (header' ! PAYLOAD_LENGTH_OFFSET) (header' ! (PAYLOAD_LENGTH_OFFSET + 1))
                     (header' ! (PAYLOAD_LENGTH_OFFSET + 2)) (header' ! (PAYLOAD_LENGTH_OFFSET + 3)))
               in (None, tr\<lparr>receive_state := reading_payload header' payload_len, v1r_reader := r'\<rparr>)
           | (Err e, header', n', r') \<Rightarrow>
               (Some (Err e), tr\<lparr>receive_state := ReadingHeader header' n', v1r_reader := r'\<rparr>)
           | (Pending, header', n', r') \<Rightarrow>
               (Some Pending, tr\<lparr>receive_state := ReadingHeader header' n', v1r_reader := r'\<rparr>))
      | ReadingPayload buffer bytes_read \<Rightarrow>
          (case fill (async_read E) ''connection closed while reading payload'' buffer bytes_read
                  (v1r_reader tr) of
             (Ok _, buffer', n', r') \<Rightarrow>
               let tr' = tr\<lparr>receive_state := ReadingPayload buffer' n', v1r_reader := r'\<rparr>
               in (case raw_deserialize E buffer' of
                     Inl e \<Rightarrow> (Some (Err (transport_error_from_encode e)), tr')
                   | Inr (m, payload) \<Rightarrow>
                       if m \<noteq> v1r_magic tr then (Some (Err MagicMismatch), tr')
                       else (Some (Ok payload), tr'\<lparr>receive_state := reading_header\<rparr>))
           | (Err e, buffer', n', r') \<Rightarrow>
               (Some (Err e), tr\<lparr>receive_state := ReadingPayload buffer' n', v1r_reader := r'\<rparr>)
           | (Pending, buffer', n', r') \<Rightarrow>
               (Some Pending, tr\<lparr>receive_state := ReadingPayload buffer' n', v1r_reader := r'\<rparr>)))"

lemma v1_read_turn_again:
  "v1_read_turn E tr = (None, tr') \<Longrightarrow>
     (\<exists>h n. receive_state tr = ReadingHeader h n) \<and> (\<exists>b n. receive_state tr' = ReadingPayload b n)"
  by (auto simp: v1_read_turn_def reading_payload_def Let_def
      split: v1_receive_state.splits prod.splits outcome.splits sum.splits if_splits)

function v1_reader_read ::
  "('net, 'st, 'r, 'w, 'pr, 'pw) runtime \<Rightarrow> 'r v1_reader
   \<Rightarrow> (transport_error, network_message) outcome \<times> 'r v1_reader" where
  "v1_reader_read E tr =
     (case v1_read_turn E tr of
        (Some res, tr') \<Rightarrow> (res, tr')
      | (None, tr') \<Rightarrow> v1_reader_read E tr')"
  by pat_completeness auto
termination
  by (relation "measure (\<lambda>(E, tr). case receive_state tr of ReadingHeader _ _ \<Rightarrow> 1 | _ \<Rightarrow> 0)")
    (auto dest!: v1_read_turn_again [OF sym])

record ('r, 'w) v1_transport =
  v1t_writer :: "'w v1_writer"
  v1t_reader :: "'r v1_reader"

definition v1_transport_new :: "magic \<Rightarrow> 'r \<Rightarrow> 'w \<Rightarrow> ('r, 'w) v1_transport" where
  "v1_transport_new m r w = \<lparr>v1t_writer = v1_writer_new m w, v1t_reader = v1_reader_new m r\<rparr>"

definition v1_transport_read ::
  "('net, 'st, 'r, 'w, 'pr, 'pw) runtime \<Rightarrow> ('r, 'w) v1_transport
   \<Rightarrow> (transport_error, network_message) outcome \<times> ('r, 'w) v1_transport" where
  "v1_transport_read E t =
     (let (res, tr) = v1_reader_read E (v1t_reader t) in (res, t\<lparr>v1t_reader := tr\<rparr>))"

definition v1_transport_write ::
  "('net, 'st, 'r, 'w, 'pr, 'pw) runtime \<Rightarrow> ('r, 'w) v1_transport \<Rightarrow> network_message
   \<Rightarrow> (transport_error, unit) outcome \<times> ('r, 'w) v1_transport" where
  "v1_transport_write E t message =
     (let (res, tw) = v1_writer_write E (v1t_writer t) message
      in (map_err Io res, t\<lparr>v1t_writer := tw\<rparr>))"

definition v1_into_split :: "('r, 'w) v1_transport \<Rightarrow> 'r v1_reader \<times> 'w v1_writer" where
  "v1_into_split t = (v1t_reader t, v1t_writer t)"

declare v1_reader_read.simps [simp del]

section \<open>Invariant and conservation\<close>

text \<open>
  Well-formed receive states, and the bytes of the current message that have arrived.
\<close>

definition v1_wf :: "'r v1_reader \<Rightarrow> bool" where
  "v1_wf tr \<longleftrightarrow>
     (case receive_state tr of
        ReadingHeader h n \<Rightarrow> length h = HEADER_SIZE \<and> n \<le> HEADER_SIZE
      | ReadingPayload b n \<Rightarrow>
          HEADER_SIZE \<le> n \<and> n \<le> length b \<and> length b = HEADER_SIZE + header_payload_len b)"

fun received_bytes :: "v1_receive_state \<Rightarrow> u8 list" where
  "received_bytes (ReadingHeader h n) = take n h"
| "received_bytes (ReadingPayload b n) = take n b"

text \<open>Everything of the stream from the start of the current message on.\<close>

definition v1_input :: "('r \<Rightarrow> u8 list) \<Rightarrow> 'r v1_reader \<Rightarrow> u8 list" where
  "v1_input stream tr = received_bytes (receive_state tr) @ stream (v1r_reader tr)"

lemma v1_wf_simps [simp]:
  "receive_state tr = ReadingHeader h n \<Longrightarrow> v1_wf tr \<longleftrightarrow> length h = HEADER_SIZE \<and> n \<le> HEADER_SIZE"
  "receive_state tr = ReadingPayload b n \<Longrightarrow> v1_wf tr \<longleftrightarrow>
     HEADER_SIZE \<le> n \<and> n \<le> length b \<and> length b = HEADER_SIZE + header_payload_len b"
  by (simp_all add: v1_wf_def)

lemma received_reading_header [simp]: "received_bytes reading_header = []"
  by (simp add: reading_header_def)

lemma v1_wf_reader_new [simp]: "v1_wf (v1_reader_new m r)"
  by (simp add: v1_wf_def v1_reader_new_def reading_header_def)

lemma v1_reader_new_sel [simp]:
  "v1r_magic (v1_reader_new m r) = m" "v1r_reader (v1_reader_new m r) = r"
  "receive_state (v1_reader_new m r) = reading_header"
  by (simp_all add: v1_reader_new_def)

lemma v1_input_reader_new [simp]: "v1_input stream (v1_reader_new m r) = stream r"
  by (simp add: v1_input_def v1_reader_new_def)

lemma fill_done: "\<not> n < length buf \<Longrightarrow> fill rd msg buf n r = (Ok (), buf, n, r)"
  by (subst fill.simps) simp

lemma fill_conserves:
  assumes "byte_source rd stream" "n \<le> length buf" "fill rd msg buf n r = (res, buf', n', r')"
  shows "length buf' = length buf \<and> n \<le> n' \<and> n' \<le> length buf
    \<and> take n' buf' @ stream r' = take n buf @ stream r \<and> (res = Ok () \<longrightarrow> n' = length buf)"
  using assms
proof (induction rd msg buf n r rule: fill.induct)
  case (1 rd msg buf n r)
  show ?case
  proof (cases "n < length buf")
    case False
    with "1.prems" fill_done [OF False, of rd msg r] show ?thesis by auto
  next
    case True
    obtain x r1 where x: "rd r (length buf - n) = (x, r1)" by fastforce
    show ?thesis
    proof (cases "\<exists>bs. x = Ok bs \<and> bs \<noteq> []")
      case False
      then have "stream r1 = stream r"
        using byte_source_other [OF "1.prems"(1) x] byte_source_Ok [OF "1.prems"(1), of r _ "[]" r1] x
        by (cases x) auto
      with False True "1.prems" x show ?thesis
        by (cases x) (auto simp: fill.simps [of rd msg buf n r])
    next
      case ok: True
      then obtain bs where bs: "x = Ok bs" "bs \<noteq> []" by blast
      with byte_source_Ok [OF "1.prems"(1)] x
      have src: "length bs \<le> length buf - n" "stream r = bs @ stream r1" by auto
      have len: "length (write_at buf n bs) = length buf" using True by simp
      have "fill rd msg (write_at buf n bs) (n + length bs) r1 = (res, buf', n', r')"
        using "1.prems"(3) True x bs by (simp add: fill.simps [of rd msg buf n r])
      from "1.IH" [OF True x [symmetric] bs(1) bs(2) "1.prems"(1) _ this]
      have "length buf' = length buf \<and> n + length bs \<le> n' \<and> n' \<le> length buf
        \<and> take n' buf' @ stream r' = take (n + length bs) (write_at buf n bs) @ stream r1
        \<and> (res = Ok () \<longrightarrow> n' = length buf)"
        using len src True by simp
      moreover have "take (n + length bs) (write_at buf n bs) = take n buf @ bs"
        using src True by (intro take_write_at) simp
      ultimately show ?thesis using src by auto
    qed
  qed
qed

lemma fill_prefix:
  assumes "byte_source rd stream" "n \<le> length buf" "fill rd msg buf n r = (res, buf', n', r')"
  shows "take n buf' = take n buf"
proof -
  from fill_conserves [OF assms]
  have "n \<le> n'" "n' \<le> length buf'" "take n' buf' @ stream r' = take n buf @ stream r" by simp_all
  then have "take n (take n' buf' @ stream r') = take n (take n buf @ stream r)" by simp
  with \<open>n \<le> n'\<close> \<open>n' \<le> length buf'\<close> assms(2) show ?thesis by (simp add: min_def)
qed

text \<open>A buffer that is full at the end of a loop holds exactly the bytes it was filled with.\<close>

lemma fill_Ok:
  assumes "byte_source rd stream" "n \<le> length buf" "fill rd msg buf n r = (Ok u, buf', n', r')"
  shows "length buf' = length buf" "n' = length buf" "buf' @ stream r' = take n buf @ stream r"
  using fill_conserves [OF assms(1,2), of msg r "Ok ()" buf' n' r'] assms(3) by auto

lemma fill_eventually:
  assumes "byte_source rd stream" "eventually_delivers rd stream waits" "n \<le> length buf"
    "length buf \<le> n + length (stream r)"
  shows "\<exists>res buf' n' r'. fill rd msg buf n r = (res, buf', n', r')
    \<and> (res = Ok () \<and> waits r' \<le> waits r \<or> res = Pending \<and> waits r' < waits r)"
  using assms
proof (induction rd msg buf n r rule: fill.induct)
  case (1 rd msg buf n r)
  show ?case
  proof (cases "n < length buf")
    case False
    then show ?thesis by (simp add: fill_done)
  next
    case True
    with "1.prems"(4) have "stream r \<noteq> []" by auto
    with True "1.prems"(2)
    consider bs r1 where "rd r (length buf - n) = (Ok bs, r1)" "bs \<noteq> []" "waits r1 \<le> waits r"
      | r1 where "rd r (length buf - n) = (Pending, r1)" "waits r1 < waits r"
      unfolding eventually_delivers_def by (meson zero_less_diff)
    then show ?thesis
    proof cases
      case (1 bs r1)
      with byte_source_Ok [OF "1.prems"(1) "1"(1)]
      have src: "length bs \<le> length buf - n" "stream r = bs @ stream r1" by auto
      have "\<exists>res buf' n' r'. fill rd msg (write_at buf n bs) (n + length bs) r1 = (res, buf', n', r')
          \<and> (res = Ok () \<and> waits r' \<le> waits r1 \<or> res = Pending \<and> waits r' < waits r1)"
        using "1.IH" [OF True "1"(1) [symmetric] refl "1"(2) "1.prems"(1,2)] src True "1.prems"(4)
        by simp
      with 1 True show ?thesis by (fastforce simp: fill.simps [of rd msg buf n r])
    next
      case (2 r1)
      with True show ?thesis by (simp add: fill.simps [of rd msg buf n r])
    qed
  qed
qed

lemma header_payload_len_prefix:
  assumes "take n b' = take n b" "HEADER_SIZE \<le> n"
  shows "header_payload_len b' = header_payload_len b"
proof -
  from assms have "take 24 (take n b') = take 24 (take n b)" by simp
  with assms(2) have "take 24 b' = take 24 b" by (simp add: HEADER_SIZE_def min_def)
  then show ?thesis by (metis header_payload_len_take)
qed

lemma reading_payload_simps:
  assumes "length h = HEADER_SIZE"
  shows "reading_payload h k = ReadingPayload (h @ replicate k 0) HEADER_SIZE"
    "header_payload_len (h @ replicate k 0) = header_payload_len h"
  using assms by (simp_all add: reading_payload_def HEADER_SIZE_def)

lemma v1_turn_header:
  assumes src: "byte_source (async_read E) stream" and wf: "v1_wf tr"
    and st: "receive_state tr = ReadingHeader h n" and turn: "v1_read_turn E tr = (x, tr')"
  shows "v1_wf tr' \<and> v1r_magic tr' = v1r_magic tr \<and> v1_input stream tr' = v1_input stream tr
    \<and> (\<forall>m. x \<noteq> Some (Ok m))"
proof -
  obtain res h' n' r' where f:
    "fill (async_read E) ''connection closed while reading header'' h n (v1r_reader tr) = (res, h', n', r')"
    by (metis prod_cases4)
  have n: "length h = HEADER_SIZE" "n \<le> length h" using wf st by simp_all
  note fc = fill_conserves [OF src n(2) f]
  show ?thesis
  proof (cases res)
    case (Ok u)
    note ok = fill_Ok [OF src n(2) f [unfolded Ok]]
    have h': "length h' = HEADER_SIZE" using ok n by simp
    have "x = None" and tr': "tr' = tr\<lparr>receive_state := reading_payload h' (header_payload_len h'),
        v1r_reader := r'\<rparr>"
      using turn f Ok st
      by (simp_all add: v1_read_turn_def header_payload_len_def PAYLOAD_LENGTH_OFFSET_def Let_def)
    with ok st n h' show ?thesis
      by (auto simp: v1_input_def v1_wf_def reading_payload_simps)
  qed (use turn f st fc n in \<open>auto simp: v1_read_turn_def v1_input_def v1_wf_def\<close>)
qed

definition v1_returns ::
  "('net, 'st, 'r, 'w, 'pr, 'pw) runtime \<Rightarrow> ('r \<Rightarrow> u8 list) \<Rightarrow> 'r v1_reader
   \<Rightarrow> (transport_error, network_message) outcome \<Rightarrow> 'r v1_reader \<Rightarrow> bool" where
  "v1_returns E stream tr res tr' \<longleftrightarrow>
     (case res of
        Ok m \<Rightarrow> \<exists>frame. raw_deserialize E frame = Inr (v1r_magic tr, m)
                 \<and> length frame = HEADER_SIZE + header_payload_len frame
                 \<and> v1_input stream tr = frame @ stream (v1r_reader tr')
                 \<and> receive_state tr' = reading_header
      | _ \<Rightarrow> v1_input stream tr' = v1_input stream tr)"

lemma v1_turn_payload:
  assumes src: "byte_source (async_read E) stream" and wf: "v1_wf tr"
    and st: "receive_state tr = ReadingPayload b n" and turn: "v1_read_turn E tr = (x, tr')"
  shows "v1_wf tr' \<and> v1r_magic tr' = v1r_magic tr \<and> (\<exists>res. x = Some res \<and> v1_returns E stream tr res tr')"
proof -
  obtain res b' n' r' where f:
    "fill (async_read E) ''connection closed while reading payload'' b n (v1r_reader tr) = (res, b', n', r')"
    by (metis prod_cases4)
  have n: "HEADER_SIZE \<le> n" "n \<le> length b" "length b = HEADER_SIZE + header_payload_len b"
    using wf st by simp_all
  note fc = fill_conserves [OF src n(2) f]
  have len: "length b' = HEADER_SIZE + header_payload_len b'"
    using fc header_payload_len_prefix [OF fill_prefix [OF src n(2) f] n(1)] n(3) by simp
  have hdr: "v1_wf (tr''\<lparr>receive_state := reading_header\<rparr>)" for tr'' :: "'a v1_reader"
    by (simp add: v1_wf_def reading_header_def)
  show ?thesis
  proof (cases res)
    case (Ok u)
    note ok = fill_Ok [OF src n(2) f [unfolded Ok]]
    show ?thesis
    proof (cases "\<exists>p. raw_deserialize E b' = Inr (v1r_magic tr, p)")
      case True
      then obtain p where p: "raw_deserialize E b' = Inr (v1r_magic tr, p)" by blast
      with turn f Ok st
      have "x = Some (Ok p)" "tr' = tr\<lparr>receive_state := reading_header, v1r_reader := r'\<rparr>"
        by (auto simp: v1_read_turn_def Let_def)
      with p ok st len show ?thesis
        by (auto simp: v1_returns_def v1_input_def v1_wf_def reading_header_def)
    next
      case False
      with turn f Ok st
      have "\<exists>e. x = Some (Err e)" "tr' = tr\<lparr>receive_state := ReadingPayload b' n', v1r_reader := r'\<rparr>"
        by (auto simp: v1_read_turn_def Let_def split: sum.splits prod.splits if_splits)
      with st n len fc show ?thesis
        by (auto simp: v1_returns_def v1_input_def)
    qed
  qed (use turn f st fc n len in \<open>auto simp: v1_read_turn_def v1_input_def v1_returns_def\<close>)
qed

lemma v1_read_payload_turn:
  assumes "receive_state tr = ReadingPayload b n" "v1_read_turn E tr = (x, tr')"
  shows "\<exists>res. x = Some res \<and> v1_reader_read E tr = (res, tr')"
proof -
  have "x \<noteq> None" using assms v1_read_turn_again [of E tr tr'] by auto
  with assms(2) show ?thesis by (auto simp: v1_reader_read.simps [of E tr])
qed

lemma v1_read_returns:
  assumes src: "byte_source (async_read E) stream" and wf: "v1_wf tr"
    and read: "v1_reader_read E tr = (res, tr')"
  shows "v1_wf tr' \<and> v1r_magic tr' = v1r_magic tr \<and> v1_returns E stream tr res tr'"
proof (cases "receive_state tr")
  case (ReadingPayload b n)
  obtain x tr1 where t: "v1_read_turn E tr = (x, tr1)" by fastforce
  from v1_turn_payload [OF src wf ReadingPayload t] v1_read_payload_turn [OF ReadingPayload t] read
  show ?thesis by auto
next
  case (ReadingHeader h n)
  obtain x tr1 where t: "v1_read_turn E tr = (x, tr1)" by fastforce
  note h = v1_turn_header [OF src wf ReadingHeader t]
  show ?thesis
  proof (cases x)
    case (Some y)
    with t read have "res = y" "tr' = tr1" by (simp_all add: v1_reader_read.simps [of E tr])
    with h Some show ?thesis by (cases y) (auto simp: v1_returns_def)
  next
    case None
    then obtain b n1 where st1: "receive_state tr1 = ReadingPayload b n1"
      using v1_read_turn_again t by blast
    obtain x2 tr2 where t2: "v1_read_turn E tr1 = (x2, tr2)" by fastforce
    have "v1_reader_read E tr = v1_reader_read E tr1"
      using t None by (simp add: v1_reader_read.simps [of E tr])
    with v1_turn_payload [OF src _ st1 t2] v1_read_payload_turn [OF st1 t2] read h
    show ?thesis by (auto simp: v1_returns_def split: outcome.splits)
  qed
qed

section \<open>Delivery\<close>

text \<open>
  A frame of the wire format, and what reading it gives: the reference for \<open>read\<close>.
\<close>

definition complete_frame :: "u8 list \<Rightarrow> bool" where
  "complete_frame F \<longleftrightarrow> HEADER_SIZE \<le> length F \<and> length F = HEADER_SIZE + header_payload_len F"

definition frame_result ::
  "('a) bitcoin_api_scheme \<Rightarrow> magic \<Rightarrow> u8 list \<Rightarrow> (transport_error, network_message) outcome" where
  "frame_result B mg F =
     (case raw_deserialize B F of
        Inl e \<Rightarrow> Err (Deserialize e)
      | Inr (m, payload) \<Rightarrow> if m \<noteq> mg then Err MagicMismatch else Ok payload)"

lemma v1_turn_payload_frame:
  assumes src: "byte_source (async_read E) stream"
    and flow: "eventually_delivers (async_read E) stream waits"
    and wf: "v1_wf tr" and F: "complete_frame F" and inp: "v1_input stream tr = F @ rest"
    and st: "receive_state tr = ReadingPayload b n"
  shows "\<exists>res tr'. v1_read_turn E tr = (Some res, tr')
    \<and> (res = frame_result E (v1r_magic tr) F \<and> (\<forall>p. res = Ok p \<longrightarrow> v1_input stream tr' = rest)
          \<and> waits (v1r_reader tr') \<le> waits (v1r_reader tr)
        \<or> res = Pending \<and> waits (v1r_reader tr') < waits (v1r_reader tr))"
proof -
  have n: "HEADER_SIZE \<le> n" "n \<le> length b" "length b = HEADER_SIZE + header_payload_len b"
    using wf st by simp_all
  have tk: "take n b @ stream (v1r_reader tr) = F @ rest" using inp st by (simp add: v1_input_def)
  have "take 24 (take n b @ stream (v1r_reader tr)) = take 24 (F @ rest)" using tk by simp
  then have "take 24 b = take 24 F" using n F by (simp add: complete_frame_def HEADER_SIZE_def min_def)
  then have "header_payload_len b = header_payload_len F" by (metis header_payload_len_take)
  with n F have len: "length b = length F" by (simp add: complete_frame_def)
  have "length b \<le> n + length (stream (v1r_reader tr))"
    using arg_cong [OF tk, of length] n len by simp
  from fill_eventually [OF src flow n(2) this, of "''connection closed while reading payload''"]
  obtain res b' n' r' where f: "fill (async_read E) ''connection closed while reading payload'' b n
      (v1r_reader tr) = (res, b', n', r')"
    and res: "res = Ok () \<and> waits r' \<le> waits (v1r_reader tr)
      \<or> res = Pending \<and> waits r' < waits (v1r_reader tr)" by blast
  have "b' = F \<and> stream r' = rest" if "res = Ok ()"
    using fill_Ok [OF src n(2) f [unfolded that]] tk len by (metis append_eq_append_conv)
  with f st res show ?thesis
    by (auto simp: v1_read_turn_def v1_input_def frame_result_def Let_def split: sum.splits)
qed

lemma v1_turn_header_delivers:
  assumes src: "byte_source (async_read E) stream"
    and flow: "eventually_delivers (async_read E) stream waits"
    and wf: "v1_wf tr" and long: "HEADER_SIZE \<le> length (v1_input stream tr)"
    and st: "receive_state tr = ReadingHeader h n"
  shows "\<exists>x tr'. v1_read_turn E tr = (x, tr')
    \<and> (x = None \<and> waits (v1r_reader tr') \<le> waits (v1r_reader tr)
        \<or> x = Some Pending \<and> waits (v1r_reader tr') < waits (v1r_reader tr))"
proof -
  have n: "length h = HEADER_SIZE" "n \<le> length h" using wf st by simp_all
  have "length h \<le> n + length (stream (v1r_reader tr))"
    using long st n by (simp add: v1_input_def)
  from fill_eventually [OF src flow n(2) this, of "''connection closed while reading header''"]
  obtain res h' n' r' where "fill (async_read E) ''connection closed while reading header'' h n
      (v1r_reader tr) = (res, h', n', r')"
    "res = Ok () \<and> waits r' \<le> waits (v1r_reader tr)
      \<or> res = Pending \<and> waits r' < waits (v1r_reader tr)" by blast
  with st show ?thesis by (auto simp: v1_read_turn_def Let_def)
qed

lemma v1_read_frame:
  assumes src: "byte_source (async_read E) stream"
    and flow: "eventually_delivers (async_read E) stream waits"
    and wf: "v1_wf tr" and F: "complete_frame F" and inp: "v1_input stream tr = F @ rest"
  shows "\<exists>res tr'. v1_reader_read E tr = (res, tr')
    \<and> (res = frame_result E (v1r_magic tr) F \<and> (\<forall>p. res = Ok p \<longrightarrow> v1_input stream tr' = rest)
          \<and> waits (v1r_reader tr') \<le> waits (v1r_reader tr)
        \<or> res = Pending \<and> waits (v1r_reader tr') < waits (v1r_reader tr))"
proof (cases "receive_state tr")
  case (ReadingPayload b n)
  from v1_turn_payload_frame [OF assms ReadingPayload] v1_read_payload_turn [OF ReadingPayload]
  show ?thesis by fastforce
next
  case (ReadingHeader h n)
  have "HEADER_SIZE \<le> length (v1_input stream tr)"
    using inp F by (simp add: complete_frame_def)
  from v1_turn_header_delivers [OF src flow wf this ReadingHeader]
  obtain x tr1 where t: "v1_read_turn E tr = (x, tr1)"
    and x: "x = None \<and> waits (v1r_reader tr1) \<le> waits (v1r_reader tr)
      \<or> x = Some Pending \<and> waits (v1r_reader tr1) < waits (v1r_reader tr)" by blast
  show ?thesis
  proof (cases x)
    case (Some y)
    with t x show ?thesis by (simp add: v1_reader_read.simps [of E tr])
  next
    case None
    note h = v1_turn_header [OF src wf ReadingHeader t]
    from v1_read_turn_again t None obtain b n1 where st1: "receive_state tr1 = ReadingPayload b n1"
      by blast
    from v1_turn_payload_frame [OF src flow _ F _ st1, of rest] h inp
    obtain res tr2 where t2: "v1_read_turn E tr1 = (Some res, tr2)"
      and "res = frame_result E (v1r_magic tr) F \<and> (\<forall>p. res = Ok p \<longrightarrow> v1_input stream tr2 = rest)
            \<and> waits (v1r_reader tr2) \<le> waits (v1r_reader tr1)
        \<or> res = Pending \<and> waits (v1r_reader tr2) < waits (v1r_reader tr1)" by auto
    moreover have "v1_reader_read E tr = (res, tr2)"
      using t t2 None by (simp add: v1_reader_read.simps [of E tr] v1_reader_read.simps [of E tr1])
    ultimately show ?thesis using x None by auto
  qed
qed

text \<open>The frame of a message is complete, and reading it gives the message to a reader of its network.\<close>

lemma well_framed_frame:
  "well_framed B (mg, m) \<Longrightarrow> complete_frame (raw_serialize B (mg, m))"
  "well_framed B (mg, m) \<Longrightarrow> frame_result B mg' (raw_serialize B (mg, m)) = (if mg = mg' then Ok m else Err MagicMismatch)"
  by (auto simp: well_framed_def complete_frame_def HEADER_SIZE_def frame_result_def)

lemma v1_read_delivers:
  assumes "byte_source (async_read E) stream" and "eventually_delivers (async_read E) stream waits"
    and "v1_wf tr" and "well_framed E (v1r_magic tr, m)"
    and "v1_input stream tr = raw_serialize E (v1r_magic tr, m) @ rest"
  shows "\<exists>res tr'. v1_reader_read E tr = (res, tr')
    \<and> (res = Ok m \<and> v1_input stream tr' = rest \<and> waits (v1r_reader tr') \<le> waits (v1r_reader tr)
        \<or> res = Pending \<and> waits (v1r_reader tr') < waits (v1r_reader tr))"
  using v1_read_frame [OF assms(1-3) well_framed_frame(1) [OF assms(4)] assms(5)]
    well_framed_frame(2) [OF assms(4), of "v1r_magic tr"] by auto

text \<open>
  A caller that drops a waiting read, as \<^verbatim>\<open>tokio::select!\<close> does, and calls
  \<open>read\<close> again later, at most \<open>k\<close> times more.
\<close>

primrec v1_read_retry ::
  "('net, 'st, 'r, 'w, 'pr, 'pw) runtime \<Rightarrow> nat \<Rightarrow> 'r v1_reader
   \<Rightarrow> (transport_error, network_message) outcome \<times> 'r v1_reader" where
  "v1_read_retry E 0 tr = v1_reader_read E tr"
| "v1_read_retry E (Suc k) tr =
     (case v1_reader_read E tr of (Pending, tr') \<Rightarrow> v1_read_retry E k tr' | r \<Rightarrow> r)"

text \<open>Reading and writing a list of messages.\<close>

primrec v1_read_list ::
  "('net, 'st, 'r, 'w, 'pr, 'pw) runtime \<Rightarrow> nat \<Rightarrow> nat \<Rightarrow> 'r v1_reader
   \<Rightarrow> (transport_error, network_message list) outcome \<times> 'r v1_reader" where
  "v1_read_list E k 0 tr = (Ok [], tr)"
| "v1_read_list E k (Suc n) tr =
     and_then (v1_read_retry E k tr)
       (\<lambda>m tr1. and_then (v1_read_list E k n tr1) (\<lambda>ms tr2. (Ok (m # ms), tr2)))"

primrec v1_write_list ::
  "('net, 'st, 'r, 'w, 'pr, 'pw) runtime \<Rightarrow> network_message list \<Rightarrow> 'w v1_writer
   \<Rightarrow> (io_error, unit) outcome \<times> 'w v1_writer" where
  "v1_write_list E [] tw = (Ok (), tw)"
| "v1_write_list E (m # ms) tw = and_then (v1_writer_write E tw m) (\<lambda>_. v1_write_list E ms)"

abbreviation v1_frames :: "('a) bitcoin_api_scheme \<Rightarrow> magic \<Rightarrow> network_message list \<Rightarrow> u8 list" where
  "v1_frames E mg ms \<equiv> concat (map (\<lambda>m. raw_serialize E (mg, m)) ms)"

lemma v1_write_wire:
  assumes "byte_sink (write_all E) (flush E) wire" "v1_writer_write E tw m = (Ok (), tw')"
  shows "wire (v1w_writer tw') = wire (v1w_writer tw) @ raw_serialize E (v1w_magic tw, m)
    \<and> v1w_magic tw' = v1w_magic tw"
proof -
  obtain res w where w: "and_then (write_all E (v1w_writer tw) (raw_serialize E (v1w_magic tw, m)))
      (\<lambda>_ w. flush E w) = (res, w)" by fastforce
  with assms(2) have "res = Ok ()" and tw': "tw' = tw\<lparr>v1w_writer := w\<rparr>"
    by (simp_all add: v1_writer_write_def Let_def)
  with w obtain w1 where "write_all E (v1w_writer tw) (raw_serialize E (v1w_magic tw, m)) = (Ok (), w1)"
    "flush E w1 = (Ok (), w)" by (auto simp: and_then_Ok_iff)
  with assms(1) tw' show ?thesis by (auto simp: byte_sink_def)
qed

lemma v1_write_list_wire:
  assumes "byte_sink (write_all E) (flush E) wire" "v1_write_list E ms tw = (Ok (), tw')"
  shows "wire (v1w_writer tw') = wire (v1w_writer tw) @ v1_frames E (v1w_magic tw) ms"
  using assms(2)
proof (induction ms arbitrary: tw)
  case Nil
  then show ?case by simp
next
  case (Cons m ms)
  then obtain tw1 where "v1_writer_write E tw m = (Ok (), tw1)" "v1_write_list E ms tw1 = (Ok (), tw')"
    by (auto simp: and_then_Ok_iff)
  with v1_write_wire [OF assms(1)] Cons.IH show ?case by fastforce
qed

lemma v1_frame_result_not_pending [simp]: "frame_result B mg F \<noteq> Pending"
  by (auto simp: frame_result_def split: sum.splits)

lemma v1_retry_frame:
  assumes src: "byte_source (async_read E) stream"
    and flow: "eventually_delivers (async_read E) stream waits"
    and "v1_wf tr" "complete_frame F" "waits (v1r_reader tr) \<le> k" "v1_input stream tr = F @ rest"
  shows "\<exists>tr'. v1_read_retry E k tr = (frame_result E (v1r_magic tr) F, tr') \<and> v1_wf tr'
    \<and> v1r_magic tr' = v1r_magic tr \<and> waits (v1r_reader tr') \<le> waits (v1r_reader tr)
    \<and> (\<forall>p. frame_result E (v1r_magic tr) F = Ok p \<longrightarrow> v1_input stream tr' = rest)"
  using assms(3-)
proof (induction k arbitrary: tr)
  case 0
  from v1_read_frame [OF src flow "0.prems"(1,2,4)] "0.prems"(3)
  obtain tr' where "v1_reader_read E tr = (frame_result E (v1r_magic tr) F, tr')"
    "\<forall>p. frame_result E (v1r_magic tr) F = Ok p \<longrightarrow> v1_input stream tr' = rest"
    "waits (v1r_reader tr') \<le> waits (v1r_reader tr)" by auto
  with v1_read_returns [OF src "0.prems"(1)] show ?case by auto
next
  case (Suc k)
  from v1_read_frame [OF src flow Suc.prems(1,2,4)]
  obtain res tr1 where r: "v1_reader_read E tr = (res, tr1)"
    and c: "res = frame_result E (v1r_magic tr) F \<and> (\<forall>p. res = Ok p \<longrightarrow> v1_input stream tr1 = rest)
        \<and> waits (v1r_reader tr1) \<le> waits (v1r_reader tr)
      \<or> res = Pending \<and> waits (v1r_reader tr1) < waits (v1r_reader tr)" by blast
  note ret = v1_read_returns [OF src Suc.prems(1) r]
  from c show ?case
  proof
    assume res: "res = frame_result E (v1r_magic tr) F \<and> (\<forall>p. res = Ok p \<longrightarrow> v1_input stream tr1 = rest)
        \<and> waits (v1r_reader tr1) \<le> waits (v1r_reader tr)"
    then have "res \<noteq> Pending" by simp
    with r have "v1_read_retry E (Suc k) tr = (res, tr1)" by (simp split: outcome.splits)
    with res ret show ?thesis by simp
  next
    assume p: "res = Pending \<and> waits (v1r_reader tr1) < waits (v1r_reader tr)"
    with Suc.IH [of tr1] Suc.prems ret obtain tr' where
      "v1_read_retry E k tr1 = (frame_result E (v1r_magic tr) F, tr')" "v1_wf tr'" "v1r_magic tr' = v1r_magic tr"
      "waits (v1r_reader tr') \<le> waits (v1r_reader tr1)"
      "\<forall>p. frame_result E (v1r_magic tr) F = Ok p \<longrightarrow> v1_input stream tr' = rest"
      by (auto simp: v1_returns_def)
    with p r show ?thesis by (auto intro: order_trans less_imp_le)
  qed
qed

lemma v1_retry_delivers:
  assumes "byte_source (async_read E) stream" "eventually_delivers (async_read E) stream waits"
    and "v1_wf tr" "well_framed E (v1r_magic tr, m)" "waits (v1r_reader tr) \<le> k"
    and "v1_input stream tr = raw_serialize E (v1r_magic tr, m) @ rest"
  shows "\<exists>tr'. v1_read_retry E k tr = (Ok m, tr') \<and> v1_input stream tr' = rest \<and> v1_wf tr'
    \<and> v1r_magic tr' = v1r_magic tr \<and> waits (v1r_reader tr') \<le> waits (v1r_reader tr)"
  using v1_retry_frame [OF assms(1-3) well_framed_frame(1) [OF assms(4)] assms(5,6)]
    well_framed_frame(2) [OF assms(4), of "v1r_magic tr"] by auto

lemma v1_read_list_delivers:
  assumes src: "byte_source (async_read E) stream"
    and flow: "eventually_delivers (async_read E) stream waits"
    and "v1_wf tr" "\<forall>m \<in> set ms. well_framed E (v1r_magic tr, m)" "waits (v1r_reader tr) \<le> k"
    and "v1_input stream tr = v1_frames E (v1r_magic tr) ms @ rest"
  shows "\<exists>tr'. v1_read_list E k (length ms) tr = (Ok ms, tr') \<and> v1_input stream tr' = rest"
  using assms(3-)
proof (induction ms arbitrary: tr)
  case Nil
  then show ?case by simp
next
  case (Cons m ms)
  have "\<exists>tr1. v1_read_retry E k tr = (Ok m, tr1)
      \<and> v1_input stream tr1 = v1_frames E (v1r_magic tr) ms @ rest \<and> v1_wf tr1
      \<and> v1r_magic tr1 = v1r_magic tr \<and> waits (v1r_reader tr1) \<le> waits (v1r_reader tr)"
    using Cons.prems by (intro v1_retry_delivers [OF src flow]) auto
  then obtain tr1 where r: "v1_read_retry E k tr = (Ok m, tr1)"
    and i: "v1_input stream tr1 = v1_frames E (v1r_magic tr1) ms @ rest" "v1_wf tr1"
      "v1r_magic tr1 = v1r_magic tr" "waits (v1r_reader tr1) \<le> k"
    using Cons.prems(3) by auto
  with Cons.IH [of tr1] Cons.prems(2) obtain tr'
    where "v1_read_list E k (length ms) tr1 = (Ok ms, tr')" "v1_input stream tr' = rest" by auto
  with r show ?case by simp
qed

section \<open>Decoding errors and early ends\<close>

lemma fill_result:
  "fill rd msg buf n r = (res, buf', n', r') \<Longrightarrow>
     (res = Ok () \<longrightarrow> \<not> n' < length buf') \<and> (\<forall>e. res = Err e \<longrightarrow> (\<exists>io. e = Io io))"
proof (induction rd msg buf n r rule: fill.induct)
  case (1 rd msg buf n r)
  then show ?case
    by (subst (asm) (2) fill.simps) (auto split: if_splits prod.splits outcome.splits)
qed

lemma v1_turn_err:
  assumes "v1_read_turn E tr = (Some (Err e), tr')"
  shows "(\<exists>io. e = Io io) \<or>
    (\<exists>b n. receive_state tr' = ReadingPayload b n \<and> \<not> n < length b
      \<and> (case raw_deserialize E b of
           Inl d \<Rightarrow> e = Deserialize d
         | Inr (m, p) \<Rightarrow> m \<noteq> v1r_magic tr' \<and> e = MagicMismatch))"
proof (cases "receive_state tr")
  case (ReadingHeader h n)
  obtain res h' n' r' where f: "fill (async_read E) ''connection closed while reading header'' h n
      (v1r_reader tr) = (res, h', n', r')" by (metis prod_cases4)
  with assms ReadingHeader fill_result [OF f] show ?thesis
    by (auto simp: v1_read_turn_def Let_def split: outcome.splits)
next
  case (ReadingPayload b n)
  obtain res b' n' r' where f: "fill (async_read E) ''connection closed while reading payload'' b n
      (v1r_reader tr) = (res, b', n', r')" by (metis prod_cases4)
  show ?thesis
  proof (cases res)
    case (Ok u)
    with assms ReadingPayload fill_result [OF f] f show ?thesis
      by (intro disjI2 exI [of _ b'] exI [of _ n'])
        (auto simp: v1_read_turn_def Let_def split: sum.splits prod.splits if_splits)
  qed (use assms ReadingPayload fill_result [OF f] f in \<open>auto simp: v1_read_turn_def\<close>)
qed

lemma v1_reread:
  assumes st: "receive_state tr = ReadingPayload b n" "\<not> n < length b"
    and "case raw_deserialize E b of Inl d \<Rightarrow> e = Deserialize d
         | Inr (m, p) \<Rightarrow> m \<noteq> v1r_magic tr \<and> e = MagicMismatch"
  shows "v1_reader_read E tr = (Err e, tr)"
proof -
  have eta: "tr\<lparr>receive_state := ReadingPayload b n, v1r_reader := v1r_reader tr\<rparr> = tr"
    using st(1) by (cases tr) simp
  have "v1_read_turn E tr = (Some (Err e), tr)"
    using assms eta by (auto simp: v1_read_turn_def fill_done Let_def split: sum.splits prod.splits)
  then show ?thesis by (simp add: v1_reader_read.simps [of E tr])
qed

lemma v1_read_err:
  assumes "v1_reader_read E tr = (Err e, tr')"
  shows "\<exists>tr1. v1_read_turn E tr1 = (Some (Err e), tr')"
  using assms
  by (induction E tr rule: v1_reader_read.induct)
    (auto simp: v1_reader_read.simps split: prod.splits option.splits)

lemma fill_eof:
  assumes "byte_source rd stream" "eventually_delivers rd stream (\<lambda>_. 0)" "ends_with_eof rd stream"
    "n + length (stream r) < length buf"
  shows "\<exists>buf' n' r'. fill rd msg buf n r = (Err (Io (IoError UnexpectedEof msg)), buf', n', r')"
  using assms
proof (induction rd msg buf n r rule: fill.induct)
  case (1 rd msg buf n r)
  then have n: "n < length buf" by simp
  show ?case
  proof (cases "stream r = []")
    case True
    then obtain r1 where "rd r (length buf - n) = (Ok [], r1)"
      using "1.prems"(3) unfolding ends_with_eof_def by blast
    with n show ?thesis by (simp add: fill.simps [of rd msg buf n r])
  next
    case False
    then obtain bs r1 where x: "rd r (length buf - n) = (Ok bs, r1)" "bs \<noteq> []"
      using "1.prems"(2) n unfolding eventually_delivers_def by (metis less_nat_zero_code zero_less_diff)
    with byte_source_Ok [OF "1.prems"(1) x(1)]
    have src: "length bs \<le> length buf - n" "stream r = bs @ stream r1" by auto
    have "\<exists>buf' n' r'. fill rd msg (write_at buf n bs) (n + length bs) r1 =
        (Err (Io (IoError UnexpectedEof msg)), buf', n', r')"
      using "1.IH" [OF n x(1) [symmetric] refl x(2) "1.prems"(1-3)] src n "1.prems"(4) by simp
    then show ?thesis using n x by (simp add: fill.simps [of rd msg buf n r])
  qed
qed

lemma v1_truncated_header:
  assumes src: "byte_source (async_read E) stream" and flow: "eventually_delivers (async_read E) stream (\<lambda>_. 0)"
    and eof: "ends_with_eof (async_read E) stream"
    and wf: "v1_wf tr" and st: "receive_state tr = ReadingHeader h n" and short: "length (v1_input stream tr) < HEADER_SIZE"
  shows "\<exists>tr'. v1_reader_read E tr =
    (Err (Io (IoError UnexpectedEof ''connection closed while reading header'')), tr')"
proof -
  have "n + length (stream (v1r_reader tr)) < length h" using wf st short by (simp add: v1_input_def)
  from fill_eof [OF src flow eof this, of "''connection closed while reading header''"] st
  show ?thesis by (auto simp: v1_reader_read.simps [of E tr] v1_read_turn_def)
qed

lemma v1_truncated_payload:
  assumes src: "byte_source (async_read E) stream" and flow: "eventually_delivers (async_read E) stream (\<lambda>_. 0)"
    and eof: "ends_with_eof (async_read E) stream"
    and wf: "v1_wf tr" and st: "receive_state tr = ReadingHeader h0 n0"
    and long: "HEADER_SIZE \<le> length (v1_input stream tr)"
      "length (v1_input stream tr) < HEADER_SIZE + header_payload_len (v1_input stream tr)"
  shows "\<exists>tr'. v1_reader_read E tr =
    (Err (Io (IoError UnexpectedEof ''connection closed while reading payload'')), tr')"
proof -
  let ?s = "v1_input stream tr"
  from v1_turn_header_delivers [OF src flow wf long(1) st] obtain tr1 where t: "v1_read_turn E tr = (None, tr1)" by auto
  note h = v1_turn_header [OF src wf st t]
  from v1_read_turn_again [OF t] obtain b n where st1: "receive_state tr1 = ReadingPayload b n" by blast
  have b: "HEADER_SIZE \<le> n" "n \<le> length b" "length b = HEADER_SIZE + header_payload_len b"
    "take n b @ stream (v1r_reader tr1) = ?s" using h st1 by (auto simp: v1_input_def)
  have "take n ?s = take n b" using b(2) by (subst b(4) [symmetric]) simp
  moreover have "length ?s = n + length (stream (v1r_reader tr1))" using b(2) by (subst b(4) [symmetric]) simp
  ultimately have "n + length (stream (v1r_reader tr1)) < length b"
    using header_payload_len_prefix [OF _ b(1), of ?s] b(3) long(2) by simp
  from fill_eof [OF src flow eof this, of "''connection closed while reading payload''"]
  have "\<exists>tr'. v1_read_turn E tr1 =
      (Some (Err (Io (IoError UnexpectedEof ''connection closed while reading payload''))), tr')"
    using st1 by (auto simp: v1_read_turn_def)
  with t show ?thesis
    by (auto simp: v1_reader_read.simps [of E tr] v1_reader_read.simps [of E tr1])
qed

lemma v1_wf_buffer_bound:
  assumes "v1_wf tr" "receive_state tr = ReadingPayload b n"
  shows "length b < HEADER_SIZE + 2 ^ 32"
  using assms header_payload_len_bound [of b] by simp

lemma v1_short_frame_kept:
  assumes src: "byte_source (async_read E) stream" and wf: "v1_wf tr"
    and st: "receive_state tr = ReadingPayload b n" and read: "v1_reader_read E tr = (res, tr')"
    and short: "length (v1_input stream tr) < HEADER_SIZE + header_payload_len (v1_input stream tr)"
  shows "\<exists>b' n'. (\<forall>m. res \<noteq> Ok m) \<and> receive_state tr' = ReadingPayload b' n' \<and> length b' = length b"
proof -
  obtain x tr1 where t: "v1_read_turn E tr = (x, tr1)" by fastforce
  obtain y b' n' r' where f: "fill (async_read E) ''connection closed while reading payload'' b n
      (v1r_reader tr) = (y, b', n', r')" by (metis prod_cases4)
  have n: "HEADER_SIZE \<le> n" "n \<le> length b" "length b = HEADER_SIZE + header_payload_len b"
    using wf st by simp_all
  have inp: "v1_input stream tr = take n b @ stream (v1r_reader tr)" using st by (simp add: v1_input_def)
  have "take n (v1_input stream tr) = take n b" using n(2) inp by simp
  then have "header_payload_len (v1_input stream tr) = header_payload_len b"
    using n(1) by (rule header_payload_len_prefix)
  with short n have "length (v1_input stream tr) < length b" by simp
  moreover have "y \<noteq> Ok u" for u
    using fill_Ok [OF src n(2), of _ "v1r_reader tr" u b' n' r'] f calculation inp
    by (metis length_append not_add_less1)
  ultimately have "(\<forall>m. x \<noteq> Some (Ok m))" "receive_state tr1 = ReadingPayload b' n'"
    using t f st by (cases y; auto simp: v1_read_turn_def)+
  moreover from v1_read_payload_turn [OF st t] read have "x = Some res" "tr' = tr1" by auto
  ultimately show ?thesis using fill_conserves [OF src n(2) f] by auto
qed

section \<open>Properties\<close>

text \<open>
  C19. Whatever a read does, no byte is lost. From a well-formed reader, a read that waits
  or fails leaves the bytes already received followed by the bytes still to come as they
  were, so it can be called again; a read that returns a message has consumed exactly one
  frame, of the length its header announces and with the expected magic, and is ready for
  the next header. The receive state stays well-formed.
\<close>

theorem v1_read_conserves_stream:
  assumes "byte_source (async_read E) stream" and "v1_wf tr"
    and "v1_reader_read E tr = (res, tr')"
  shows "v1_wf tr' \<and> v1r_magic tr' = v1r_magic tr
    \<and> (case res of
         Ok m \<Rightarrow> \<exists>frame. raw_deserialize E frame = Inr (v1r_magic tr, m)
                  \<and> length frame = HEADER_SIZE + header_payload_len frame
                  \<and> v1_input stream tr = frame @ stream (v1r_reader tr')
                  \<and> receive_state tr' = reading_header
       | _ \<Rightarrow> v1_input stream tr' = v1_input stream tr)"
  using v1_read_returns [OF assms] by (simp add: v1_returns_def)

theorem v1_read_conserves_stream_witness:
  "let tr' = snd (v1_reader_read (example_env script_read script_stream Pending)
                   (v1_reader_new example_magic [Chunk [1, 2, 3], Stall, Chunk [4]]))
   in v1_wf tr' \<and> v1_input script_stream tr' = [1, 2, 3, 4]"
proof -
  let ?E = "example_env script_read script_stream Pending"
  let ?tr = "v1_reader_new example_magic [Chunk [1, 2, 3], Stall, Chunk [4]]"
  have src: "byte_source (async_read ?E) script_stream"
    using script_byte_source by simp
  obtain res tr' where r: "v1_reader_read ?E ?tr = (res, tr')" by fastforce
  have "fst (v1_reader_read ?E ?tr) = Pending"
    by (subst v1_reader_read.simps)
      (simp add: v1_read_turn_def reading_header_def HEADER_SIZE_def fill.simps write_at_def)
  with v1_read_conserves_stream [OF src _ r] r show ?thesis by simp
qed

text \<open>
  C23. The incremental reader is equivalent to decoding a frame at once, and cancellation is
  safe. If the stream from the current message on starts with a complete frame, then from any
  well-formed state, also in the middle of the header or of the payload, calling \<open>read\<close> again
  after each read that had to wait gives, after at most as many retries as the reader waits,
  exactly what decoding the frame gives: its message, or the error of a frame that does not
  decode or carries another magic. If it is a message, the rest of the stream is left.
\<close>

theorem v1_cancelled_reads_resume:
  assumes "byte_source (async_read E) stream"
    and "eventually_delivers (async_read E) stream waits"
    and "v1_wf tr" and "complete_frame F" and "waits (v1r_reader tr) \<le> k"
    and "v1_input stream tr = F @ rest"
  shows "\<exists>tr'. v1_read_retry E k tr = (frame_result E (v1r_magic tr) F, tr')
    \<and> (\<forall>m. frame_result E (v1r_magic tr) F = Ok m \<longrightarrow> v1_input stream tr' = rest)"
  using v1_retry_frame [OF assms] by blast

theorem v1_cancelled_reads_resume_witness:
  "\<exists>tr'. v1_read_retry healthy_env 2
     (v1_reader_new example_magic
        [Some ([0xF9, 0xBE, 0xB4], 0xD9), None,
         Some ([1,0,0,0, 0,0,0,0, 0,0,0,0, 1,0,0,0, 0,0,0], 0), None, Some ([], 42)]) = (Ok (Ping 42), tr')
     \<and> v1_input healthy_stream tr' = []"
proof -
  let ?chunks = "[Some ([0xF9, 0xBE, 0xB4], 0xD9), None,
         Some ([1,0,0,0, 0,0,0,0, 0,0,0,0, 1,0,0,0, 0,0,0], 0), None, Some ([], 42)]"
  have "byte_source (async_read healthy_env) healthy_stream"
    "eventually_delivers (async_read healthy_env) healthy_stream healthy_waits"
    using healthy_byte_source healthy_eventually_delivers by simp_all
  moreover have fr: "well_framed healthy_env (example_magic, Ping 42)"
    using example_well_framed [of healthy_env] by simp
  ultimately show ?thesis
    using v1_cancelled_reads_resume [of healthy_env healthy_stream healthy_waits "v1_reader_new example_magic ?chunks"
        "raw_serialize healthy_env (example_magic, Ping 42)" 2 "[]"] well_framed_frame(1) [OF fr]
      well_framed_frame(2) [OF fr, of example_magic]
    by (simp add: healthy_waits_def example_magic_def)
qed

text \<open>
  C10. End to end: the bytes that a writer puts on the wire for a list of messages are read
  back by a reader with the same magic as that list, in order, however the stream is cut
  into chunks and however often a read has to be retried.
\<close>

theorem v1_messages_roundtrip:
  assumes "byte_sink (write_all W) (flush W) wire"
    and "v1_write_list W ms (v1_writer_new mg w) = (Ok (), tw')" and "wire w = []"
    and "byte_source (async_read E) stream"
    and "eventually_delivers (async_read E) stream waits" and "waits r \<le> k"
    and "raw_serialize W = raw_serialize E"
    and "\<forall>m \<in> set ms. well_framed E (mg, m)"
    and "stream r = wire (v1w_writer tw')"
  shows "\<exists>tr'. v1_read_list E k (length ms) (v1_reader_new mg r) = (Ok ms, tr')
    \<and> v1_input stream tr' = []"
proof -
  have "wire (v1w_writer tw') = v1_frames E mg ms"
    using v1_write_list_wire [OF assms(1,2)] assms(3,7) by (simp add: v1_writer_new_def)
  moreover have "v1r_magic (v1_reader_new mg r) = mg" "v1r_reader (v1_reader_new mg r) = r"
    by (simp_all add: v1_reader_new_def)
  ultimately show ?thesis
    using assms(4-6,8,9) by (intro v1_read_list_delivers [where waits = waits]) simp_all
qed

theorem v1_messages_roundtrip_witness:
  "\<exists>tr'. v1_read_list (example_env trickle_read (\<lambda>r. r) Pending) 0 2
       (v1_reader_new example_magic
          (example_serialize (example_magic, Ping 42) @ example_serialize (example_magic, Verack)))
     = (Ok [Ping 42, Verack], tr') \<and> v1_input (\<lambda>r. r) tr' = []"
proof -
  let ?E = "example_env trickle_read (\<lambda>r. r) Pending"
  have "v1_write_list ?E [Ping 42, Verack] (v1_writer_new example_magic []) =
      (Ok (), v1_writer_new example_magic
        (example_serialize (example_magic, Ping 42) @ example_serialize (example_magic, Verack)))"
    by (simp add: v1_writer_write_def v1_writer_new_def)
  from v1_messages_roundtrip [OF example_byte_sink this refl, where E = ?E and stream = "\<lambda>r. r"
      and waits = "\<lambda>_. 0" and k = 0] trickle_laws example_well_framed [of ?E]
  show ?thesis
    by (simp add: v1_writer_new_def numeral_2_eq_2 del: example_serialize.simps v1_read_list.simps)
qed

text \<open>
  C34. A frame that does not decode, or that carries another network's magic, is never
  skipped: the reader keeps it, and every later read returns the same error without
  touching the stream.
\<close>

theorem v1_decode_error_is_sticky:
  assumes "v1_reader_read E tr = (Err e, tr')"
    and "e = MagicMismatch \<or> (\<exists>d. e = Deserialize d)"
  shows "v1_reader_read E tr' = (Err e, tr')"
proof -
  from v1_read_err [OF assms(1)] obtain tr1 where "v1_read_turn E tr1 = (Some (Err e), tr')" by blast
  from v1_turn_err [OF this] assms(2) obtain b n
    where "receive_state tr' = ReadingPayload b n" "\<not> n < length b"
      "case raw_deserialize E b of Inl d \<Rightarrow> e = Deserialize d
       | Inr (m, p) \<Rightarrow> m \<noteq> v1r_magic tr' \<and> e = MagicMismatch" by auto
  then show ?thesis by (rule v1_reread)
qed

theorem v1_decode_error_is_sticky_witness:
  "let tr' = snd (v1_reader_read (example_env script_read script_stream Pending)
                   (v1_reader_new example_magic [Chunk (replicate 24 0)]))
   in v1_reader_read (example_env script_read script_stream Pending) tr'
        = (Err (Deserialize ''unknown command''), tr')"
proof -
  let ?E = "example_env script_read script_stream Pending"
  let ?tr = "v1_reader_new example_magic [Chunk (replicate 24 0)]"
  obtain res tr' where r: "v1_reader_read ?E ?tr = (res, tr')" by fastforce
  have "fst (v1_reader_read ?E ?tr) = Err (Deserialize ''unknown command'')"
    by (simp add: v1_reader_read.simps v1_read_turn_def u32_from_le_bytes_def
        reading_header_def reading_payload_def HEADER_SIZE_def PAYLOAD_LENGTH_OFFSET_def fill.simps
        write_at_def example_deserialize_def)
  with v1_decode_error_is_sticky [of ?E ?tr "Deserialize ''unknown command''" tr'] r
  show ?thesis by simp
qed

text \<open>
  C33. A stream that ends inside a message is reported as an unexpected end of file, with
  the phase it happened in: fewer bytes than a header, or a whole header and fewer bytes
  than it announces.
\<close>

theorem v1_truncated_stream:
  assumes src: "byte_source (async_read E) stream"
    and flow: "eventually_delivers (async_read E) stream (\<lambda>_. 0)"
    and eof: "ends_with_eof (async_read E) stream"
    and fresh: "receive_state tr = reading_header"
  shows "(length (stream (v1r_reader tr)) < HEADER_SIZE \<longrightarrow>
      (\<exists>tr'. v1_reader_read E tr =
        (Err (Io (IoError UnexpectedEof ''connection closed while reading header'')), tr')))
   \<and> (HEADER_SIZE \<le> length (stream (v1r_reader tr))
      \<and> length (stream (v1r_reader tr)) < HEADER_SIZE + header_payload_len (stream (v1r_reader tr)) \<longrightarrow>
      (\<exists>tr'. v1_reader_read E tr =
        (Err (Io (IoError UnexpectedEof ''connection closed while reading payload'')), tr')))"
proof -
  have wf: "v1_wf tr" and st: "receive_state tr = ReadingHeader (replicate HEADER_SIZE 0) 0"
    and inp: "v1_input stream tr = stream (v1r_reader tr)"
    using fresh by (simp_all add: v1_wf_def reading_header_def v1_input_def)
  with v1_truncated_header [OF src flow eof wf st] v1_truncated_payload [OF src flow eof wf st] show ?thesis
    by simp
qed

theorem v1_truncated_stream_witness:
  "\<exists>tr'. v1_reader_read (example_env trickle_read (\<lambda>r. r) Pending)
     (v1_reader_new example_magic [1, 2, 3, 4, 5, 6, 7, 8, 9, 10]) =
     (Err (Io (IoError UnexpectedEof ''connection closed while reading header'')), tr')"
proof -
  let ?E = "example_env trickle_read (\<lambda>r. r) Pending"
  let ?tr = "v1_reader_new example_magic [1, 2, 3, 4, 5, 6, 7, 8, 9, 10]"
  have "receive_state ?tr = reading_header" "length (v1r_reader ?tr) < HEADER_SIZE"
    by (simp_all add: v1_reader_new_def HEADER_SIZE_def)
  with v1_truncated_stream [of ?E "\<lambda>r. r" ?tr] trickle_laws show ?thesis by simp
qed

text \<open>
  C20. What a header makes the reader allocate. A header alone decides the size of the buffer:
  while fewer bytes have arrived than it announces, a read ends with the reader in the payload
  phase, with a buffer of 24 bytes plus the announced length, of which only the received bytes
  are used. Neither the magic nor a maximum message size is looked at before, so 24 bytes from
  any peer reserve up to 4 GiB; the only bound on that buffer is that of the 32-bit length
  field.
\<close>

theorem v1_header_reserves_payload:
  assumes src: "byte_source (async_read E) stream"
    and flow: "eventually_delivers (async_read E) stream (\<lambda>_. 0)"
    and fresh: "receive_state tr = reading_header"
    and "stream (v1r_reader tr) = s" and header: "HEADER_SIZE \<le> length s"
    and short: "length s < HEADER_SIZE + header_payload_len s"
  shows "\<exists>res tr' b n. v1_reader_read E tr = (res, tr') \<and> (\<forall>m. res \<noteq> Ok m)
    \<and> receive_state tr' = ReadingPayload b n
    \<and> length b = HEADER_SIZE + header_payload_len s \<and> length b < HEADER_SIZE + 2 ^ 32
    \<and> HEADER_SIZE \<le> n \<and> n \<le> length s"
proof -
  have wf: "v1_wf tr" and st: "receive_state tr = ReadingHeader (replicate HEADER_SIZE 0) 0"
    and inp: "v1_input stream tr = s"
    using fresh assms(4) by (simp_all add: v1_wf_def reading_header_def v1_input_def)
  from v1_turn_header_delivers [OF src flow wf _ st] header inp obtain tr1
    where t: "v1_read_turn E tr = (None, tr1)" by auto
  note h = v1_turn_header [OF src wf st t]
  from v1_read_turn_again [OF t] obtain b n where st1: "receive_state tr1 = ReadingPayload b n" by blast
  obtain res tr' where r: "v1_reader_read E tr1 = (res, tr')" by fastforce
  then have read: "v1_reader_read E tr = (res, tr')" using t by (simp add: v1_reader_read.simps [of E tr])
  have inp1: "v1_input stream tr1 = s" using h inp by simp
  from v1_short_frame_kept [OF src _ st1 r] h inp1 short obtain b' n'
    where res: "\<forall>m. res \<noteq> Ok m" and st': "receive_state tr' = ReadingPayload b' n'" by auto
  from v1_read_returns [OF src wf read] have wf': "v1_wf tr'" and "v1_returns E stream tr res tr'" by simp_all
  with res inp have "v1_input stream tr' = s" by (cases res) (auto simp: v1_returns_def)
  then have s: "take n' b' @ stream (v1r_reader tr') = s" using st' by (simp add: v1_input_def)
  have n': "HEADER_SIZE \<le> n'" "n' \<le> length b'" "length b' = HEADER_SIZE + header_payload_len b'"
    using wf' st' by simp_all
  have "take n' s = take n' b'" using n'(2) by (subst s [symmetric]) simp
  then have len: "length b' = HEADER_SIZE + header_payload_len s"
    using header_payload_len_prefix [OF _ n'(1), of s b'] n'(3) by simp
  have "n' \<le> length s" using n'(2) by (subst s [symmetric]) simp
  with read res st' len n'(1) v1_wf_buffer_bound [OF wf' st'] show ?thesis by blast
qed

theorem v1_header_reserves_payload_witness:
  "\<exists>res tr' b n. v1_reader_read (example_env trickle_read (\<lambda>r. r) Pending)
       (v1_reader_new example_magic (replicate 16 0 @ [255, 255, 255, 255] @ replicate 4 0)) = (res, tr')
     \<and> receive_state tr' = ReadingPayload b n \<and> length b = 4294967319 \<and> n = 24"
proof -
  let ?E = "example_env trickle_read (\<lambda>r. r) Pending"
  let ?s = "replicate 16 0 @ [255, 255, 255, 255] @ replicate 4 0 :: u8 list"
  have h: "header_payload_len ?s = 4294967295"
    by (simp add: header_payload_len_def u32_from_le_bytes_def nth_append)
  have "receive_state (v1_reader_new example_magic ?s) = reading_header" by simp
  from v1_header_reserves_payload [OF _ _ this, of ?E "\<lambda>r. r" ?s] trickle_laws h
  obtain res tr' b n where "v1_reader_read ?E (v1_reader_new example_magic ?s) = (res, tr')"
    "receive_state tr' = ReadingPayload b n" "length b = 4294967319" "24 \<le> n" "n \<le> length ?s"
    by (auto simp: HEADER_SIZE_def)
  then show ?thesis by (intro exI [of _ res] exI [of _ tr'] exI [of _ b] exI [of _ n]) simp
qed

end
