(* ===== verification/Transport.thy ===== *)
theory Transport
  imports V1_Transport
begin

text \<open>
  The encrypted transport \<^verbatim>\<open>connection/src/transport/v2.rs\<close>, a thin wrapper of
  an established BIP-324 session, and the common interface of both transports,
  \<^verbatim>\<open>connection/src/transport/mod.rs\<close>.
\<close>

section \<open>The encrypted transport\<close>

record 'pr v2_reader =
  v2r_reader :: 'pr

definition v2_reader_new :: "'pr \<Rightarrow> 'pr v2_reader" where
  "v2_reader_new r = \<lparr>v2r_reader = r\<rparr>"

definition v2_reader_read ::
  "('net, 'st, 'r, 'w, 'pr, 'pw) runtime \<Rightarrow> 'pr v2_reader
   \<Rightarrow> (transport_error, network_message) outcome \<times> 'pr v2_reader" where
  "v2_reader_read E tr =
     (let (res, r) = protocol_read E (v2r_reader tr)
      in and_then (map_err (\<lambda>_. Encryption) res, tr\<lparr>v2r_reader := r\<rparr>)
           (\<lambda>contents tr'. (map_err (\<lambda>_. Encryption) (of_sum (v2_deserialize E contents)), tr')))"

record 'pw v2_writer =
  v2w_writer :: 'pw

definition v2_writer_new :: "'pw \<Rightarrow> 'pw v2_writer" where
  "v2_writer_new w = \<lparr>v2w_writer = w\<rparr>"

definition v2_writer_write ::
  "('net, 'st, 'r, 'w, 'pr, 'pw) runtime \<Rightarrow> 'pw v2_writer \<Rightarrow> network_message
   \<Rightarrow> (transport_error, unit) outcome \<times> 'pw v2_writer" where
  "v2_writer_write E tw message =
     (let data = v2_serialize E message;
          (res, w) = protocol_write E (v2w_writer tw) data
      in (map_err (\<lambda>_. Encryption) res, tw\<lparr>v2w_writer := w\<rparr>))"

record ('pr, 'pw) v2_transport =
  v2t_writer :: "'pw v2_writer"
  v2t_reader :: "'pr v2_reader"

text \<open>An established session is the pair of its halves, \<^verbatim>\<open>Protocol::into_split\<close>.\<close>

definition v2_transport_new :: "'pr \<times> 'pw \<Rightarrow> ('pr, 'pw) v2_transport" where
  "v2_transport_new protocol =
     (let (reader, writer) = protocol
      in \<lparr>v2t_writer = \<lparr>v2w_writer = writer\<rparr>, v2t_reader = \<lparr>v2r_reader = reader\<rparr>\<rparr>)"

definition v2_transport_read ::
  "('net, 'st, 'r, 'w, 'pr, 'pw) runtime \<Rightarrow> ('pr, 'pw) v2_transport
   \<Rightarrow> (transport_error, network_message) outcome \<times> ('pr, 'pw) v2_transport" where
  "v2_transport_read E t =
     (let (res, tr) = v2_reader_read E (v2t_reader t) in (res, t\<lparr>v2t_reader := tr\<rparr>))"

definition v2_transport_write ::
  "('net, 'st, 'r, 'w, 'pr, 'pw) runtime \<Rightarrow> ('pr, 'pw) v2_transport \<Rightarrow> network_message
   \<Rightarrow> (transport_error, unit) outcome \<times> ('pr, 'pw) v2_transport" where
  "v2_transport_write E t message =
     (let (res, tw) = v2_writer_write E (v2t_writer t) message in (res, t\<lparr>v2t_writer := tw\<rparr>))"

definition v2_into_split :: "('pr, 'pw) v2_transport \<Rightarrow> 'pr v2_reader \<times> 'pw v2_writer" where
  "v2_into_split t = (v2t_reader t, v2t_writer t)"

section \<open>The common interface\<close>

datatype ('r, 'pr) transport_reader = ReaderV1 "'r v1_reader" | ReaderV2 "'pr v2_reader"

datatype ('w, 'pw) transport_writer = WriterV1 "'w v1_writer" | WriterV2 "'pw v2_writer"

fun transport_reader_read ::
  "('net, 'st, 'r, 'w, 'pr, 'pw) runtime \<Rightarrow> ('r, 'pr) transport_reader
   \<Rightarrow> (transport_error, network_message) outcome \<times> ('r, 'pr) transport_reader" where
  "transport_reader_read E (ReaderV1 v1) = map_prod id ReaderV1 (v1_reader_read E v1)"
| "transport_reader_read E (ReaderV2 v2) = map_prod id ReaderV2 (v2_reader_read E v2)"

fun transport_writer_write ::
  "('net, 'st, 'r, 'w, 'pr, 'pw) runtime \<Rightarrow> ('w, 'pw) transport_writer \<Rightarrow> network_message
   \<Rightarrow> (transport_error, unit) outcome \<times> ('w, 'pw) transport_writer" where
  "transport_writer_write E (WriterV1 v1) message =
     map_prod (map_err transport_error.Io) WriterV1 (v1_writer_write E v1 message)"
| "transport_writer_write E (WriterV2 v2) message = map_prod id WriterV2 (v2_writer_write E v2 message)"

datatype ('r, 'w, 'pr, 'pw) transport =
    TransportV1 "('r, 'w) v1_transport"
  | TransportV2 "('pr, 'pw) v2_transport"

definition transport_v1 :: "magic \<Rightarrow> 'r \<Rightarrow> 'w \<Rightarrow> ('r, 'w, 'pr, 'pw) transport" where
  "transport_v1 m reader writer = TransportV1 (v1_transport_new m reader writer)"

definition transport_v2 :: "'pr \<times> 'pw \<Rightarrow> ('r, 'w, 'pr, 'pw) transport" where
  "transport_v2 protocol = TransportV2 (v2_transport_new protocol)"

fun transport_into_split ::
  "('r, 'w, 'pr, 'pw) transport \<Rightarrow> ('r, 'pr) transport_reader \<times> ('w, 'pw) transport_writer" where
  "transport_into_split (TransportV1 v1) =
     (let (receiver, sender) = v1_into_split v1 in (ReaderV1 receiver, WriterV1 sender))"
| "transport_into_split (TransportV2 v2) =
     (let (receiver, sender) = v2_into_split v2 in (ReaderV2 receiver, WriterV2 sender))"

fun transport_write ::
  "('net, 'st, 'r, 'w, 'pr, 'pw) runtime \<Rightarrow> ('r, 'w, 'pr, 'pw) transport \<Rightarrow> network_message
   \<Rightarrow> (transport_error, unit) outcome \<times> ('r, 'w, 'pr, 'pw) transport" where
  "transport_write E (TransportV1 v1) message = map_prod id TransportV1 (v1_transport_write E v1 message)"
| "transport_write E (TransportV2 v2) message = map_prod id TransportV2 (v2_transport_write E v2 message)"

fun transport_read ::
  "('net, 'st, 'r, 'w, 'pr, 'pw) runtime \<Rightarrow> ('r, 'w, 'pr, 'pw) transport
   \<Rightarrow> (transport_error, network_message) outcome \<times> ('r, 'w, 'pr, 'pw) transport" where
  "transport_read E (TransportV1 v1) = map_prod id TransportV1 (v1_transport_read E v1)"
| "transport_read E (TransportV2 v2) = map_prod id TransportV2 (v2_transport_read E v2)"

text \<open>The two protocols as a reader of the code's \<^verbatim>\<open>match\<close> sees them.\<close>

fun reader_is_v1 :: "('r, 'pr) transport_reader \<Rightarrow> bool" where
  "reader_is_v1 (ReaderV1 _) = True"
| "reader_is_v1 (ReaderV2 _) = False"

section \<open>Lemmas\<close>

lemma v2_reader_read_cases:
  "v2_reader_read E tr = (Err e, tr') \<Longrightarrow> e = Encryption"
  by (auto simp: v2_reader_read_def and_then_def map_err_Err_iff Let_def
      split: prod.splits outcome.splits sum.splits)

lemma v1_reader_read_errors: "v1_reader_read E tr = (Err e, tr') \<Longrightarrow> e \<noteq> Encryption"
  using v1_read_err [of E tr e tr'] v1_turn_err [of E _ e tr']
  by (fastforce split: sum.splits prod.splits)

section \<open>Properties\<close>

text \<open>
  Splitting a transport changes nothing: reading and writing through the two halves
  gives the results of reading and writing through the whole, and each operation touches
  its own half only.
\<close>

lemma split_transport_equivalent:
  "(let (rd, wr) = transport_into_split t; (res, rd') = transport_reader_read E rd
    in fst (transport_read E t) = res
       \<and> transport_into_split (snd (transport_read E t)) = (rd', wr))
   \<and> (let (rd, wr) = transport_into_split t; (res, wr') = transport_writer_write E wr m
      in fst (transport_write E t m) = res
         \<and> transport_into_split (snd (transport_write E t m)) = (rd, wr'))"
  by (cases t)
    (auto simp: v1_into_split_def v2_into_split_def v1_transport_read_def v1_transport_write_def
      v2_transport_read_def v2_transport_write_def split: prod.splits)

text \<open>
  The error tells the transport: the encrypted transport reports every failure of a
  read as an encryption error, the plaintext transport never does.
\<close>

lemma transport_read_error_kinds:
  assumes "transport_reader_read E rd = (Err e, rd')"
  shows "e = Encryption \<longleftrightarrow> \<not> reader_is_v1 rd"
  using assms
  by (cases rd) (auto simp: map_prod_id_eq dest: v2_reader_read_cases v1_reader_read_errors)

end
