(* ===== verification/Peer_Info.thy ===== *)
theory Peer_Info
  imports Foreign
begin

text \<open>Peers and their advertised capabilities: \<^verbatim>\<open>connection/src/peer.rs\<close>.\<close>

section \<open>Model\<close>

definition MIN_PROTOCOL_VERSION :: u32 where "MIN_PROTOCOL_VERSION = 70001"

definition ADDRV2_MIN_PROTOCOL_VERSION :: u32 where "ADDRV2_MIN_PROTOCOL_VERSION = 70016"

definition SENDHEADERS_MIN_PROTOCOL_VERSION :: u32 where
  "SENDHEADERS_MIN_PROTOCOL_VERSION = 70012"

definition WTXID_RELAY_MIN_PROTOCOL_VERSION :: u32 where
  "WTXID_RELAY_MIN_PROTOCOL_VERSION = 70016"

datatype peer_services = KnownServices service_flags | UnknownServices

datatype peer_protocol_version = KnownVersion u32 | UnknownVersion

fun unwrap_or :: "peer_protocol_version \<Rightarrow> u32 \<Rightarrow> u32" where
  "unwrap_or (KnownVersion v) d = v"
| "unwrap_or UnknownVersion d = d"

record peer =
  address :: addr_v2
  port :: u16
  services :: peer_services
  version :: peer_protocol_version

definition peer_new :: "addr_v2 \<Rightarrow> u16 \<Rightarrow> peer" where
  "peer_new a p = \<lparr>address = a, port = p, services = UnknownServices, version = UnknownVersion\<rparr>"

definition peer_with_services :: "addr_v2 \<Rightarrow> u16 \<Rightarrow> service_flags \<Rightarrow> peer" where
  "peer_with_services a p s =
     \<lparr>address = a, port = p, services = KnownServices s, version = UnknownVersion\<rparr>"

definition has_service :: "('a) bitcoin_api_scheme \<Rightarrow> peer \<Rightarrow> service_flags \<Rightarrow> bool" where
  "has_service B p s =
     (case services p of KnownServices flags \<Rightarrow> flags_has B flags s | UnknownServices \<Rightarrow> False)"

definition with_known_services :: "peer \<Rightarrow> service_flags \<Rightarrow> peer" where
  "with_known_services p s =
     \<lparr>address = address p, port = port p, services = KnownServices s, version = version p\<rparr>"

definition with_known_version :: "peer \<Rightarrow> u32 \<Rightarrow> peer" where
  "with_known_version p v =
     \<lparr>address = address p, port = port p, services = services p, version = KnownVersion v\<rparr>"

text \<open>The network endpoint of a peer.\<close>

definition endpoint :: "peer \<Rightarrow> addr_v2 \<times> u16" where
  "endpoint p = (address p, port p)"

section \<open>Lemmas\<close>

lemmas protocol_versions =
  MIN_PROTOCOL_VERSION_def ADDRV2_MIN_PROTOCOL_VERSION_def
  SENDHEADERS_MIN_PROTOCOL_VERSION_def WTXID_RELAY_MIN_PROTOCOL_VERSION_def

lemma peer_constructors_agree: "peer_with_services a p s = with_known_services (peer_new a p) s"
  by (simp add: peer_with_services_def with_known_services_def peer_new_def)

lemma endpoint_builders [simp]:
  "endpoint (peer_new a p) = (a, p)"
  "endpoint (peer_with_services a p s) = (a, p)"
  "endpoint (with_known_services q s) = endpoint q"
  "endpoint (with_known_version q v) = endpoint q"
  by (simp_all add: endpoint_def peer_new_def peer_with_services_def with_known_services_def
      with_known_version_def)

lemma endpoint_updates [simp]:
  "endpoint (q\<lparr>services := s\<rparr>) = endpoint q"
  "endpoint (q\<lparr>version := v\<rparr>) = endpoint q"
  by (simp_all add: endpoint_def)

end
