(* ===== verification/User_Agent.thy ===== *)
theory User_Agent
  imports Prelude
begin

text \<open>
  The validated user agent of \<^verbatim>\<open>connection/src/user_agent.rs\<close>. A Rust string is
  the list of its UTF-8 bytes; \<open>'/'\<close> and \<open>':'\<close> are ASCII, so searching and
  splitting by them is the same on bytes and on characters, and a slice that starts
  after a \<open>'/'\<close> and ends before one is on character boundaries. A slice that is out
  of range panics, which is \<open>None\<close> here.
\<close>

section \<open>Model\<close>

datatype user_agent_error = InvalidFormat | MissingName | MissingVersion

definition user_agent_error_display :: "user_agent_error \<Rightarrow> string" where
  "user_agent_error_display e =
     (case e of
        InvalidFormat \<Rightarrow> ''User agent must follow format '' @ [CHR 0x27] @ ''/name:version/'' @ [CHR 0x27]
      | MissingName \<Rightarrow> ''User agent name component cannot be empty''
      | MissingVersion \<Rightarrow> ''User agent version component cannot be empty'')"

datatype user_agent = UserAgent string

text \<open>\<^verbatim>\<open>str::split(':')\<close>: the pieces between the separators, one more than there are.\<close>

fun split_on :: "char \<Rightarrow> string \<Rightarrow> string list" where
  "split_on c [] = [[]]"
| "split_on c (x # xs) =
     (if x = c then [] # split_on c xs
      else (case split_on c xs of [] \<Rightarrow> [[x]] | p # ps \<Rightarrow> (x # p) # ps))"

text \<open>\<^verbatim>\<open>&s[i..j]\<close>: panics unless \<open>i \<le> j \<le> s.len()\<close>.\<close>

definition str_slice :: "string \<Rightarrow> nat \<Rightarrow> nat \<Rightarrow> string option" where
  "str_slice s i j = (if i \<le> j \<and> j \<le> length s then Some (take (j - i) (drop i s)) else None)"

definition validate_bitcoin_core_format :: "string \<Rightarrow> (user_agent_error + unit) option" where
  "validate_bitcoin_core_format s =
     (if \<not> (s \<noteq> [] \<and> hd s = CHR ''/'') \<or> \<not> (s \<noteq> [] \<and> last s = CHR ''/'')
      then Some (Inl InvalidFormat)
      else if CHR '':'' \<notin> set s then Some (Inl InvalidFormat)
      else case str_slice s 1 (length s - 1) of
        None \<Rightarrow> None
      | Some contents \<Rightarrow>
          (case split_on CHR '':'' contents of
             [name, version] \<Rightarrow>
               if name = [] then Some (Inl MissingName)
               else if version = [] then Some (Inl MissingVersion)
               else Some (Inr ())
           | _ \<Rightarrow> Some (Inl InvalidFormat)))"

definition bitcoin_core_format :: "string \<Rightarrow> string \<Rightarrow> string" where
  "bitcoin_core_format name version = ''/'' @ name @ '':'' @ version @ ''/''"

definition user_agent_new :: "string \<Rightarrow> (user_agent_error + user_agent) option" where
  "user_agent_new s =
     map_option (map_sum id (\<lambda>_. UserAgent s)) (validate_bitcoin_core_format s)"

definition user_agent_from_name_version :: "string \<Rightarrow> string \<Rightarrow> user_agent" where
  "user_agent_from_name_version name version = UserAgent (bitcoin_core_format name version)"

fun user_agent_as_str :: "user_agent \<Rightarrow> string" where
  "user_agent_as_str (UserAgent s) = s"

definition user_agent_from_str :: "string \<Rightarrow> (user_agent_error + user_agent) option" where
  "user_agent_from_str s = user_agent_new s"

definition user_agent_display :: "user_agent \<Rightarrow> string" where
  "user_agent_display ua = (case ua of UserAgent s \<Rightarrow> s)"

definition user_agent_as_ref :: "user_agent \<Rightarrow> string" where
  "user_agent_as_ref ua = (case ua of UserAgent s \<Rightarrow> s)"

text \<open>What the type promises: the string is accepted by the validator.\<close>

definition user_agent_valid :: "user_agent \<Rightarrow> bool" where
  "user_agent_valid ua \<longleftrightarrow>
     validate_bitcoin_core_format (user_agent_as_str ua) = Some (Inr ())"

section \<open>Splitting\<close>

lemma split_on_not_Nil [simp]: "split_on c s \<noteq> []"
  by (induction s) (auto split: list.splits)

lemma split_on_Cons_other [simp]:
  "x \<noteq> c \<Longrightarrow> split_on c (x # s) = (x # hd (split_on c s)) # tl (split_on c s)"
  by (cases "split_on c s") auto

lemma split_on_Cons_sep [simp]: "split_on c (c # s) = [] # split_on c s"
  by auto

declare split_on.simps(2) [simp del]

lemma split_on_no_sep: "c \<notin> set s \<Longrightarrow> split_on c s = [s]"
  by (induction s) auto

lemma split_on_append_sep: "c \<notin> set p \<Longrightarrow> split_on c (p @ c # s) = p # split_on c s"
  by (induction p) auto

lemma split_on_join: "split_on c s = p # ps \<Longrightarrow> s = p @ concat (map ((#) c) ps) \<and> c \<notin> set p"
proof (induction s arbitrary: p ps)
  case Nil
  then show ?case by simp
next
  case (Cons x s)
  obtain q qs where q: "split_on c s = q # qs"
    by (cases "split_on c s") auto
  with Cons.IH have "s = q @ concat (map ((#) c) qs) \<and> c \<notin> set q" by blast
  with Cons.prems q show ?case by (cases "x = c") auto
qed

lemma split_on_pieces: "p \<in> set (split_on c s) \<Longrightarrow> c \<notin> set p"
proof (induction s arbitrary: p)
  case Nil
  then show ?case by simp
next
  case (Cons x s)
  obtain q qs where q: "split_on c s = q # qs"
    by (cases "split_on c s") auto
  with Cons show ?case by (cases "x = c") auto
qed

lemma split_on_pair_iff:
  "split_on c s = [p, q] \<longleftrightarrow> s = p @ c # q \<and> c \<notin> set p \<and> c \<notin> set q"
proof
  assume *: "split_on c s = [p, q]"
  then have "s = p @ concat (map ((#) c) [q]) \<and> c \<notin> set p" by (rule split_on_join)
  moreover from * have "c \<notin> set q" using split_on_pieces [of q c s] by simp
  ultimately show "s = p @ c # q \<and> c \<notin> set p \<and> c \<notin> set q" by simp
next
  assume "s = p @ c # q \<and> c \<notin> set p \<and> c \<notin> set q"
  then show "split_on c s = [p, q]" by (simp add: split_on_append_sep split_on_no_sep)
qed

lemma length_split_on: "length (split_on c s) = Suc (count_list s c)"
proof (induction s)
  case Nil
  then show ?case by simp
next
  case (Cons x s)
  then show ?case by (cases "x = c") auto
qed

section \<open>Slicing between the slashes\<close>

lemma slashed_decompose:
  assumes "s \<noteq> []" "hd s = CHR ''/''" "last s = CHR ''/''" "CHR '':'' \<in> set s"
  obtains m where "s = CHR ''/'' # m @ [CHR ''/'']" "CHR '':'' \<in> set m"
proof -
  from assms(1,2) obtain t where s: "s = CHR ''/'' # t"
    by (cases s) auto
  with assms(4) have "CHR '':'' \<in> set t" by auto
  then obtain m x where t: "t = m @ [x]"
    by (cases t rule: rev_cases) auto
  with s assms(3) have "x = CHR ''/''" by simp
  with s t \<open>CHR '':'' \<in> set t\<close> have "CHR '':'' \<in> set m" by auto
  with s t \<open>x = CHR ''/''\<close> show thesis using that by simp
qed

lemma str_slice_between [simp]: "str_slice (a # m @ [b]) 1 (length (a # m @ [b]) - 1) = Some m"
  by (simp add: str_slice_def)

lemma validate_slashed:
  "validate_bitcoin_core_format (CHR ''/'' # m @ [CHR ''/'']) =
     Some (case split_on CHR '':'' m of
             [name, version] \<Rightarrow>
               if name = [] then Inl MissingName
               else if version = [] then Inl MissingVersion else Inr ()
           | _ \<Rightarrow> Inl InvalidFormat)"
proof (cases "CHR '':'' \<in> set m")
  case True
  then show ?thesis
    unfolding validate_bitcoin_core_format_def str_slice_between
    by (auto split: list.splits)
next
  case False
  then show ?thesis
    by (simp add: validate_bitcoin_core_format_def split_on_no_sep)
qed

lemma bitcoin_core_format_slashed:
  "bitcoin_core_format name version = CHR ''/'' # (name @ CHR '':'' # version) @ [CHR ''/'']"
  by (simp add: bitcoin_core_format_def)

lemma validate_bitcoin_core_format_Ok:
  assumes "name \<noteq> []" "version \<noteq> []" "CHR '':'' \<notin> set name" "CHR '':'' \<notin> set version"
  shows "validate_bitcoin_core_format (bitcoin_core_format name version) = Some (Inr ())"
proof -
  have "split_on CHR '':'' (name @ CHR '':'' # version) = [name, version]"
    using assms(3,4) by (simp add: split_on_pair_iff)
  then show ?thesis
    using assms(1,2) by (simp only: bitcoin_core_format_slashed validate_slashed) simp
qed

lemma validate_cases:
  "(\<exists>m. s = CHR ''/'' # m @ [CHR ''/''] \<and> CHR '':'' \<in> set m)
   \<or> validate_bitcoin_core_format s = Some (Inl InvalidFormat)"
proof (cases "s \<noteq> [] \<and> hd s = CHR ''/'' \<and> last s = CHR ''/'' \<and> CHR '':'' \<in> set s")
  case True
  then show ?thesis by (metis slashed_decompose)
next
  case False
  then show ?thesis by (auto simp: validate_bitcoin_core_format_def)
qed

lemma split_on_format:
  "split_on c (p @ c # q) = [a, b] \<longleftrightarrow> c \<notin> set p \<and> c \<notin> set q \<and> a = p \<and> b = q"
proof
  assume *: "split_on c (p @ c # q) = [a, b]"
  then have "Suc (count_list (p @ c # q) c) = 2"
    using length_split_on [of c "p @ c # q"] by simp
  then have "c \<notin> set p" "c \<notin> set q"
    by (simp_all add: count_list_0_iff)
  with * show "c \<notin> set p \<and> c \<notin> set q \<and> a = p \<and> b = q"
    by (simp add: split_on_append_sep split_on_no_sep)
qed (simp add: split_on_append_sep split_on_no_sep)

lemma validate_slashed_iff:
  "validate_bitcoin_core_format (CHR ''/'' # m @ [CHR ''/'']) = Some (Inr ()) \<longleftrightarrow>
     (\<exists>a b. split_on CHR '':'' m = [a, b] \<and> a \<noteq> [] \<and> b \<noteq> [])"
  "validate_bitcoin_core_format (CHR ''/'' # m @ [CHR ''/'']) = Some (Inl MissingName) \<longleftrightarrow>
     (\<exists>b. split_on CHR '':'' m = [[], b])"
  "validate_bitcoin_core_format (CHR ''/'' # m @ [CHR ''/'']) = Some (Inl MissingVersion) \<longleftrightarrow>
     (\<exists>a. split_on CHR '':'' m = [a, []] \<and> a \<noteq> [])"
  unfolding validate_slashed by (auto split: list.splits)

section \<open>Properties\<close>

text \<open>
  C31. The validator accepts exactly the strings \<open>/name:version/\<close> with a non-empty name and
  a non-empty version that contain no colon.
\<close>

theorem validate_accepts_iff:
  "validate_bitcoin_core_format s = Some (Inr ()) \<longleftrightarrow>
     (\<exists>name version. s = bitcoin_core_format name version \<and> name \<noteq> [] \<and> version \<noteq> []
        \<and> CHR '':'' \<notin> set name \<and> CHR '':'' \<notin> set version)"
proof
  assume ok: "validate_bitcoin_core_format s = Some (Inr ())"
  then obtain m where m: "s = CHR ''/'' # m @ [CHR ''/'']"
    using validate_cases [of s] by auto
  with ok obtain a b where "split_on CHR '':'' m = [a, b]" "a \<noteq> []" "b \<noteq> []"
    by (auto simp only: validate_slashed_iff)
  then show "\<exists>name version. s = bitcoin_core_format name version \<and> name \<noteq> [] \<and> version \<noteq> []
      \<and> CHR '':'' \<notin> set name \<and> CHR '':'' \<notin> set version"
    unfolding split_on_pair_iff bitcoin_core_format_slashed m by blast
next
  assume "\<exists>name version. s = bitcoin_core_format name version \<and> name \<noteq> [] \<and> version \<noteq> []
      \<and> CHR '':'' \<notin> set name \<and> CHR '':'' \<notin> set version"
  then show "validate_bitcoin_core_format s = Some (Inr ())"
    using validate_bitcoin_core_format_Ok by blast
qed

text \<open>
  The validator never panics on a slice out of range, and it reports a missing name
  for exactly the strings \<open>/:version/\<close>, a missing version for exactly the strings
  \<open>/name:/\<close> with a name; every other rejected string is an invalid format.
\<close>

lemma validate_error_cases:
  "validate_bitcoin_core_format s \<noteq> None
   \<and> (validate_bitcoin_core_format s = Some (Inl MissingName) \<longleftrightarrow>
        (\<exists>version. s = bitcoin_core_format [] version \<and> CHR '':'' \<notin> set version))
   \<and> (validate_bitcoin_core_format s = Some (Inl MissingVersion) \<longleftrightarrow>
        (\<exists>name. s = bitcoin_core_format name [] \<and> name \<noteq> [] \<and> CHR '':'' \<notin> set name))"
proof (cases "validate_bitcoin_core_format s = Some (Inl InvalidFormat)")
  case True
  have "validate_bitcoin_core_format (bitcoin_core_format [] v) = Some (Inl MissingName)"
    if "CHR '':'' \<notin> set v" for v
    unfolding bitcoin_core_format_slashed validate_slashed_iff split_on_format using that by simp
  moreover have "validate_bitcoin_core_format (bitcoin_core_format n []) = Some (Inl MissingVersion)"
    if "n \<noteq> []" "CHR '':'' \<notin> set n" for n
    unfolding bitcoin_core_format_slashed validate_slashed_iff split_on_format using that by simp
  ultimately show ?thesis using True by fastforce
next
  case False
  then obtain m where m: "s = CHR ''/'' # m @ [CHR ''/'']"
    using validate_cases [of s] by auto
  have "validate_bitcoin_core_format s \<noteq> None"
    unfolding m validate_slashed by simp
  then show ?thesis
    unfolding m validate_slashed_iff split_on_pair_iff bitcoin_core_format_slashed by auto
qed

text \<open>
  C32. Building a user agent from a name and a version gives a string that parses back to
  the same user agent exactly when both parts are non-empty and free of colons; in every
  other case the constructor builds a value that the validator rejects.
\<close>

theorem from_name_version_roundtrip:
  "user_agent_from_str (user_agent_as_str (user_agent_from_name_version name version))
     = Some (Inr (user_agent_from_name_version name version)) \<longleftrightarrow>
   name \<noteq> [] \<and> version \<noteq> [] \<and> CHR '':'' \<notin> set name \<and> CHR '':'' \<notin> set version"
proof -
  have "validate_bitcoin_core_format (bitcoin_core_format name version) = Some (Inr ()) \<longleftrightarrow>
      name \<noteq> [] \<and> version \<noteq> [] \<and> CHR '':'' \<notin> set name \<and> CHR '':'' \<notin> set version"
    unfolding bitcoin_core_format_slashed validate_slashed_iff split_on_format by auto
  moreover have "map_sum id f x = Inr u \<longleftrightarrow> (\<exists>y. x = Inr y \<and> u = f y)"
    for f :: "unit \<Rightarrow> user_agent" and x :: "user_agent_error + unit" and u
    by (cases x) auto
  ultimately show ?thesis
    by (auto simp: user_agent_from_str_def user_agent_new_def user_agent_from_name_version_def)
qed

end
