(* ===== verification/Configuration.thy ===== *)
theory Configuration
  imports Peer_Info User_Agent
begin

text \<open>
  Connection configuration, \<^verbatim>\<open>connection/src/connection/configuration.rs\<close>. The
  crate version that \<^verbatim>\<open>env!("CARGO_PKG_VERSION")\<close> puts into the default user
  agent is the one of \<^verbatim>\<open>connection/Cargo.toml\<close>.
\<close>

section \<open>Model\<close>

definition CARGO_PKG_VERSION :: string where
  "CARGO_PKG_VERSION = ''0.2.0''"

definition default_user_agent :: user_agent where
  "default_user_agent = user_agent_from_name_version ''bitcoin-peers'' CARGO_PKG_VERSION"

definition NON_LISTENING_ADDRESS :: addr_v2 where "NON_LISTENING_ADDRESS = Ipv4 0"

definition NON_LISTENING_PORT :: u16 where "NON_LISTENING_PORT = 0"

datatype transport_policy = V2Required | V2Preferred

fun transport_policy_display :: "transport_policy \<Rightarrow> string" where
  "transport_policy_display V2Required = ''V2Required''"
| "transport_policy_display V2Preferred = ''V2Preferred''"

record feature_preferences =
  enable_addrv2 :: bool
  enable_sendheaders :: bool
  enable_wtxidrelay :: bool

definition feature_preferences_default :: feature_preferences where
  "feature_preferences_default =
     \<lparr>enable_addrv2 = True, enable_sendheaders = True, enable_wtxidrelay = True\<rparr>"

text \<open>\<^verbatim>\<open>[&str]::join\<close>.\<close>

fun str_join :: "string \<Rightarrow> string list \<Rightarrow> string" where
  "str_join sep [] = []"
| "str_join sep [x] = x"
| "str_join sep (x # y # ys) = x @ sep @ str_join sep (y # ys)"

definition feature_preferences_display :: "feature_preferences \<Rightarrow> string" where
  "feature_preferences_display f =
     (let features = List.map_filter id
            [if enable_addrv2 f then Some ''AddrV2'' else None,
             if enable_sendheaders f then Some ''SendHeaders'' else None,
             if enable_wtxidrelay f then Some ''WtxidRelay'' else None]
      in if features = [] then ''none'' else str_join '', '' features)"

record connection_configuration =
  protocol_version :: peer_protocol_version
  user_agent :: "user_agent option"
  config_services :: service_flags
  sender_address :: addr_v2
  sender_port :: u16
  start_height :: i32
  relay :: bool
  transport_policy :: transport_policy
  feature_preferences :: feature_preferences

definition non_listening ::
  "('a) bitcoin_api_scheme \<Rightarrow> peer_protocol_version \<Rightarrow> transport_policy \<Rightarrow> feature_preferences
   \<Rightarrow> user_agent option \<Rightarrow> connection_configuration" where
  "non_listening B pv tp fp ua =
     \<lparr>protocol_version = pv, user_agent = ua, config_services = flag_NONE B,
      sender_address = NON_LISTENING_ADDRESS, sender_port = NON_LISTENING_PORT,
      start_height = 0, relay = False, transport_policy = tp, feature_preferences = fp\<rparr>"

section \<open>Lemmas\<close>

lemma default_user_agent_valid: "user_agent_valid default_user_agent"
  unfolding user_agent_valid_def default_user_agent_def user_agent_from_name_version_def
    user_agent_as_str.simps
  by (rule validate_bitcoin_core_format_Ok) (simp_all add: CARGO_PKG_VERSION_def)

end
