(* ===== verification/Tcp.thy ===== *)
theory Tcp
  imports Transport Configuration
begin

text \<open>
  Establishing a transport over TCP: \<^verbatim>\<open>connection/src/connection/tcp.rs\<close>, with
  the errors of \<^verbatim>\<open>connection/src/connection/error.rs\<close> and the address
  conversion of \<^verbatim>\<open>connection/src/connection/handshake.rs\<close>. The network is a
  state that connection attempts change.
\<close>

section \<open>Model\<close>

datatype connection_error =
    Io io_error
  | TransportFailed transport_error
  | ProtocolFailed
  | UnsupportedAddressType
  | ConnectionLoop
  | V2TransportRequired

text \<open>The conversion that \<^verbatim>\<open>?\<close> makes of an I/O error.\<close>

definition connection_error_from_io :: "io_error \<Rightarrow> connection_error" where
  [simp]: "connection_error_from_io = connection_error.Io"

definition peer_from_socket_addr :: "socket_addr \<Rightarrow> peer" where
  "peer_from_socket_addr s =
     (let a = (case sock_ip s of V4 ipv4 \<Rightarrow> Ipv4 ipv4 | V6 ipv6 \<Rightarrow> Ipv6 ipv6)
      in \<lparr>address = a, port = sock_port s, services = UnknownServices, version = UnknownVersion\<rparr>)"

definition address_to_socket :: "addr_v2 \<Rightarrow> u16 \<Rightarrow> socket_addr" where
  "address_to_socket a p =
     (case a of
        Ipv4 ipv4 \<Rightarrow> \<lparr>sock_ip = V4 ipv4, sock_port = p\<rparr>
      | Ipv6 ipv6 \<Rightarrow> \<lparr>sock_ip = V6 ipv6, sock_port = p\<rparr>
      | _ \<Rightarrow> \<lparr>sock_ip = V6 ipv6_UNSPECIFIED, sock_port = p\<rparr>)"

definition configure_tcp_stream ::
  "('net, 'st, 'r, 'w, 'pr, 'pw) runtime \<Rightarrow> 'st \<Rightarrow> connection_error + 'st" where
  "configure_tcp_stream E st = map_sum connection_error_from_io id (tcp_set_nodelay E st True)"

definition establish_tcp_connection ::
  "('net, 'st, 'r, 'w, 'pr, 'pw) runtime \<Rightarrow> 'net \<Rightarrow> socket_addr
   \<Rightarrow> (connection_error, 'st) outcome \<times> 'net" where
  "establish_tcp_connection E net sock =
     and_then (map_prod (map_err connection_error_from_io) id (tcp_connect E net sock))
       (\<lambda>st net'. (of_sum (configure_tcp_stream E st), net'))"

definition negotiate_outbound_transport ::
  "('net, 'st, 'r, 'w, 'pr, 'pw) runtime \<Rightarrow> 'net \<Rightarrow> socket_addr \<Rightarrow> network \<Rightarrow> peer \<Rightarrow> transport_policy
   \<Rightarrow> (connection_error, ('r, 'w, 'pr, 'pw) transport) outcome \<times> 'net" where
  "negotiate_outbound_transport E net sock network p policy =
     (let peer_supports_v2 =
            (case services p of
               UnknownServices \<Rightarrow> True
             | KnownServices flags \<Rightarrow> flags_has E flags (flag_P2P_V2 E))
      in if \<not> peer_supports_v2 \<and> policy = V2Preferred then
           and_then (establish_tcp_connection E net sock)
             (\<lambda>st net1. let (reader, writer) = tcp_into_split E st
                        in (Ok (transport_v1 (network_magic E network) reader writer), net1))
         else
           and_then (establish_tcp_connection E net sock)
             (\<lambda>st net1. let (reader, writer) = tcp_into_split E st
                in (case protocol_new E network Initiator reader writer of
                      Ok v2 \<Rightarrow> (Ok (transport_v2 v2), net1)
                    | Err _ \<Rightarrow>
                        (case policy of
                           V2Required \<Rightarrow> (Err V2TransportRequired, net1)
                         | V2Preferred \<Rightarrow>
                             and_then (establish_tcp_connection E net1 sock)
                               (\<lambda>st2 net2. let (reader2, writer2) = tcp_into_split E st2
                                  in (Ok (transport_v1 (network_magic E network) reader2 writer2), net2)))
                    | Pending \<Rightarrow> (Pending, net1))))"

definition negotiate_inbound_transport ::
  "('net, 'st, 'r, 'w, 'pr, 'pw) runtime \<Rightarrow> network \<Rightarrow> 'r \<Rightarrow> 'w \<Rightarrow> transport_policy
   \<Rightarrow> (connection_error, ('r, 'w, 'pr, 'pw) transport) outcome" where
  "negotiate_inbound_transport E network reader writer policy =
     (case fill_buf E reader of
        (Err e, _) \<Rightarrow> Err (connection_error_from_io e)
      | (Pending, _) \<Rightarrow> Pending
      | (Ok peeked, reader') \<Rightarrow>
          if 4 \<le> length peeked \<and> take 4 peeked = network_magic E network then
            (case policy of
               V2Required \<Rightarrow> Err V2TransportRequired
             | V2Preferred \<Rightarrow> Ok (transport_v1 (network_magic E network) reader' writer))
          else
            (case protocol_new E network Responder reader' writer of
               Ok v2 \<Rightarrow> Ok (transport_v2 v2)
             | Err _ \<Rightarrow> Err (TransportFailed Encryption)
             | Pending \<Rightarrow> Pending))"

definition tcp_transport_connect ::
  "('net, 'st, 'r, 'w, 'pr, 'pw) runtime \<Rightarrow> 'net \<Rightarrow> peer \<Rightarrow> network \<Rightarrow> transport_policy
   \<Rightarrow> (connection_error, ('r, 'w, 'pr, 'pw) transport) outcome \<times> 'net" where
  "tcp_transport_connect E net p network policy =
     (case address p of
        Ipv4 ipv4 \<Rightarrow>
          negotiate_outbound_transport E net \<lparr>sock_ip = V4 ipv4, sock_port = port p\<rparr> network p policy
      | Ipv6 ipv6 \<Rightarrow>
          negotiate_outbound_transport E net \<lparr>sock_ip = V6 ipv6, sock_port = port p\<rparr> network p policy
      | _ \<Rightarrow> (Err UnsupportedAddressType, net))"

definition tcp_transport_accept ::
  "('net, 'st, 'r, 'w, 'pr, 'pw) runtime \<Rightarrow> 'st \<Rightarrow> network \<Rightarrow> transport_policy
   \<Rightarrow> (connection_error, ('r, 'w, 'pr, 'pw) transport \<times> peer) outcome" where
  "tcp_transport_accept E st network policy =
     (case configure_tcp_stream E st of
        Inl e \<Rightarrow> Err e
      | Inr st' \<Rightarrow>
          (case tcp_peer_addr E st' of
             Inl e \<Rightarrow> Err (connection_error_from_io e)
           | Inr peer_addr \<Rightarrow>
               let p = peer_from_socket_addr peer_addr;
                   (reader, writer) = tcp_into_split E st'
               in (case negotiate_inbound_transport E network reader writer policy of
                     Ok t \<Rightarrow> Ok (t, p)
                   | Err e \<Rightarrow> Err e
                   | Pending \<Rightarrow> Pending)))"

text \<open>
  \<^verbatim>\<open>AsyncBufRead\<close>: filling the buffer shows the next bytes and takes none of them.
\<close>

definition peek_keeps :: "('r \<Rightarrow> (io_error, u8 list) outcome \<times> 'r) \<Rightarrow> ('r \<Rightarrow> u8 list) \<Rightarrow> bool" where
  "peek_keeps fb stream \<longleftrightarrow>
     (\<forall>r bs r'. fb r = (Ok bs, r') \<longrightarrow> stream r' = stream r \<and> bs = take (length bs) (stream r))"

section \<open>Lemmas\<close>

lemma transport_constructors_distinct [simp]:
  "transport_v1 m r w \<noteq> transport_v2 v2" "transport_v2 v2 \<noteq> transport_v1 m r w"
  by (simp_all add: transport_v1_def transport_v2_def)

lemma transport_v1_inject [simp]:
  "transport_v1 m r w = transport_v1 m' r' w' \<longleftrightarrow> m = m' \<and> r = r' \<and> w = w'"
  by (auto simp: transport_v1_def v1_transport_new_def v1_writer_new_def v1_reader_new_def)

text \<open>
  The ways to a plaintext transport. Outbound: to a peer that is known not to support
  encryption at once, to any other peer only after an encrypted handshake was tried and has
  failed, and then on a second TCP connection. Inbound: when the first fill of the buffer
  starts with the network magic.
\<close>

definition socket_of :: "peer \<Rightarrow> socket_addr option" where
  "socket_of p =
     (case address p of
        Ipv4 ip \<Rightarrow> Some \<lparr>sock_ip = V4 ip, sock_port = port p\<rparr>
      | Ipv6 ip \<Rightarrow> Some \<lparr>sock_ip = V6 ip, sock_port = port p\<rparr>
      | AddrOther _ _ \<Rightarrow> None)"

definition may_support_v2 :: "('net, 'st, 'r, 'w, 'pr, 'pw) runtime \<Rightarrow> peer \<Rightarrow> bool" where
  "may_support_v2 E p =
     (case services p of UnknownServices \<Rightarrow> True | KnownServices flags \<Rightarrow> flags_has E flags (flag_P2P_V2 E))"

definition plaintext_route ::
  "('net, 'st, 'r, 'w, 'pr, 'pw) runtime \<Rightarrow> 'net \<Rightarrow> network \<Rightarrow> peer \<Rightarrow> 'r \<Rightarrow> 'w \<Rightarrow> 'net \<Rightarrow> bool" where
  "plaintext_route E net network p r w net' \<longleftrightarrow>
     (\<exists>sock st. socket_of p = Some sock \<and> tcp_into_split E st = (r, w)
        \<and> (if may_support_v2 E p then
             \<exists>st1 net1 r1 w1 e. establish_tcp_connection E net sock = (Ok st1, net1)
               \<and> tcp_into_split E st1 = (r1, w1) \<and> protocol_new E network Initiator r1 w1 = Err e
               \<and> establish_tcp_connection E net1 sock = (Ok st, net')
           else establish_tcp_connection E net sock = (Ok st, net')))"

definition plaintext_hello ::
  "('net, 'st, 'r, 'w, 'pr, 'pw) runtime \<Rightarrow> 'st \<Rightarrow> network \<Rightarrow> 'r \<Rightarrow> 'w \<Rightarrow> bool" where
  "plaintext_hello E st network r' w \<longleftrightarrow>
     (\<exists>st1 r peeked. configure_tcp_stream E st = Inr st1 \<and> tcp_into_split E st1 = (r, w)
        \<and> fill_buf E r = (Ok peeked, r') \<and> 4 \<le> length peeked \<and> take 4 peeked = network_magic E network)"

lemma tcp_connect_socket:
  "tcp_transport_connect E net p network policy =
     (case socket_of p of
        Some sock \<Rightarrow> negotiate_outbound_transport E net sock network p policy
      | None \<Rightarrow> (Err UnsupportedAddressType, net))"
  by (simp add: tcp_transport_connect_def socket_of_def split: addr_v2.splits)

lemma negotiate_outbound_unsupported:
  assumes "\<not> may_support_v2 E p"
  shows "negotiate_outbound_transport E net sock network p V2Preferred =
     and_then (establish_tcp_connection E net sock)
       (\<lambda>st net1. (Ok (transport_v1 (network_magic E network) (fst (tcp_into_split E st))
                          (snd (tcp_into_split E st))), net1))"
  using assms by (simp add: negotiate_outbound_transport_def may_support_v2_def case_prod_unfold Let_def)

lemma negotiate_outbound_encrypted:
  assumes "may_support_v2 E p \<or> policy = V2Required"
  shows "negotiate_outbound_transport E net sock network p policy =
     and_then (establish_tcp_connection E net sock)
       (\<lambda>st net1. case protocol_new E network Initiator (fst (tcp_into_split E st)) (snd (tcp_into_split E st)) of
           Ok v2 \<Rightarrow> (Ok (transport_v2 v2), net1)
         | Err _ \<Rightarrow>
             if policy = V2Required then (Err V2TransportRequired, net1)
             else and_then (establish_tcp_connection E net1 sock)
               (\<lambda>st2 net2. (Ok (transport_v1 (network_magic E network) (fst (tcp_into_split E st2))
                                  (snd (tcp_into_split E st2))), net2))
         | Pending \<Rightarrow> (Pending, net1))"
  using assms
  by (cases policy)
    (auto simp: negotiate_outbound_transport_def may_support_v2_def case_prod_unfold Let_def cong: outcome.case_cong)

lemma negotiate_outbound_Ok:
  assumes "may_support_v2 E p \<or> policy = V2Required"
  shows "negotiate_outbound_transport E net sock network p policy = (Ok t, net') \<longleftrightarrow>
    (\<exists>st1 net1 r1 w1. establish_tcp_connection E net sock = (Ok st1, net1) \<and> tcp_into_split E st1 = (r1, w1)
       \<and> ((\<exists>v2. protocol_new E network Initiator r1 w1 = Ok v2 \<and> t = transport_v2 v2 \<and> net' = net1)
          \<or> (\<exists>e st. protocol_new E network Initiator r1 w1 = Err e \<and> policy \<noteq> V2Required
               \<and> establish_tcp_connection E net1 sock = (Ok st, net')
               \<and> t = transport_v1 (network_magic E network) (fst (tcp_into_split E st)) (snd (tcp_into_split E st)))))"
proof (cases "\<exists>st1 net1. establish_tcp_connection E net sock = (Ok st1, net1)")
  case False
  then show ?thesis using negotiate_outbound_encrypted [OF assms, of net sock network] by (auto simp: and_then_Ok_iff)
next
  case True
  then obtain st1 net1 where est: "establish_tcp_connection E net sock = (Ok st1, net1)" by blast
  obtain r1 w1 where "tcp_into_split E st1 = (r1, w1)" by fastforce
  with est show ?thesis
    using negotiate_outbound_encrypted [OF assms, of net sock network]
    by (cases "protocol_new E network Initiator r1 w1") (auto simp: and_then_Ok_iff split: if_splits)
qed

text \<open>
  Under \<open>V2Preferred\<close> exactly these routes end in a plaintext transport, and it uses the
  stream of the last TCP connection from its beginning.
\<close>

lemma connect_plaintext_iff:
  "tcp_transport_connect E net p network V2Preferred = (Ok (transport_v1 mg r w), net')
   \<longleftrightarrow> mg = network_magic E network \<and> plaintext_route E net network p r w net'"
proof (cases "socket_of p")
  case None
  then show ?thesis by (simp add: tcp_connect_socket plaintext_route_def)
next
  case (Some sock)
  show ?thesis
  proof (cases "may_support_v2 E p")
    case False
    with Some show ?thesis
      by (auto simp: tcp_connect_socket plaintext_route_def negotiate_outbound_unsupported and_then_Ok_iff)
  next
    case True
    with Some show ?thesis
      by (simp add: tcp_connect_socket plaintext_route_def negotiate_outbound_Ok)
        (metis fst_conv prod.collapse snd_conv)
  qed
qed

lemma connect_transport_cases:
  assumes "tcp_transport_connect E net p network policy = (Ok t, net')"
  obtains (encrypted) v2 where "t = transport_v2 v2"
  | (plaintext) r w where "policy = V2Preferred" "t = transport_v1 (network_magic E network) r w"
      "plaintext_route E net network p r w net'"
proof -
  obtain sock where neg: "negotiate_outbound_transport E net sock network p policy = (Ok t, net')"
    using assms by (auto simp: tcp_connect_socket split: option.splits)
  have "(\<exists>v2. t = transport_v2 v2) \<or> policy = V2Preferred \<and> (\<exists>r w. t = transport_v1 (network_magic E network) r w)"
  proof (cases "may_support_v2 E p \<or> policy = V2Required")
    case True
    then show ?thesis using neg by (cases policy) (auto simp: negotiate_outbound_Ok)
  next
    case False
    then show ?thesis using neg by (cases policy) (auto simp: negotiate_outbound_unsupported and_then_Ok_iff)
  qed
  with that assms show ?thesis by (auto simp: connect_plaintext_iff)
qed

lemma accept_plaintext_iff:
  "tcp_transport_accept E st network policy = Ok (transport_v1 mg r w, q)
   \<longleftrightarrow> policy = V2Preferred \<and> mg = network_magic E network \<and> plaintext_hello E st network r w
     \<and> (\<exists>st1 remote. configure_tcp_stream E st = Inr st1 \<and> tcp_peer_addr E st1 = Inr remote
          \<and> q = peer_from_socket_addr remote)"
  by (cases policy)
    (auto simp: tcp_transport_accept_def negotiate_inbound_transport_def plaintext_hello_def Let_def
      split: sum.splits prod.splits outcome.splits if_splits)

lemma accept_transport_cases:
  assumes "tcp_transport_accept E st network policy = Ok (t, q)"
  obtains (encrypted) v2 where "t = transport_v2 v2"
  | (plaintext) r w where "policy = V2Preferred" "t = transport_v1 (network_magic E network) r w"
      "plaintext_hello E st network r w"
proof -
  have "(\<exists>v2. t = transport_v2 v2) \<or> (\<exists>r w. t = transport_v1 (network_magic E network) r w)"
    using assms
    by (auto simp: tcp_transport_accept_def negotiate_inbound_transport_def Let_def
        split: sum.splits prod.splits outcome.splits if_splits transport_policy.splits)
  with that assms show ?thesis by (auto simp: accept_plaintext_iff)
qed

section \<open>Properties\<close>

text \<open>
  The fallback of \<open>V2Preferred\<close>. When the peer may support the encrypted transport
  and the encrypted handshake fails, the plaintext transport is set up on a second, fresh
  TCP connection; the stream on which the handshake failed is not used again.
\<close>

lemma v2_preferred_falls_back_on_fresh_stream:
  assumes "may_support_v2 E p" and "establish_tcp_connection E net sock = (Ok st1, net1)"
    and "protocol_new E network Initiator (fst (tcp_into_split E st1)) (snd (tcp_into_split E st1)) = Err e"
  shows "negotiate_outbound_transport E net sock network p V2Preferred =
     and_then (establish_tcp_connection E net1 sock)
       (\<lambda>st2 net2. (Ok (transport_v1 (network_magic E network) (fst (tcp_into_split E st2))
                          (snd (tcp_into_split E st2))), net2))"
  using assms by (simp add: negotiate_outbound_encrypted)

text \<open>
  Under \<open>V2Preferred\<close> a peer whose known services lack the encrypted transport is
  connected in plaintext over one TCP connection, and the encrypted handshake is not tried:
  the result does not depend on it.
\<close>

lemma v2_preferred_skips_unsupported:
  assumes "\<not> may_support_v2 E p"
  shows "negotiate_outbound_transport (E\<lparr>protocol_new := f\<rparr>) net sock network p V2Preferred =
     negotiate_outbound_transport E net sock network p V2Preferred"
proof -
  have "\<not> may_support_v2 (E\<lparr>protocol_new := f\<rparr>) p"
    using assms by (simp add: may_support_v2_def split: peer_services.splits)
  then show ?thesis
    using assms by (simp add: negotiate_outbound_unsupported establish_tcp_connection_def configure_tcp_stream_def)
qed

text \<open>
  An address that is neither IPv4 nor IPv6 is refused before the network is touched.
\<close>

lemma connect_unsupported_address:
  "address p = AddrOther i bs \<Longrightarrow>
   tcp_transport_connect E net p network policy = (Err UnsupportedAddressType, net)"
  by (simp add: tcp_transport_connect_def)

text \<open>
  Detection of inbound plaintext connections. When the first bytes that arrive start
  with the network magic, the policy decides: an error under \<open>V2Required\<close>, a plaintext
  transport under \<open>V2Preferred\<close>, and that transport reads the stream from its beginning:
  the bytes that were peeked at are not lost.
\<close>

lemma inbound_plaintext_detected:
  assumes "peek_keeps (fill_buf E) stream"
    and "fill_buf E r = (Ok peeked, r')" and "4 \<le> length peeked"
    and "take 4 (stream r) = network_magic E network"
  shows "negotiate_inbound_transport E network r w V2Required = Err V2TransportRequired
    \<and> negotiate_inbound_transport E network r w V2Preferred
        = Ok (transport_v1 (network_magic E network) r' w)
    \<and> v1_input stream (v1t_reader (v1_transport_new (network_magic E network) r' w)) = stream r"
proof -
  from assms(1,2) have "stream r' = stream r" "peeked = take (length peeked) (stream r)"
    unfolding peek_keeps_def by blast+
  then have "take 4 peeked = take 4 (stream r)"
    using assms(3) by (metis min.absorb1 take_take)
  with assms \<open>stream r' = stream r\<close> show ?thesis
    by (simp add: negotiate_inbound_transport_def v1_transport_new_def)
qed

text \<open>
  The detection looks at a single fill of the buffer: when that fill brings fewer than
  four bytes, the connection is never treated as plaintext, even if the stream does start
  with the network magic, and it can only end in an encrypted transport or an error.
\<close>

lemma inbound_short_first_segment:
  assumes "fill_buf E r = (Ok peeked, r')" and "length peeked < 4"
  shows "negotiate_inbound_transport E network r w policy =
     (case protocol_new E network Responder r' w of
        Ok v2 \<Rightarrow> Ok (transport_v2 v2)
      | Err _ \<Rightarrow> Err (TransportFailed Encryption)
      | Pending \<Rightarrow> Pending)"
  using assms by (simp add: negotiate_inbound_transport_def)

text \<open>
  A peer built from a socket address converts back to that socket address, and a peer
  of any other kind of address converts to the unspecified address with its port.
\<close>

lemma socket_address_roundtrip:
  "address_to_socket (address (peer_from_socket_addr s)) (port (peer_from_socket_addr s)) = s
   \<and> address_to_socket (AddrOther i bs) p = \<lparr>sock_ip = V6 0, sock_port = p\<rparr>"
  by (cases s) (auto simp: address_to_socket_def peer_from_socket_addr_def ipv6_UNSPECIFIED_def
      split: ip_addr.splits)

end
