(* ===== verification/Negotiation.thy ===== *)
theory Negotiation
  imports Peer_Info
begin

text \<open>
  Feature negotiation, \<^verbatim>\<open>connection/src/connection/state.rs\<close>. The three features
  have an enum each with the same two transitions; what they promise is stated once, as
  the contract \<open>symmetric_negotiation\<close>, and proved of each.
\<close>

section \<open>Model\<close>

datatype addr_v2_state = NotNegotiated | SentOnly | ReceivedOnly | Enabled

definition addr_v2_on_send :: "addr_v2_state \<Rightarrow> addr_v2_state" where
  "addr_v2_on_send s =
     (case s of
        addr_v2_state.NotNegotiated \<Rightarrow> addr_v2_state.SentOnly
      | addr_v2_state.ReceivedOnly \<Rightarrow> addr_v2_state.Enabled
      | _ \<Rightarrow> s)"

definition addr_v2_on_receive :: "addr_v2_state \<Rightarrow> addr_v2_state" where
  "addr_v2_on_receive s =
     (case s of
        addr_v2_state.NotNegotiated \<Rightarrow> addr_v2_state.ReceivedOnly
      | addr_v2_state.SentOnly \<Rightarrow> addr_v2_state.Enabled
      | _ \<Rightarrow> s)"

datatype send_headers_state = NotNegotiated | SentOnly | ReceivedOnly | Enabled

definition send_headers_on_send :: "send_headers_state \<Rightarrow> send_headers_state" where
  "send_headers_on_send s =
     (case s of
        send_headers_state.NotNegotiated \<Rightarrow> send_headers_state.SentOnly
      | send_headers_state.ReceivedOnly \<Rightarrow> send_headers_state.Enabled
      | _ \<Rightarrow> s)"

definition send_headers_on_receive :: "send_headers_state \<Rightarrow> send_headers_state" where
  "send_headers_on_receive s =
     (case s of
        send_headers_state.NotNegotiated \<Rightarrow> send_headers_state.ReceivedOnly
      | send_headers_state.SentOnly \<Rightarrow> send_headers_state.Enabled
      | _ \<Rightarrow> s)"

datatype wtxid_relay_state = NotNegotiated | SentOnly | ReceivedOnly | Enabled

definition wtxid_relay_on_send :: "wtxid_relay_state \<Rightarrow> wtxid_relay_state" where
  "wtxid_relay_on_send s =
     (case s of
        wtxid_relay_state.NotNegotiated \<Rightarrow> wtxid_relay_state.SentOnly
      | wtxid_relay_state.ReceivedOnly \<Rightarrow> wtxid_relay_state.Enabled
      | _ \<Rightarrow> s)"

definition wtxid_relay_on_receive :: "wtxid_relay_state \<Rightarrow> wtxid_relay_state" where
  "wtxid_relay_on_receive s =
     (case s of
        wtxid_relay_state.NotNegotiated \<Rightarrow> wtxid_relay_state.ReceivedOnly
      | wtxid_relay_state.SentOnly \<Rightarrow> wtxid_relay_state.Enabled
      | _ \<Rightarrow> s)"

record connection_state =
  effective_protocol_version :: peer_protocol_version
  addr_v2 :: addr_v2_state
  send_headers :: send_headers_state
  wtxid_relay :: wtxid_relay_state

definition connection_state_new :: connection_state where
  "connection_state_new =
     \<lparr>effective_protocol_version = UnknownVersion,
      addr_v2 = addr_v2_state.NotNegotiated,
      send_headers = send_headers_state.NotNegotiated,
      wtxid_relay = wtxid_relay_state.NotNegotiated\<rparr>"

text \<open>A history of one feature's messages: \<open>True\<close> sent, \<open>False\<close> received.\<close>

primrec negotiate :: "('s \<Rightarrow> 's) \<Rightarrow> ('s \<Rightarrow> 's) \<Rightarrow> 's \<Rightarrow> bool list \<Rightarrow> 's" where
  "negotiate tx rx s [] = s"
| "negotiate tx rx s (e # es) = negotiate tx rx ((if e then tx else rx) s) es"

section \<open>The contract\<close>

text \<open>
  What a two-sided negotiation promises: its state says exactly whether the local side has
  sent and whether the remote side has sent, whatever the order and the repetitions.
\<close>

locale symmetric_negotiation =
  fixes idle sent_only received_only enabled :: 's
    and on_send on_receive :: "'s \<Rightarrow> 's"
    and sent received :: "'s \<Rightarrow> bool"
  assumes states: "s = idle \<or> s = sent_only \<or> s = received_only \<or> s = enabled"
    and sent_iff: "sent s \<longleftrightarrow> s = sent_only \<or> s = enabled"
    and received_iff: "received s \<longleftrightarrow> s = received_only \<or> s = enabled"
    and distinct_states: "distinct [idle, sent_only, received_only, enabled]"
    and send_law: "sent (on_send s)" "received (on_send s) = received s"
    and receive_law: "received (on_receive s)" "sent (on_receive s) = sent s"
begin

lemma state_eqI: "sent s = sent t \<Longrightarrow> received s = received t \<Longrightarrow> s = t"
  using states [of s] states [of t] distinct_states by (auto simp: sent_iff received_iff)

lemma send_receive_commute: "on_send (on_receive s) = on_receive (on_send s)"
  by (rule state_eqI) (simp_all add: send_law receive_law)

lemma send_idem: "on_send (on_send s) = on_send s"
  by (rule state_eqI) (simp_all add: send_law)

lemma receive_idem: "on_receive (on_receive s) = on_receive s"
  by (rule state_eqI) (simp_all add: receive_law)

lemma sent_negotiate: "sent (negotiate on_send on_receive s es) \<longleftrightarrow> sent s \<or> True \<in> set es"
  by (induction es arbitrary: s) (auto simp: send_law receive_law)

lemma received_negotiate:
  "received (negotiate on_send on_receive s es) \<longleftrightarrow> received s \<or> False \<in> set es"
  by (induction es arbitrary: s) (auto simp: send_law receive_law)

lemma enabled_iff: "s = enabled \<longleftrightarrow> sent s \<and> received s"
  using states [of s] distinct_states by (auto simp: sent_iff received_iff)

lemma idle_flags: "\<not> sent idle" "\<not> received idle"
  using distinct_states by (auto simp: sent_iff received_iff)

lemma negotiate_enabled_iff:
  "negotiate on_send on_receive idle es = enabled \<longleftrightarrow> True \<in> set es \<and> False \<in> set es"
  by (auto simp: enabled_iff sent_negotiate received_negotiate idle_flags)

end

section \<open>The three features implement it\<close>

interpretation addr_v2_neg: symmetric_negotiation
  addr_v2_state.NotNegotiated addr_v2_state.SentOnly addr_v2_state.ReceivedOnly
  addr_v2_state.Enabled addr_v2_on_send addr_v2_on_receive
  "\<lambda>s. s = addr_v2_state.SentOnly \<or> s = addr_v2_state.Enabled"
  "\<lambda>s. s = addr_v2_state.ReceivedOnly \<or> s = addr_v2_state.Enabled"
  by unfold_locales
    (auto simp: addr_v2_on_send_def addr_v2_on_receive_def addr_v2_state.nchotomy split: addr_v2_state.splits)

interpretation send_headers_neg: symmetric_negotiation
  send_headers_state.NotNegotiated send_headers_state.SentOnly send_headers_state.ReceivedOnly
  send_headers_state.Enabled send_headers_on_send send_headers_on_receive
  "\<lambda>s. s = send_headers_state.SentOnly \<or> s = send_headers_state.Enabled"
  "\<lambda>s. s = send_headers_state.ReceivedOnly \<or> s = send_headers_state.Enabled"
  by unfold_locales
    (auto simp: send_headers_on_send_def send_headers_on_receive_def send_headers_state.nchotomy split: send_headers_state.splits)

interpretation wtxid_relay_neg: symmetric_negotiation
  wtxid_relay_state.NotNegotiated wtxid_relay_state.SentOnly wtxid_relay_state.ReceivedOnly
  wtxid_relay_state.Enabled wtxid_relay_on_send wtxid_relay_on_receive
  "\<lambda>s. s = wtxid_relay_state.SentOnly \<or> s = wtxid_relay_state.Enabled"
  "\<lambda>s. s = wtxid_relay_state.ReceivedOnly \<or> s = wtxid_relay_state.Enabled"
  by unfold_locales
    (auto simp: wtxid_relay_on_send_def wtxid_relay_on_receive_def wtxid_relay_state.nchotomy split: wtxid_relay_state.splits)

section \<open>Properties\<close>

text \<open>
  Each of the three features is enabled exactly when it was announced by both sides,
  whatever the order of the announcements and however often they are repeated.
\<close>

lemma features_enabled_iff_both_announce:
  "(negotiate addr_v2_on_send addr_v2_on_receive (addr_v2 connection_state_new) es = addr_v2_state.Enabled
      \<longleftrightarrow> True \<in> set es \<and> False \<in> set es)
   \<and> (negotiate send_headers_on_send send_headers_on_receive (send_headers connection_state_new) es
        = send_headers_state.Enabled \<longleftrightarrow> True \<in> set es \<and> False \<in> set es)
   \<and> (negotiate wtxid_relay_on_send wtxid_relay_on_receive (wtxid_relay connection_state_new) es
        = wtxid_relay_state.Enabled \<longleftrightarrow> True \<in> set es \<and> False \<in> set es)"
  by (simp add: connection_state_new_def addr_v2_neg.negotiate_enabled_iff
      send_headers_neg.negotiate_enabled_iff wtxid_relay_neg.negotiate_enabled_iff)

end
