(* ===== verification/Connection.thy ===== *)
theory Connection
  imports Tcp Negotiation
begin

text \<open>
  Connections: \<^verbatim>\<open>connection/src/connection/futures.rs\<close> and
  \<^verbatim>\<open>connection/src/connection/handshake.rs\<close>. The cells that a connection and its
  two halves share behind \<^verbatim>\<open>Arc<Mutex<_>>\<close>, the peer and the connection state, are
  stored once, in the connection; the halves take them along when it is split. The theory
  \<^verbatim>\<open>Shared_Cells\<close> has the cells themselves and shows that this is what they look like.
\<close>

section \<open>Handshake helpers\<close>

text \<open>What the code asks the operating system: the time since the epoch and the process id.\<close>

record clock =
  unix_secs :: nat
  unix_nanos :: nat
  process_id :: u32

definition unix_timestamp :: "clock \<Rightarrow> i64" where
  "unix_timestamp K = word_of_nat (unix_secs K)"

definition generate_nonce :: "clock \<Rightarrow> u64" where
  "generate_nonce K =
     (let now = word_of_nat (unix_nanos K); pid = ucast (process_id K)
      in xor now (word_rotl 32 pid))"

datatype handshake_state = VersionSent | VersionReceived | VerackReceived | Complete

definition handle_verack_message :: "handshake_state \<Rightarrow> handshake_state" where
  "handle_verack_message state =
     (if state = VersionSent \<or> state = VersionReceived
      then (if state = VersionReceived then Complete else VerackReceived)
      else state)"

section \<open>The two halves\<close>

record ('w, 'pw) connection_writer =
  cw_peer :: peer
  cw_writer :: "('w, 'pw) transport_writer"

definition connection_writer_write ::
  "('net, 'st, 'r, 'w, 'pr, 'pw) runtime \<Rightarrow> ('w, 'pw) connection_writer \<Rightarrow> network_message
   \<Rightarrow> (connection_error, unit) outcome \<times> ('w, 'pw) connection_writer" where
  "connection_writer_write E cw message =
     (let (res, w) = transport_writer_write E (cw_writer cw) message
      in (map_err TransportFailed res, cw\<lparr>cw_writer := w\<rparr>))"

record ('r, 'pr) connection_reader =
  cr_peer :: peer
  cr_reader :: "('r, 'pr) transport_reader"
  cr_state :: connection_state

text \<open>The messages that change the negotiation state when they arrive.\<close>

definition note_received :: "connection_state \<Rightarrow> network_message \<Rightarrow> connection_state" where
  "note_received st message =
     (case message of
        SendAddrV2 \<Rightarrow> st\<lparr>addr_v2 := addr_v2_on_receive (addr_v2 st)\<rparr>
      | SendHeaders \<Rightarrow> st\<lparr>send_headers := send_headers_on_receive (send_headers st)\<rparr>
      | WtxidRelay \<Rightarrow> st\<lparr>wtxid_relay := wtxid_relay_on_receive (wtxid_relay st)\<rparr>
      | _ \<Rightarrow> st)"

definition connection_reader_read ::
  "('net, 'st, 'r, 'w, 'pr, 'pw) runtime \<Rightarrow> ('r, 'pr) connection_reader
   \<Rightarrow> (connection_error, network_message) outcome \<times> ('r, 'pr) connection_reader" where
  "connection_reader_read E cr =
     (let (res, r) = transport_reader_read E (cr_reader cr)
      in and_then (map_err TransportFailed res, cr\<lparr>cr_reader := r\<rparr>)
           (\<lambda>message cr'. (Ok message, cr'\<lparr>cr_state := note_received (cr_state cr') message\<rparr>)))"

section \<open>Connections\<close>

record ('r, 'w, 'pr, 'pw) connection =
  configuration :: connection_configuration
  conn_peer :: peer
  conn_state :: connection_state
  conn_reader :: "('r, 'pr) transport_reader"
  conn_writer :: "('w, 'pw) transport_writer"

definition connection_new ::
  "peer \<Rightarrow> connection_configuration \<Rightarrow> ('r, 'w, 'pr, 'pw) transport \<Rightarrow> ('r, 'w, 'pr, 'pw) connection" where
  "connection_new p cfg t =
     (let (receiver, sender) = transport_into_split t
      in \<lparr>configuration = cfg, conn_peer = p, conn_state = connection_state_new,
          conn_reader = receiver, conn_writer = sender\<rparr>)"

definition connection_into_split ::
  "('r, 'w, 'pr, 'pw) connection \<Rightarrow> ('r, 'pr) connection_reader \<times> ('w, 'pw) connection_writer" where
  "connection_into_split c =
     (\<lparr>cr_peer = conn_peer c, cr_reader = conn_reader c, cr_state = conn_state c\<rparr>,
      \<lparr>cw_peer = conn_peer c, cw_writer = conn_writer c\<rparr>)"

definition connection_write ::
  "('net, 'st, 'r, 'w, 'pr, 'pw) runtime \<Rightarrow> ('r, 'w, 'pr, 'pw) connection \<Rightarrow> network_message
   \<Rightarrow> (connection_error, unit) outcome \<times> ('r, 'w, 'pr, 'pw) connection" where
  "connection_write E c message =
     (let (res, cw) = connection_writer_write E (snd (connection_into_split c)) message
      in (res, c\<lparr>conn_writer := cw_writer cw\<rparr>))"

definition connection_read ::
  "('net, 'st, 'r, 'w, 'pr, 'pw) runtime \<Rightarrow> ('r, 'w, 'pr, 'pw) connection
   \<Rightarrow> (connection_error, network_message) outcome \<times> ('r, 'w, 'pr, 'pw) connection" where
  "connection_read E c =
     (let (res, cr) = connection_reader_read E (fst (connection_into_split c))
      in (res, c\<lparr>conn_reader := cr_reader cr, conn_state := cr_state cr\<rparr>))"

definition create_version_message ::
  "('net, 'st, 'r, 'w, 'pr, 'pw) runtime \<Rightarrow> clock \<Rightarrow> ('r, 'w, 'pr, 'pw) connection \<Rightarrow> u64 \<Rightarrow> network_message" where
  "create_version_message E K c nonce =
     (let cfg = configuration c;
          receiver_services =
            (case services (conn_peer c) of KnownServices flags \<Rightarrow> flags | UnknownServices \<Rightarrow> flag_NONE E);
          receiver_socket_addr = address_to_socket (address (conn_peer c)) (port (conn_peer c));
          sender_socket_addr = address_to_socket (sender_address cfg) (sender_port cfg);
          user_agent_string =
            (case user_agent cfg of
               Some ua \<Rightarrow> user_agent_as_str ua
             | None \<Rightarrow> user_agent_as_str default_user_agent)
      in Version
           \<lparr>vm_version = unwrap_or (protocol_version cfg) MIN_PROTOCOL_VERSION,
            vm_services = config_services cfg,
            vm_timestamp = unix_timestamp K,
            vm_receiver = address_new E receiver_socket_addr receiver_services,
            vm_sender = address_new E sender_socket_addr (config_services cfg),
            vm_nonce = nonce,
            vm_user_agent = user_agent_string,
            vm_start_height = start_height cfg,
            vm_relay = relay cfg\<rparr>)"

definition send_negotiation_messages ::
  "('net, 'st, 'r, 'w, 'pr, 'pw) runtime \<Rightarrow> ('r, 'w, 'pr, 'pw) connection \<Rightarrow> u32
   \<Rightarrow> (connection_error, unit) outcome \<times> ('r, 'w, 'pr, 'pw) connection" where
  "send_negotiation_messages E c0 effective_version =
     (let features = feature_preferences (configuration c0)
      in and_then
           (if enable_addrv2 features \<and> ADDRV2_MIN_PROTOCOL_VERSION \<le> effective_version
            then and_then (connection_write E c0 SendAddrV2)
                   (\<lambda>_ c. (Ok (), c\<lparr>conn_state := (conn_state c)\<lparr>addr_v2 :=
                             addr_v2_on_send (addr_v2 (conn_state c))\<rparr>\<rparr>))
            else (Ok (), c0))
           (\<lambda>_ c1. and_then
              (if enable_sendheaders features \<and> SENDHEADERS_MIN_PROTOCOL_VERSION \<le> effective_version
               then and_then (connection_write E c1 SendHeaders)
                      (\<lambda>_ c. (Ok (), c\<lparr>conn_state := (conn_state c)\<lparr>send_headers :=
                                send_headers_on_send (send_headers (conn_state c))\<rparr>\<rparr>))
               else (Ok (), c1))
              (\<lambda>_ c2.
                 (if enable_wtxidrelay features \<and> WTXID_RELAY_MIN_PROTOCOL_VERSION \<le> effective_version
                  then and_then (connection_write E c2 WtxidRelay)
                         (\<lambda>_ c. (Ok (), c\<lparr>conn_state := (conn_state c)\<lparr>wtxid_relay :=
                                   wtxid_relay_on_send (wtxid_relay (conn_state c))\<rparr>\<rparr>))
                  else (Ok (), c2)))))"

definition handle_version_message ::
  "('net, 'st, 'r, 'w, 'pr, 'pw) runtime \<Rightarrow> ('r, 'w, 'pr, 'pw) connection \<Rightarrow> version_message \<Rightarrow> u64
   \<Rightarrow> handshake_state \<Rightarrow> (connection_error, handshake_state) outcome \<times> ('r, 'w, 'pr, 'pw) connection" where
  "handle_version_message E c vm our_nonce state =
     (if vm_nonce vm = our_nonce then (Err ConnectionLoop, c)
      else if state = VersionSent \<or> state = VerackReceived then
        let c1 = c\<lparr>conn_peer := (conn_peer c)\<lparr>services := KnownServices (vm_services vm),
                                               version := KnownVersion (vm_version vm)\<rparr>\<rparr>;
            local_version = unwrap_or (protocol_version (configuration c)) MIN_PROTOCOL_VERSION;
            effective_version = min local_version (vm_version vm);
            c2 = c1\<lparr>conn_state := (conn_state c1)\<lparr>effective_protocol_version :=
                     KnownVersion effective_version\<rparr>\<rparr>
        in and_then (send_negotiation_messages E c2 effective_version)
             (\<lambda>_ c3. and_then (connection_write E c3 Verack)
                (\<lambda>_ c4. (Ok (if state = VerackReceived then Complete else VersionReceived), c4)))
      else (Ok state, c))"

definition handshake_message ::
  "('net, 'st, 'r, 'w, 'pr, 'pw) runtime \<Rightarrow> u64 \<Rightarrow> handshake_state \<Rightarrow> network_message
   \<Rightarrow> ('r, 'w, 'pr, 'pw) connection
   \<Rightarrow> (connection_error, handshake_state) outcome \<times> ('r, 'w, 'pr, 'pw) connection" where
  "handshake_message E nonce state message c =
     (case message of
        Version vm \<Rightarrow> handle_version_message E c vm nonce state
      | Verack \<Rightarrow> (Ok (handle_verack_message state), c)
      | _ \<Rightarrow> (Ok state, c))"

text \<open>
  The loop of \<open>perform_handshake\<close>. A remote side that keeps sending other messages keeps it
  going: \<open>None\<close> is a handshake that never returns.
\<close>

partial_function (option) handshake_loop ::
  "('net, 'st, 'r, 'w, 'pr, 'pw) runtime \<Rightarrow> u64 \<Rightarrow> handshake_state \<Rightarrow> ('r, 'w, 'pr, 'pw) connection
   \<Rightarrow> ((connection_error, unit) outcome \<times> ('r, 'w, 'pr, 'pw) connection) option" where
  "handshake_loop E nonce state c =
     (if state = Complete then Some (Ok (), c)
      else (case connection_read E c of
              (Err e, c1) \<Rightarrow> Some (Err e, c1)
            | (Pending, c1) \<Rightarrow> Some (Pending, c1)
            | (Ok message, c1) \<Rightarrow>
                (case handshake_message E nonce state message c1 of
                   (Err e, c2) \<Rightarrow> Some (Err e, c2)
                 | (Pending, c2) \<Rightarrow> Some (Pending, c2)
                 | (Ok state', c2) \<Rightarrow> handshake_loop E nonce state' c2)))"

definition perform_handshake ::
  "('net, 'st, 'r, 'w, 'pr, 'pw) runtime \<Rightarrow> clock \<Rightarrow> ('r, 'w, 'pr, 'pw) connection
   \<Rightarrow> ((connection_error, unit) outcome \<times> ('r, 'w, 'pr, 'pw) connection) option" where
  "perform_handshake E K c =
     (let nonce = generate_nonce K
      in (case connection_write E c (create_version_message E K c nonce) of
            (Ok _, c1) \<Rightarrow> handshake_loop E nonce VersionSent c1
          | (Err e, c1) \<Rightarrow> Some (Err e, c1)
          | (Pending, c1) \<Rightarrow> Some (Pending, c1)))"

definition finish_handshake ::
  "((connection_error, unit) outcome \<times> ('r, 'w, 'pr, 'pw) connection) option
   \<Rightarrow> (connection_error, ('r, 'w, 'pr, 'pw) connection) outcome option" where
  "finish_handshake r =
     map_option (\<lambda>(res, c). case res of Ok _ \<Rightarrow> Ok c | Err e \<Rightarrow> Err e | Pending \<Rightarrow> Pending) r"

definition connection_connect ::
  "('net, 'st, 'r, 'w, 'pr, 'pw) runtime \<Rightarrow> clock \<Rightarrow> 'net \<Rightarrow> peer \<Rightarrow> network \<Rightarrow> connection_configuration
   \<Rightarrow> (connection_error, ('r, 'w, 'pr, 'pw) connection) outcome option" where
  "connection_connect E K net p network cfg =
     (case fst (tcp_transport_connect E net p network (transport_policy cfg)) of
        Ok t \<Rightarrow> finish_handshake (perform_handshake E K (connection_new p cfg t))
      | Err e \<Rightarrow> Some (Err e)
      | Pending \<Rightarrow> Some Pending)"

definition connection_accept ::
  "('net, 'st, 'r, 'w, 'pr, 'pw) runtime \<Rightarrow> clock \<Rightarrow> 'st \<Rightarrow> network \<Rightarrow> connection_configuration
   \<Rightarrow> (connection_error, ('r, 'w, 'pr, 'pw) connection) outcome option" where
  "connection_accept E K st network cfg =
     (case tcp_transport_accept E st network (transport_policy cfg) of
        Ok (t, p) \<Rightarrow> finish_handshake (perform_handshake E K (connection_new p cfg t))
      | Err e \<Rightarrow> Some (Err e)
      | Pending \<Rightarrow> Some Pending)"

end
