(* ===== verification/Handshake.thy ===== *)
theory Handshake
  imports Connection Example_Env
begin

text \<open>
  The version handshake of \<^verbatim>\<open>connection/src/connection/futures.rs\<close>, proved correct: a
  specification over messages alone, a closed form of it, the refinement of the specification
  by \<open>perform_handshake\<close>, and what follows for connections.
\<close>

section \<open>The handshake over messages\<close>

text \<open>
  The specification: what a message does to the handshake, with no transport in sight. The
  local side answers the first version message with the features to negotiate and a verack.
\<close>

definition negotiation_messages :: "feature_preferences \<Rightarrow> u32 \<Rightarrow> network_message list" where
  "negotiation_messages f v =
     (if enable_addrv2 f \<and> ADDRV2_MIN_PROTOCOL_VERSION \<le> v then [SendAddrV2] else [])
     @ (if enable_sendheaders f \<and> SENDHEADERS_MIN_PROTOCOL_VERSION \<le> v then [SendHeaders] else [])
     @ (if enable_wtxidrelay f \<and> WTXID_RELAY_MIN_PROTOCOL_VERSION \<le> v then [WtxidRelay] else [])"

definition note_sent :: "connection_state \<Rightarrow> network_message list \<Rightarrow> connection_state" where
  "note_sent st ms =
     st\<lparr>addr_v2 := (if SendAddrV2 \<in> set ms then addr_v2_on_send (addr_v2 st) else addr_v2 st),
        send_headers := (if SendHeaders \<in> set ms then send_headers_on_send (send_headers st) else send_headers st),
        wtxid_relay := (if WtxidRelay \<in> set ms then wtxid_relay_on_send (wtxid_relay st) else wtxid_relay st)\<rparr>"

record handshake_view =
  hv_state :: handshake_state
  hv_peer :: peer
  hv_conn :: connection_state
  hv_sent :: "network_message list"

definition local_version :: "connection_configuration \<Rightarrow> u32" where
  "local_version cfg = unwrap_or (protocol_version cfg) MIN_PROTOCOL_VERSION"

definition effective_with :: "connection_configuration \<Rightarrow> version_message \<Rightarrow> u32" where
  "effective_with cfg vm = min (local_version cfg) (vm_version vm)"

definition learn_peer :: "peer \<Rightarrow> version_message \<Rightarrow> peer" where
  "learn_peer p vm = p\<lparr>services := KnownServices (vm_services vm), version := KnownVersion (vm_version vm)\<rparr>"

definition learn_state ::
  "connection_configuration \<Rightarrow> connection_state \<Rightarrow> version_message \<Rightarrow> connection_state" where
  "learn_state cfg st vm =
     note_sent (st\<lparr>effective_protocol_version := KnownVersion (effective_with cfg vm)\<rparr>)
       (negotiation_messages (feature_preferences cfg) (effective_with cfg vm))"

definition version_reply :: "connection_configuration \<Rightarrow> version_message \<Rightarrow> network_message list" where
  "version_reply cfg vm =
     negotiation_messages (feature_preferences cfg) (effective_with cfg vm) @ [Verack]"

definition hv_step ::
  "connection_configuration \<Rightarrow> u64 \<Rightarrow> handshake_view \<Rightarrow> network_message \<Rightarrow> connection_error + handshake_view" where
  "hv_step cfg nonce a0 m =
     (let a = a0\<lparr>hv_conn := note_received (hv_conn a0) m\<rparr>
      in case m of
           Version vm \<Rightarrow>
             if vm_nonce vm = nonce then Inl ConnectionLoop
             else if hv_state a = VersionSent \<or> hv_state a = VerackReceived then
               Inr \<lparr>hv_state = (if hv_state a = VerackReceived then Complete else VersionReceived),
                    hv_peer = learn_peer (hv_peer a) vm,
                    hv_conn = learn_state cfg (hv_conn a) vm,
                    hv_sent = hv_sent a @ version_reply cfg vm\<rparr>
             else Inr a
         | Verack \<Rightarrow> Inr (a\<lparr>hv_state := handle_verack_message (hv_state a)\<rparr>)
         | _ \<Rightarrow> Inr a)"

text \<open>A handshake that reads exactly \<open>ms\<close>: it neither fails nor completes before the last.\<close>

fun hv_run ::
  "connection_configuration \<Rightarrow> u64 \<Rightarrow> handshake_view \<Rightarrow> network_message list \<Rightarrow> handshake_view option" where
  "hv_run cfg nonce a [] = Some a"
| "hv_run cfg nonce a (m # ms) =
     (if hv_state a = Complete then None
      else case hv_step cfg nonce a m of Inl e \<Rightarrow> None | Inr a' \<Rightarrow> hv_run cfg nonce a' ms)"

text \<open>Its result in closed form: a handshake needs a version and a verack, in any order.\<close>

fun first_version :: "network_message list \<Rightarrow> version_message option" where
  "first_version [] = None"
| "first_version (Version vm # ms) = Some vm"
| "first_version (_ # ms) = first_version ms"

definition handshake_done :: "network_message list \<Rightarrow> bool" where
  "handshake_done ms \<longleftrightarrow> first_version ms \<noteq> None \<and> Verack \<in> set ms"

definition no_own_nonce :: "u64 \<Rightarrow> network_message list \<Rightarrow> bool" where
  "no_own_nonce nonce ms \<longleftrightarrow> list_all (\<lambda>m. case m of Version vm \<Rightarrow> vm_nonce vm \<noteq> nonce | _ \<Rightarrow> True) ms"

text \<open>The messages that a handshake reads: it stops at the first that completes it.\<close>

definition handshake_exchange :: "u64 \<Rightarrow> network_message list \<Rightarrow> bool" where
  "handshake_exchange nonce ms \<longleftrightarrow>
     no_own_nonce nonce ms \<and> handshake_done ms \<and> \<not> handshake_done (butlast ms)"

definition hv_summary ::
  "connection_configuration \<Rightarrow> handshake_view \<Rightarrow> network_message list \<Rightarrow> handshake_view" where
  "hv_summary cfg a ms =
     (let st = foldl note_received (hv_conn a) ms
      in case first_version ms of
           None \<Rightarrow> a\<lparr>hv_state := (if Verack \<in> set ms then VerackReceived else VersionSent), hv_conn := st\<rparr>
         | Some vm \<Rightarrow>
             \<lparr>hv_state = (if Verack \<in> set ms then Complete else VersionReceived),
              hv_peer = learn_peer (hv_peer a) vm,
              hv_conn = learn_state cfg st vm,
              hv_sent = hv_sent a @ version_reply cfg vm\<rparr>)"

text \<open>How a connection implements it, when \<open>ms\<close> are the messages it has sent.\<close>

definition hv_of :: "network_message list \<Rightarrow> handshake_state \<Rightarrow> ('r, 'w, 'pr, 'pw) connection \<Rightarrow> handshake_view" where
  "hv_of ms state c = \<lparr>hv_state = state, hv_peer = conn_peer c, hv_conn = conn_state c, hv_sent = ms\<rparr>"

text \<open>
  The write side: \<open>log\<close> is what a writer has put out so far, \<open>enc\<close> what a message adds
  to it. A write side that is up takes every message.
\<close>

definition writes_log ::
  "('net, 'st, 'r, 'w, 'pr, 'pw) runtime \<Rightarrow> (('w, 'pw) transport_writer \<Rightarrow> 'b list)
   \<Rightarrow> (network_message \<Rightarrow> 'b list) \<Rightarrow> (('w, 'pw) transport_writer \<Rightarrow> bool) \<Rightarrow> bool" where
  "writes_log E log enc up \<longleftrightarrow>
     (\<forall>w m w'. transport_writer_write E w m = (Ok (), w') \<and> up w \<longrightarrow> up w' \<and> log w' = log w @ enc m)"

definition writes_succeed ::
  "('net, 'st, 'r, 'w, 'pr, 'pw) runtime \<Rightarrow> (('w, 'pw) transport_writer \<Rightarrow> bool) \<Rightarrow> bool" where
  "writes_succeed E up \<longleftrightarrow> (\<forall>w m. up w \<longrightarrow> fst (transport_writer_write E w m) = Ok ())"

text \<open>The read side: the messages it delivers, one after the other.\<close>

fun delivers ::
  "('net, 'st, 'r, 'w, 'pr, 'pw) runtime \<Rightarrow> ('r, 'pr) transport_reader \<Rightarrow> network_message list
   \<Rightarrow> ('r, 'pr) transport_reader \<Rightarrow> bool" where
  "delivers E rd [] rd' \<longleftrightarrow> rd' = rd"
| "delivers E rd (m # ms) rd' \<longleftrightarrow>
     (case transport_reader_read E rd of (Ok m', rd1) \<Rightarrow> m' = m \<and> delivers E rd1 ms rd' | _ \<Rightarrow> False)"

section \<open>The specification in closed form\<close>

lemma first_version_append:
  "first_version (xs @ ys) = (case first_version xs of Some v \<Rightarrow> Some v | None \<Rightarrow> first_version ys)"
  by (induction xs rule: first_version.induct) auto

lemma first_version_in: "first_version ms = Some v \<Longrightarrow> Version v \<in> set ms"
  by (induction ms rule: first_version.induct) auto

lemma handshake_done_snocI: "handshake_done xs \<Longrightarrow> handshake_done (xs @ ys)"
  by (auto simp: handshake_done_def first_version_append split: option.splits)

lemma no_own_nonce_append [simp]:
  "no_own_nonce n (xs @ ys) \<longleftrightarrow> no_own_nonce n xs \<and> no_own_nonce n ys"
  by (simp add: no_own_nonce_def)

lemma hv_run_append:
  "hv_run cfg n a (xs @ ys) = Option.bind (hv_run cfg n a xs) (\<lambda>b. hv_run cfg n b ys)"
  by (induction cfg n a xs rule: hv_run.induct) (auto split: sum.splits)

lemma note_received_learn:
  "note_received (learn_state cfg st vm) m = learn_state cfg (note_received st m) vm"
  by (cases m) (auto simp: note_received_def learn_state_def note_sent_def
      addr_v2_neg.send_receive_commute send_headers_neg.send_receive_commute
      wtxid_relay_neg.send_receive_commute)

lemma note_received_plain [simp]:
  "note_received st (Version vm) = st" "note_received st Verack = st" "note_received st GetAddr = st"
  "note_received st (Ping n) = st"
  by (simp_all add: note_received_def)

lemma hv_step_summary:
  assumes "hv_state a = VersionSent" and "\<not> handshake_done ms"
  shows "hv_step cfg n (hv_summary cfg a ms) m =
     (if no_own_nonce n [m] then Inr (hv_summary cfg a (ms @ [m])) else Inl ConnectionLoop)"
  using assms
  by (cases m; cases "first_version ms")
    (auto simp: hv_step_def hv_summary_def no_own_nonce_def handshake_done_def first_version_append
      note_received_learn handle_verack_message_def Let_def)

lemma hv_state_summary:
  "hv_state (hv_summary cfg a ms) = Complete \<longleftrightarrow> handshake_done ms"
  by (auto simp: hv_summary_def handshake_done_def Let_def split: option.splits)

lemma not_done_butlast: "\<not> handshake_done ms \<Longrightarrow> \<not> handshake_done (butlast ms)"
  using handshake_done_snocI [of "butlast ms" "[last ms]"] by (cases ms) auto

lemma hv_run_summary:
  assumes "hv_state a = VersionSent"
  shows "hv_run cfg n a ms =
     (if no_own_nonce n ms \<and> \<not> handshake_done (butlast ms) then Some (hv_summary cfg a ms) else None)"
proof (induction ms rule: rev_induct)
  case Nil
  show ?case using assms by (simp add: hv_summary_def no_own_nonce_def handshake_done_def)
next
  case (snoc m ms)
  show ?case
    using hv_step_summary [OF assms, of ms cfg n m] not_done_butlast [of ms]
    by (auto simp: hv_run_append snoc.IH hv_state_summary)
qed

section \<open>The code refines the specification\<close>

lemma connection_write_eq:
  "connection_write E c m =
     (let (res, w) = transport_writer_write E (conn_writer c) m
      in (map_err TransportFailed res, c\<lparr>conn_writer := w\<rparr>))"
  by (simp add: connection_write_def connection_writer_write_def connection_into_split_def
      case_prod_unfold Let_def)

lemma connection_write_Ok:
  "connection_write E c m = (Ok (), c') \<longleftrightarrow>
     (\<exists>w. transport_writer_write E (conn_writer c) m = (Ok (), w) \<and> c' = c\<lparr>conn_writer := w\<rparr>)"
  by (auto simp: connection_write_eq case_prod_unfold Let_def prod_eq_iff)

lemma connection_read_eq:
  "connection_read E c =
     (case transport_reader_read E (conn_reader c) of
        (Ok m, rd) \<Rightarrow> (Ok m, c\<lparr>conn_reader := rd, conn_state := note_received (conn_state c) m\<rparr>)
      | (Err e, rd) \<Rightarrow> (Err (TransportFailed e), c\<lparr>conn_reader := rd\<rparr>)
      | (Pending, rd) \<Rightarrow> (Pending, c\<lparr>conn_reader := rd\<rparr>))"
  by (auto simp: connection_read_def connection_reader_read_def connection_into_split_def
      split: prod.splits outcome.splits)

text \<open>What a connection is after it has sent \<open>ms\<close>.\<close>

definition after_sending ::
  "(('w, 'pw) transport_writer \<Rightarrow> 'b list) \<Rightarrow> (network_message \<Rightarrow> 'b list)
   \<Rightarrow> (('w, 'pw) transport_writer \<Rightarrow> bool) \<Rightarrow> ('r, 'w, 'pr, 'pw) connection \<Rightarrow> network_message list
   \<Rightarrow> ('r, 'w, 'pr, 'pw) connection \<Rightarrow> bool" where
  "after_sending log enc up c ms c' \<longleftrightarrow>
     c' = c\<lparr>conn_state := note_sent (conn_state c) ms, conn_writer := conn_writer c'\<rparr>
     \<and> up (conn_writer c')
     \<and> log (conn_writer c') = log (conn_writer c) @ concat (map enc ms)"

lemma note_sent_Nil [simp]: "note_sent st [] = st"
  by (simp add: note_sent_def)

lemma writes_logD:
  "writes_log E log enc up \<Longrightarrow> transport_writer_write E w m = (Ok (), w') \<Longrightarrow> up w
   \<Longrightarrow> up w' \<and> log w' = log w @ enc m"
  unfolding writes_log_def by blast

lemma writes_succeedD:
  "writes_succeed E up \<Longrightarrow> up w \<Longrightarrow> \<exists>w'. transport_writer_write E w m = (Ok (), w')"
  unfolding writes_succeed_def by (metis prod.collapse)

lemma after_sending_trans:
  assumes "after_sending log enc up c xs c1" and "after_sending log enc up c1 ys c2"
    and "\<forall>m\<in>{SendAddrV2, SendHeaders, WtxidRelay}. m \<notin> set xs \<or> m \<notin> set ys"
  shows "after_sending log enc up c (xs @ ys) c2"
proof -
  obtain st w where c1: "c1 = c\<lparr>conn_state := st, conn_writer := w\<rparr>" and st: "st = note_sent (conn_state c) xs"
    using assms(1) unfolding after_sending_def by blast
  obtain w' where c2: "c2 = c1\<lparr>conn_state := note_sent (conn_state c1) ys, conn_writer := w'\<rparr>"
    using assms(2) unfolding after_sending_def by blast
  have "note_sent (note_sent (conn_state c) xs) ys = note_sent (conn_state c) (xs @ ys)"
    using assms(3) by (auto simp: note_sent_def)
  with assms(1,2) show ?thesis
    unfolding after_sending_def c2 c1 st by simp
qed

text \<open>Sending one feature's message, as the three parts of \<open>send_negotiation_messages\<close> do.\<close>

definition send_if ::
  "('net, 'st, 'r, 'w, 'pr, 'pw) runtime \<Rightarrow> bool \<Rightarrow> network_message \<Rightarrow> (connection_state \<Rightarrow> connection_state)
   \<Rightarrow> ('r, 'w, 'pr, 'pw) connection
   \<Rightarrow> (connection_error, unit) outcome \<times> ('r, 'w, 'pr, 'pw) connection" where
  "send_if E b m g c0 =
     (if b then and_then (connection_write E c0 m) (\<lambda>_ c. (Ok (), c\<lparr>conn_state := g (conn_state c)\<rparr>))
      else (Ok (), c0))"

lemma note_sent_single:
  "note_sent st [SendAddrV2] = st\<lparr>addr_v2 := addr_v2_on_send (addr_v2 st)\<rparr>"
  "note_sent st [SendHeaders] = st\<lparr>send_headers := send_headers_on_send (send_headers st)\<rparr>"
  "note_sent st [WtxidRelay] = st\<lparr>wtxid_relay := wtxid_relay_on_send (wtxid_relay st)\<rparr>"
  by (simp_all add: note_sent_def)

lemma send_negotiation_parts:
  "send_negotiation_messages E c v =
     (let f = feature_preferences (configuration c)
      in and_then (send_if E (enable_addrv2 f \<and> ADDRV2_MIN_PROTOCOL_VERSION \<le> v) SendAddrV2
                     (\<lambda>st. note_sent st [SendAddrV2]) c)
         (\<lambda>_ c1. and_then (send_if E (enable_sendheaders f \<and> SENDHEADERS_MIN_PROTOCOL_VERSION \<le> v) SendHeaders
                             (\<lambda>st. note_sent st [SendHeaders]) c1)
            (\<lambda>_ c2. send_if E (enable_wtxidrelay f \<and> WTXID_RELAY_MIN_PROTOCOL_VERSION \<le> v) WtxidRelay
                       (\<lambda>st. note_sent st [WtxidRelay]) c2)))"
  unfolding send_negotiation_messages_def send_if_def note_sent_single Let_def ..

lemma send_if_Ok:
  assumes "writes_log E log enc up" and "up (conn_writer c)"
    and "send_if E b m (\<lambda>st. note_sent st [m]) c = (Ok (), c')"
  shows "after_sending log enc up c (if b then [m] else []) c'"
  using assms
  by (auto simp: send_if_def after_sending_def and_then_Ok_iff connection_write_Ok dest!: writes_logD [OF assms(1)]
      split: if_splits)

lemma after_sending_up: "after_sending log enc up c ms c' \<Longrightarrow> up (conn_writer c')"
  by (simp add: after_sending_def)

lemma send_negotiation_Ok:
  assumes "writes_log E log enc up" and "up (conn_writer c)"
    and "send_negotiation_messages E c v = (Ok (), c')"
  shows "after_sending log enc up c (negotiation_messages (feature_preferences (configuration c)) v) c'"
proof -
  let ?f = "feature_preferences (configuration c)"
  obtain c1 c2 where
    1: "send_if E (enable_addrv2 ?f \<and> ADDRV2_MIN_PROTOCOL_VERSION \<le> v) SendAddrV2
          (\<lambda>st. note_sent st [SendAddrV2]) c = (Ok (), c1)" and
    2: "send_if E (enable_sendheaders ?f \<and> SENDHEADERS_MIN_PROTOCOL_VERSION \<le> v) SendHeaders
          (\<lambda>st. note_sent st [SendHeaders]) c1 = (Ok (), c2)" and
    3: "send_if E (enable_wtxidrelay ?f \<and> WTXID_RELAY_MIN_PROTOCOL_VERSION \<le> v) WtxidRelay
          (\<lambda>st. note_sent st [WtxidRelay]) c2 = (Ok (), c')"
    using assms(3) unfolding send_negotiation_parts Let_def and_then_Ok_iff by auto
  note s1 = send_if_Ok [OF assms(1,2) 1]
  note s2 = send_if_Ok [OF assms(1) after_sending_up [OF s1] 2]
  note s3 = send_if_Ok [OF assms(1) after_sending_up [OF s2] 3]
  show ?thesis
    unfolding negotiation_messages_def
    by (rule after_sending_trans [OF s1 after_sending_trans [OF s2 s3]]) auto
qed

lemma send_if_succeeds:
  assumes "writes_log E log enc up" and "writes_succeed E up" and "up (conn_writer c)"
  shows "\<exists>c'. send_if E b m (\<lambda>st. note_sent st [m]) c = (Ok (), c') \<and> up (conn_writer c')"
  using writes_succeedD [OF assms(2,3), of m] assms(3)
  by (auto simp: send_if_def and_then_Ok_iff connection_write_Ok dest: writes_logD [OF assms(1)])

lemma send_negotiation_succeeds:
  assumes "writes_log E log enc up" and "writes_succeed E up" and "up (conn_writer c)"
  shows "\<exists>c'. send_negotiation_messages E c v = (Ok (), c')"
  unfolding send_negotiation_parts Let_def and_then_Ok_iff
  using send_if_succeeds [OF assms(1,2)] assms(3) by meson

text \<open>The effect of a successful step on a connection, and what the specification says of it.\<close>

definition handshake_sim ::
  "(('w, 'pw) transport_writer \<Rightarrow> 'b list) \<Rightarrow> (network_message \<Rightarrow> 'b list)
   \<Rightarrow> (('w, 'pw) transport_writer \<Rightarrow> bool) \<Rightarrow> handshake_view \<Rightarrow> handshake_state
   \<Rightarrow> ('r, 'w, 'pr, 'pw) connection \<Rightarrow> bool" where
  "handshake_sim log enc up a state c \<longleftrightarrow>
     a = hv_of (hv_sent a) state c \<and> up (conn_writer c)
     \<and> log (conn_writer c) = concat (map enc (hv_sent a))"

lemma handle_version_Ok:
  assumes "writes_log E log enc up" and "up (conn_writer c)"
    and "handle_version_message E c vm n state = (Ok state', c')"
    and "state = VersionSent \<or> state = VerackReceived"
  shows "vm_nonce vm \<noteq> n \<and> state' = (if state = VerackReceived then Complete else VersionReceived)
     \<and> c' = c\<lparr>conn_peer := learn_peer (conn_peer c) vm,
               conn_state := learn_state (configuration c) (conn_state c) vm,
               conn_writer := conn_writer c'\<rparr>
     \<and> up (conn_writer c')
     \<and> log (conn_writer c') = log (conn_writer c) @ concat (map enc (version_reply (configuration c) vm))"
proof -
  define v where "v = effective_with (configuration c) vm"
  define c2 where "c2 = c\<lparr>conn_peer := learn_peer (conn_peer c) vm,
     conn_state := (conn_state c)\<lparr>effective_protocol_version := KnownVersion v\<rparr>\<rparr>"
  have n: "vm_nonce vm \<noteq> n"
    using assms(3) by (auto simp: handle_version_message_def)
  obtain c3 w where neg: "send_negotiation_messages E c2 v = (Ok (), c3)"
    and ver: "transport_writer_write E (conn_writer c3) Verack = (Ok (), w)"
    and c': "c' = c3\<lparr>conn_writer := w\<rparr>"
    and st: "state' = (if state = VerackReceived then Complete else VersionReceived)"
    using assms(3,4) n
    by (auto simp: handle_version_message_def Let_def and_then_Ok_iff connection_write_Ok c2_def v_def
        learn_peer_def effective_with_def local_version_def)
  have up2: "up (conn_writer c2)" using assms(2) by (simp add: c2_def)
  have aft: "after_sending log enc up c2 (negotiation_messages (feature_preferences (configuration c)) v) c3"
    using send_negotiation_Ok [OF assms(1) up2 neg] by (simp add: c2_def)
  obtain st3 w3 where c3: "c3 = c2\<lparr>conn_state := st3, conn_writer := w3\<rparr>"
    and st3: "st3 = note_sent (conn_state c2) (negotiation_messages (feature_preferences (configuration c)) v)"
    using aft unfolding after_sending_def by blast
  have w: "up w \<and> log w = log w3 @ enc Verack"
    using writes_logD [OF assms(1) ver] after_sending_up [OF aft] c3 by simp
  have l3: "log w3 = log (conn_writer c)
      @ concat (map enc (negotiation_messages (feature_preferences (configuration c)) v))"
    using aft unfolding after_sending_def c3 by (simp add: c2_def)
  show ?thesis
    using n st w l3 unfolding c' c3 st3 by (simp add: c2_def learn_state_def version_reply_def v_def)
qed

lemma handshake_message_Ok:
  assumes log: "writes_log E log enc up" and sim: "handshake_sim log enc up a state c"
    and rd: "connection_read E c = (Ok m, c1)"
    and hm: "handshake_message E n state m c1 = (Ok state', c2)"
  shows "\<exists>b. hv_step (configuration c) n a m = Inr b \<and> handshake_sim log enc up b state' c2
     \<and> configuration c2 = configuration c \<and> conn_reader c2 = conn_reader c1"
proof -
  obtain rdr where c1: "c1 = c\<lparr>conn_reader := rdr, conn_state := note_received (conn_state c) m\<rparr>"
    using rd unfolding connection_read_eq by (auto split: prod.splits outcome.splits)
  obtain ms where a: "a = hv_of ms state c" and up: "up (conn_writer c)"
    and l: "log (conn_writer c) = concat (map enc ms)"
    using sim unfolding handshake_sim_def by blast
  have other: "?thesis" if "c2 = c1" "hv_step (configuration c) n a m = Inr (hv_of ms state' c1)"
    using that up l c1 by (simp add: handshake_sim_def hv_of_def)
  show ?thesis
  proof (cases "\<exists>vm. m = Version vm \<and> (state = VersionSent \<or> state = VerackReceived)")
    case True
    then obtain vm where m: "m = Version vm" and st: "state = VersionSent \<or> state = VerackReceived"
      by blast
    have up1: "up (conn_writer c1)" using up c1 by simp
    have hv: "handle_version_message E c1 vm n state = (Ok state', c2)"
      using hm m by (simp add: handshake_message_def)
    note V = handle_version_Ok [OF log up1 hv st]
    then obtain w where c2: "c2 = c1\<lparr>conn_peer := learn_peer (conn_peer c1) vm,
        conn_state := learn_state (configuration c1) (conn_state c1) vm, conn_writer := w\<rparr>"
      by blast
    show ?thesis
      using V st l unfolding c2
      by (simp add: a m c1 hv_step_def hv_of_def handshake_sim_def Let_def)
  next
    case False
    then show ?thesis
      using hm c1 a
      by (intro other; cases m)
        (auto simp: handshake_message_def handle_version_message_def hv_step_def hv_of_def Let_def
          split: if_splits)
  qed
qed

lemma handshake_message_succeeds:
  assumes log: "writes_log E log enc up" and ok: "writes_succeed E up" and up: "up (conn_writer c)"
    and nonce: "no_own_nonce n [m]"
  shows "\<exists>state' c'. handshake_message E n state m c = (Ok state', c')"
proof (cases "\<exists>vm. m = Version vm \<and> (state = VersionSent \<or> state = VerackReceived)")
  case True
  then obtain vm where m: "m = Version vm" and st: "state = VersionSent \<or> state = VerackReceived"
    by blast
  let ?v = "effective_with (configuration c) vm"
  let ?c2 = "c\<lparr>conn_peer := learn_peer (conn_peer c) vm,
     conn_state := (conn_state c)\<lparr>effective_protocol_version := KnownVersion ?v\<rparr>\<rparr>"
  obtain c3 where c3: "send_negotiation_messages E ?c2 ?v = (Ok (), c3)"
    using send_negotiation_succeeds [OF log ok, of ?c2 ?v] up by auto
  have "up (conn_writer c3)"
    using send_negotiation_Ok [OF log _ c3] after_sending_up up by auto
  from writes_succeedD [OF ok this, of Verack] obtain w where
    "connection_write E c3 Verack = (Ok (), c3\<lparr>conn_writer := w\<rparr>)"
    by (auto simp: connection_write_Ok)
  then show ?thesis
    using c3 st nonce m
    by (auto simp: handshake_message_def handle_version_message_def Let_def no_own_nonce_def
        learn_peer_def effective_with_def local_version_def)
next
  case False
  then show ?thesis
    using nonce by (cases m) (auto simp: handshake_message_def handle_version_message_def no_own_nonce_def)
qed

lemma hv_step_nonce: "hv_step cfg n a m = Inr b \<Longrightarrow> no_own_nonce n [m]"
  by (cases m) (auto simp: hv_step_def no_own_nonce_def Let_def split: if_splits)

lemma handshake_loop_reaches:
  assumes log: "writes_log E log enc up" and ok: "writes_succeed E up"
  shows "handshake_sim log enc up a state c \<Longrightarrow> delivers E (conn_reader c) ms rd'
   \<Longrightarrow> hv_run (configuration c) n a ms = Some b
   \<Longrightarrow> \<exists>state' c'. handshake_loop E n state c = handshake_loop E n state' c'
         \<and> handshake_sim log enc up b state' c' \<and> conn_reader c' = rd'
         \<and> configuration c' = configuration c"
proof (induction ms arbitrary: a state c)
  case Nil
  then show ?case by auto
next
  case (Cons m ms)
  have st: "state = hv_state a" and up: "up (conn_writer c)"
    using Cons.prems(1) by (auto simp: handshake_sim_def hv_of_def dest: arg_cong [of _ _ hv_state])
  obtain rd1 where rd1: "transport_reader_read E (conn_reader c) = (Ok m, rd1)" "delivers E rd1 ms rd'"
    using Cons.prems(2) by (auto split: prod.splits outcome.splits)
  define c1 where "c1 = c\<lparr>conn_reader := rd1, conn_state := note_received (conn_state c) m\<rparr>"
  have read: "connection_read E c = (Ok m, c1)"
    using rd1 by (simp add: connection_read_eq c1_def)
  obtain b1 where b1: "hv_step (configuration c) n a m = Inr b1"
    and run: "hv_run (configuration c) n b1 ms = Some b" and nc: "state \<noteq> Complete"
    using Cons.prems(3) st by (auto split: if_splits sum.splits)
  have "up (conn_writer c1)" using up by (simp add: c1_def)
  from handshake_message_succeeds [OF log ok this hv_step_nonce [OF b1]] obtain state' c2 where
    hm: "handshake_message E n state m c1 = (Ok state', c2)" by blast
  from handshake_message_Ok [OF log Cons.prems(1) read hm] b1
  have sim: "handshake_sim log enc up b1 state' c2" and cfg: "configuration c2 = configuration c"
    and rdr: "conn_reader c2 = rd1"
    by (auto simp: c1_def)
  have "handshake_loop E n state c = handshake_loop E n state' c2"
    using nc read hm by (subst handshake_loop.simps) simp
  with Cons.IH [OF sim] run rd1(2) cfg rdr show ?case by simp
qed

lemma delivers_step:
  assumes "connection_read E c = (Ok m, c1)" and "delivers E (conn_reader c1) ms rd'"
  shows "delivers E (conn_reader c) (m # ms) rd'"
  using assms by (auto simp: connection_read_eq split: prod.splits outcome.splits)

lemma handshake_loop_result:
  assumes "handshake_loop E n state c = Some y"
  shows "writes_log E log enc up \<longrightarrow> (\<forall>a c'. y = (Ok (), c') \<longrightarrow> handshake_sim log enc up a state c \<longrightarrow>
      (\<exists>ms b. delivers E (conn_reader c) ms (conn_reader c') \<and> hv_run (configuration c) n a ms = Some b
        \<and> handshake_sim log enc up b Complete c' \<and> configuration c' = configuration c))"
  using assms
proof (induction rule: handshake_loop.raw_induct [rotated 1, consumes 1], intro allI impI)
  fix loop E n state c y a c'
  assume IH: "\<And>E n state c y. loop E n state c = Some y \<Longrightarrow>
      writes_log E log enc up \<longrightarrow> (\<forall>a c'. y = (Ok (), c') \<longrightarrow> handshake_sim log enc up a state c \<longrightarrow>
      (\<exists>ms b. delivers E (conn_reader c) ms (conn_reader c') \<and> hv_run (configuration c) n a ms = Some b
        \<and> handshake_sim log enc up b Complete c' \<and> configuration c' = configuration c))"
    and body: "(if state = Complete then Some (Ok (), c)
      else case connection_read E c of (Err e, c1) \<Rightarrow> Some (Err e, c1)
         | (Pending, c1) \<Rightarrow> Some (Pending, c1)
         | (Ok message, c1) \<Rightarrow>
             (case handshake_message E n state message c1 of
                (Err e, c2) \<Rightarrow> Some (Err e, c2)
              | (Pending, c2) \<Rightarrow> Some (Pending, c2)
              | (Ok state', c2) \<Rightarrow> loop E n state' c2)) = Some y"
    and log: "writes_log E log enc up" and y: "y = (Ok (), c')"
    and sim: "handshake_sim log enc up a state c"
  show "\<exists>ms b. delivers E (conn_reader c) ms (conn_reader c') \<and> hv_run (configuration c) n a ms = Some b
        \<and> handshake_sim log enc up b Complete c' \<and> configuration c' = configuration c"
  proof (cases "state = Complete")
    case True
    then have "c' = c" using body y by simp
    then show ?thesis
      using sim True by (intro exI [of _ "[]"] exI [of _ a]) simp
  next
    case False
    obtain m c1 state' c2 where read: "connection_read E c = (Ok m, c1)"
      and hm: "handshake_message E n state m c1 = (Ok state', c2)"
      and rest: "loop E n state' c2 = Some y"
      using body False y by (auto split: prod.splits outcome.splits)
    obtain b1 where b1: "hv_step (configuration c) n a m = Inr b1"
      and sim1: "handshake_sim log enc up b1 state' c2" and cfg: "configuration c2 = configuration c"
      and rdr: "conn_reader c2 = conn_reader c1"
      using handshake_message_Ok [OF log sim read hm] by blast
    obtain ms b where "delivers E (conn_reader c1) ms (conn_reader c')"
      "hv_run (configuration c) n b1 ms = Some b" "handshake_sim log enc up b Complete c'"
      "configuration c' = configuration c"
      using IH [OF rest] log y sim1 cfg rdr by auto
    moreover have "hv_state a \<noteq> Complete"
      using False sim by (auto simp: handshake_sim_def hv_of_def dest: arg_cong [of _ _ hv_state])
    ultimately show ?thesis
      using b1 delivers_step [OF read] by (intro exI [of _ "m # ms"] exI [of _ b]) simp
  qed
qed

lemma perform_handshake_start:
  assumes "writes_log E log enc up" and "writes_succeed E up" and "up (conn_writer c)"
    and "log (conn_writer c) = []"
  shows "\<exists>c1. perform_handshake E K c = handshake_loop E (generate_nonce K) VersionSent c1
    \<and> handshake_sim log enc up
        (hv_of [create_version_message E K c (generate_nonce K)] VersionSent c) VersionSent c1
    \<and> conn_reader c1 = conn_reader c \<and> configuration c1 = configuration c"
proof -
  obtain w where w: "transport_writer_write E (conn_writer c)
      (create_version_message E K c (generate_nonce K)) = (Ok (), w)"
    using writes_succeedD [OF assms(2,3)] by blast
  then have "connection_write E c (create_version_message E K c (generate_nonce K))
      = (Ok (), c\<lparr>conn_writer := w\<rparr>)"
    by (simp add: connection_write_Ok)
  moreover have "up w \<and> log w = enc (create_version_message E K c (generate_nonce K))"
    using writes_logD [OF assms(1) w assms(3)] assms(4) by simp
  ultimately show ?thesis
    by (intro exI [of _ "c\<lparr>conn_writer := w\<rparr>"])
      (simp add: perform_handshake_def handshake_sim_def hv_of_def)
qed

lemma perform_handshake_Ok_start:
  assumes "writes_log E log enc up" and "up (conn_writer c)" and "log (conn_writer c) = []"
    and "perform_handshake E K c = Some (Ok (), c')"
  shows "\<exists>c1. handshake_loop E (generate_nonce K) VersionSent c1 = Some (Ok (), c')
    \<and> handshake_sim log enc up
        (hv_of [create_version_message E K c (generate_nonce K)] VersionSent c) VersionSent c1
    \<and> conn_reader c1 = conn_reader c \<and> configuration c1 = configuration c"
proof -
  obtain c1 where c1: "connection_write E c (create_version_message E K c (generate_nonce K)) = (Ok (), c1)"
    and loop: "handshake_loop E (generate_nonce K) VersionSent c1 = Some (Ok (), c')"
    using assms(4) by (auto simp: perform_handshake_def Let_def split: prod.splits outcome.splits)
  then obtain w where w: "transport_writer_write E (conn_writer c)
      (create_version_message E K c (generate_nonce K)) = (Ok (), w)" "c1 = c\<lparr>conn_writer := w\<rparr>"
    by (auto simp: connection_write_Ok)
  with writes_logD [OF assms(1) w(1) assms(2)] assms(3) loop show ?thesis
    by (intro exI [of _ c1]) (simp add: handshake_sim_def hv_of_def)
qed

text \<open>A connection after a handshake that has read \<open>ms\<close> with the version \<open>vm\<close>.\<close>

definition handshaken ::
  "('net, 'st, 'r, 'w, 'pr, 'pw) runtime \<Rightarrow> clock \<Rightarrow> (('w, 'pw) transport_writer \<Rightarrow> 'b list)
   \<Rightarrow> (network_message \<Rightarrow> 'b list) \<Rightarrow> ('r, 'w, 'pr, 'pw) connection \<Rightarrow> network_message list
   \<Rightarrow> version_message \<Rightarrow> ('r, 'w, 'pr, 'pw) connection \<Rightarrow> bool" where
  "handshaken E K log enc c ms vm c' \<longleftrightarrow>
     configuration c' = configuration c
     \<and> conn_peer c' = (conn_peer c)\<lparr>services := KnownServices (vm_services vm),
                                     version := KnownVersion (vm_version vm)\<rparr>
     \<and> conn_state c' = learn_state (configuration c) (foldl note_received (conn_state c) ms) vm
     \<and> log (conn_writer c') =
         concat (map enc (create_version_message E K c (generate_nonce K)
                          # version_reply (configuration c) vm))"

lemma handshaken_of_sim:
  assumes "handshake_sim log enc up
      (hv_summary (configuration c) (hv_of [create_version_message E K c (generate_nonce K)] VersionSent c) ms)
      Complete c'"
    and "configuration c' = configuration c" and "first_version ms = Some vm"
  shows "handshaken E K log enc c ms vm c' \<and> up (conn_writer c')"
proof -
  let ?a = "hv_summary (configuration c) (hv_of [create_version_message E K c (generate_nonce K)] VersionSent c) ms"
  have "?a = hv_of (hv_sent ?a) Complete c'" "up (conn_writer c')"
    "log (conn_writer c') = concat (map enc (hv_sent ?a))"
    using assms(1) unfolding handshake_sim_def by blast+
  then show ?thesis
    using assms(2,3) by (simp add: handshaken_def hv_summary_def hv_of_def Let_def learn_peer_def)
qed

lemma handshake_complete:
  assumes log: "writes_log E log enc up" and ok: "writes_succeed E up" and up: "up (conn_writer c)"
    and empty: "log (conn_writer c) = []"
    and ex: "handshake_exchange (generate_nonce K) ms" and vm: "first_version ms = Some vm"
    and del: "delivers E (conn_reader c) ms rd'"
  shows "\<exists>c'. perform_handshake E K c = Some (Ok (), c') \<and> conn_reader c' = rd'
    \<and> handshaken E K log enc c ms vm c'"
proof -
  let ?a = "hv_of [create_version_message E K c (generate_nonce K)] VersionSent c"
  obtain c1 where c1: "perform_handshake E K c = handshake_loop E (generate_nonce K) VersionSent c1"
    "handshake_sim log enc up ?a VersionSent c1" "conn_reader c1 = conn_reader c"
    "configuration c1 = configuration c"
    using perform_handshake_start [OF log ok up empty] by blast
  have "hv_run (configuration c1) (generate_nonce K) ?a ms = Some (hv_summary (configuration c) ?a ms)"
    using hv_run_summary [of ?a] ex c1(4) by (simp add: hv_of_def handshake_exchange_def)
  from handshake_loop_reaches [OF log ok c1(2) del [folded c1(3)] this] c1(4) obtain state' c' where
    loop: "handshake_loop E (generate_nonce K) VersionSent c1 = handshake_loop E (generate_nonce K) state' c'"
    and sim: "handshake_sim log enc up (hv_summary (configuration c) ?a ms) state' c'"
    and rd: "conn_reader c' = rd'" "configuration c' = configuration c"
    by auto
  have "state' = Complete"
    using sim ex hv_state_summary [of "configuration c" ?a ms]
    by (auto simp: handshake_sim_def hv_of_def handshake_exchange_def dest: arg_cong [of _ _ hv_state])
  then have "perform_handshake E K c = Some (Ok (), c')"
    using loop c1(1) by (simp add: handshake_loop.simps [of _ _ Complete])
  with \<open>state' = Complete\<close> handshaken_of_sim [OF _ rd(2) vm] sim rd(1) show ?thesis by blast
qed

lemma handshake_sound:
  assumes log: "writes_log E log enc up" and up: "up (conn_writer c)" and empty: "log (conn_writer c) = []"
    and ok: "perform_handshake E K c = Some (Ok (), c')"
  shows "\<exists>ms vm. handshake_exchange (generate_nonce K) ms \<and> first_version ms = Some vm
    \<and> delivers E (conn_reader c) ms (conn_reader c') \<and> handshaken E K log enc c ms vm c'
    \<and> up (conn_writer c')"
proof -
  let ?a = "hv_of [create_version_message E K c (generate_nonce K)] VersionSent c"
  obtain c1 where c1: "handshake_loop E (generate_nonce K) VersionSent c1 = Some (Ok (), c')"
    "handshake_sim log enc up ?a VersionSent c1" "conn_reader c1 = conn_reader c"
    "configuration c1 = configuration c"
    using perform_handshake_Ok_start [OF log up empty ok] by blast
  from handshake_loop_result [OF c1(1), of log enc up, THEN mp, OF log, rule_format, OF refl c1(2)] c1(3,4)
  obtain ms b where
    del: "delivers E (conn_reader c) ms (conn_reader c')"
    and run: "hv_run (configuration c) (generate_nonce K) ?a ms = Some b"
    and sim: "handshake_sim log enc up b Complete c'" and cfg: "configuration c' = configuration c"
    by auto
  have b: "b = hv_summary (configuration c) ?a ms" "no_own_nonce (generate_nonce K) ms"
    "\<not> handshake_done (butlast ms)"
    using run hv_run_summary [of ?a] by (auto simp: hv_of_def split: if_splits)
  have "hv_state b = Complete"
    using sim by (auto simp: handshake_sim_def hv_of_def dest: arg_cong [of _ _ hv_state])
  then have "handshake_done ms" using hv_state_summary b(1) by blast
  moreover from this obtain vm where vm: "first_version ms = Some vm"
    by (auto simp: handshake_done_def)
  ultimately show ?thesis
    using del b(2,3) handshaken_of_sim [OF sim [unfolded b(1)] cfg vm] vm unfolding handshake_exchange_def
    by blast
qed

end
