(* ===== verification/Connection_Properties.thy ===== *)
theory Connection_Properties
  imports Handshake
begin

text \<open>
  What the handshake guarantees to the users of a connection, over both transports. The
  laws of the two write sides are derived here from those of the sinks below them.
\<close>

section \<open>The two write sides\<close>

text \<open>A writer of an encrypted session: a successful write has put out its packet.\<close>

definition packet_sink ::
  "('pw \<Rightarrow> u8 list \<Rightarrow> (unit, unit) outcome \<times> 'pw) \<Rightarrow> ('pw \<Rightarrow> u8 list list) \<Rightarrow> bool" where
  "packet_sink wr packets \<longleftrightarrow>
     (\<forall>w bs w'. wr w bs = (Ok (), w') \<longrightarrow> packets w' = packets w @ [bs])"

fun writer_is_v1 :: "('w, 'pw) transport_writer \<Rightarrow> bool" where
  "writer_is_v1 (WriterV1 _) = True"
| "writer_is_v1 (WriterV2 _) = False"

fun writes_v1_for :: "magic \<Rightarrow> ('w, 'pw) transport_writer \<Rightarrow> bool" where
  "writes_v1_for mg (WriterV1 w) \<longleftrightarrow> v1w_magic w = mg"
| "writes_v1_for mg (WriterV2 w) \<longleftrightarrow> False"

fun sent_bytes :: "('w \<Rightarrow> u8 list) \<Rightarrow> ('w, 'pw) transport_writer \<Rightarrow> u8 list" where
  "sent_bytes wire (WriterV1 w) = wire (v1w_writer w)"
| "sent_bytes wire (WriterV2 w) = []"

fun sent_packets :: "('pw \<Rightarrow> u8 list list) \<Rightarrow> ('w, 'pw) transport_writer \<Rightarrow> u8 list list" where
  "sent_packets packets (WriterV1 w) = []"
| "sent_packets packets (WriterV2 w) = packets (v2w_writer w)"

lemma v1_writes_log:
  assumes "byte_sink (write_all E) (flush E) wire"
  shows "writes_log E (sent_bytes wire) (\<lambda>m. raw_serialize E (mg, m)) (writes_v1_for mg)"
  unfolding writes_log_def
proof (intro allI impI, elim conjE)
  fix w m w'
  assume wr: "transport_writer_write E w m = (Ok (), w')" and "writes_v1_for mg w"
  then obtain v where w: "w = WriterV1 v" "v1w_magic v = mg" by (cases w) auto
  then obtain v' where "v1_writer_write E v m = (Ok (), v')" "w' = WriterV1 v'"
    using wr by (cases "v1_writer_write E v m") auto
  with v1_write_wire [OF assms] w
  show "writes_v1_for mg w' \<and> sent_bytes wire w' = sent_bytes wire w @ raw_serialize E (mg, m)"
    by simp
qed

lemma v1_writes_succeed:
  assumes wr: "\<forall>w bs. fst (write_all E w bs) = Ok ()" and fl: "\<forall>w. fst (flush E w) = Ok ()"
  shows "writes_succeed E (writes_v1_for mg)"
proof -
  have "fst (v1_writer_write E v m) = Ok ()" for v m
  proof -
    obtain w' where "write_all E (v1w_writer v) (raw_serialize E (v1w_magic v, m)) = (Ok (), w')"
      using wr by (metis prod.collapse)
    then show ?thesis
      using fl by (simp add: v1_writer_write_def case_prod_unfold Let_def)
  qed
  then have "fst (transport_writer_write E w m) = Ok ()" if "writes_v1_for mg w" for w m
    using that by (cases w) simp_all
  then show ?thesis by (simp add: writes_succeed_def)
qed

lemma v2_writes_log:
  assumes "packet_sink (protocol_write E) packets"
  shows "writes_log E (sent_packets packets) (\<lambda>m. [v2_serialize E m]) (\<lambda>w. \<not> writer_is_v1 w)"
  unfolding writes_log_def
proof (intro allI impI, elim conjE)
  fix w m w'
  assume wr: "transport_writer_write E w m = (Ok (), w')" and "\<not> writer_is_v1 w"
  then obtain v where w: "w = WriterV2 v" by (cases w) auto
  with wr assms show "\<not> writer_is_v1 w' \<and> sent_packets packets w' = sent_packets packets w @ [v2_serialize E m]"
    by (cases "protocol_write E (v2w_writer v) (v2_serialize E m)")
      (auto simp: v2_writer_write_def packet_sink_def)
qed

lemma v2_writes_succeed:
  assumes wr: "\<forall>w bs. fst (protocol_write E w bs) = Ok ()"
  shows "writes_succeed E (\<lambda>w. \<not> writer_is_v1 w)"
proof -
  have "fst (transport_writer_write E w m) = Ok ()" if "\<not> writer_is_v1 w" for w m
    using that wr by (cases w) (simp_all add: v2_writer_write_def case_prod_unfold Let_def)
  then show ?thesis by (simp add: writes_succeed_def)
qed

lemma silent_writes_log:
  "writes_log E (\<lambda>_. []) (\<lambda>_. []) (\<lambda>_. True)"
  "writes_log E (\<lambda>_. []) (\<lambda>_. []) (\<lambda>w. writer_is_v1 w = b)"
proof -
  have "writer_is_v1 w' = writer_is_v1 w" if "transport_writer_write E w m = (Ok (), w')" for w m w'
    using that by (cases w) (auto simp: map_prod_def split: prod.splits)
  then show "writes_log E (\<lambda>_. []) (\<lambda>_. []) (\<lambda>_. True)"
    "writes_log E (\<lambda>_. []) (\<lambda>_. []) (\<lambda>w. writer_is_v1 w = b)"
    by (auto simp: writes_log_def)
qed

lemma delivers_transport: "delivers E rd ms rd' \<Longrightarrow> reader_is_v1 rd' = reader_is_v1 rd"
proof (induction ms arbitrary: rd)
  case (Cons m ms)
  then obtain rd1 where "transport_reader_read E rd = (Ok m, rd1)" "delivers E rd1 ms rd'"
    by (auto split: prod.splits outcome.splits)
  moreover from this(1) have "reader_is_v1 rd1 = reader_is_v1 rd"
    by (cases rd) (auto simp: map_prod_id_eq)
  ultimately show ?case using Cons.IH by simp
qed simp

lemma v1_delivers:
  assumes src: "byte_source (async_read E) stream"
    and flow: "eventually_delivers (async_read E) stream (\<lambda>_. 0)"
  shows "v1_wf tr \<Longrightarrow> \<forall>m \<in> set ms. well_framed E (v1r_magic tr, m)
    \<Longrightarrow> v1_input stream tr = v1_frames E (v1r_magic tr) ms @ rest
    \<Longrightarrow> \<exists>tr'. delivers E (ReaderV1 tr) ms (ReaderV1 tr') \<and> v1_input stream tr' = rest
      \<and> v1_wf tr' \<and> v1r_magic tr' = v1r_magic tr"
proof (induction ms arbitrary: tr)
  case Nil
  then show ?case by simp
next
  case (Cons m ms)
  from v1_retry_delivers [OF src flow Cons.prems(1), of m 0] Cons.prems(2,3) obtain tr1 where
    "v1_reader_read E tr = (Ok m, tr1)" "v1_input stream tr1 = v1_frames E (v1r_magic tr1) ms @ rest"
    "v1_wf tr1" "v1r_magic tr1 = v1r_magic tr"
    by auto
  with Cons.IH [of tr1] Cons.prems(2) show ?case by auto
qed

section \<open>Negotiated features\<close>

lemma received_features:
  "addr_v2 (foldl note_received st ms) =
     (if SendAddrV2 \<in> set ms then addr_v2_on_receive (addr_v2 st) else addr_v2 st)"
  "send_headers (foldl note_received st ms) =
     (if SendHeaders \<in> set ms then send_headers_on_receive (send_headers st) else send_headers st)"
  "wtxid_relay (foldl note_received st ms) =
     (if WtxidRelay \<in> set ms then wtxid_relay_on_receive (wtxid_relay st) else wtxid_relay st)"
  by (induction ms arbitrary: st)
    (auto simp: note_received_def addr_v2_neg.receive_idem send_headers_neg.receive_idem
      wtxid_relay_neg.receive_idem split: network_message.splits)

lemma negotiated_features:
  assumes "st = learn_state cfg (foldl note_received connection_state_new ms) vm"
  shows "addr_v2 st = addr_v2_state.Enabled \<longleftrightarrow>
      SendAddrV2 \<in> set ms \<and> enable_addrv2 (feature_preferences cfg)
      \<and> ADDRV2_MIN_PROTOCOL_VERSION \<le> effective_with cfg vm"
    and "send_headers st = send_headers_state.Enabled \<longleftrightarrow>
      SendHeaders \<in> set ms \<and> enable_sendheaders (feature_preferences cfg)
      \<and> SENDHEADERS_MIN_PROTOCOL_VERSION \<le> effective_with cfg vm"
    and "wtxid_relay st = wtxid_relay_state.Enabled \<longleftrightarrow>
      WtxidRelay \<in> set ms \<and> enable_wtxidrelay (feature_preferences cfg)
      \<and> WTXID_RELAY_MIN_PROTOCOL_VERSION \<le> effective_with cfg vm"
  unfolding assms learn_state_def note_sent_def negotiation_messages_def
  by (simp_all add: received_features connection_state_new_def addr_v2_on_send_def addr_v2_on_receive_def
      send_headers_on_send_def send_headers_on_receive_def wtxid_relay_on_send_def wtxid_relay_on_receive_def)

section \<open>Interrupted handshakes\<close>

lemma handshake_reaches:
  assumes log: "writes_log E log enc up" and ok: "writes_succeed E up" and up: "up (conn_writer c)"
    and empty: "log (conn_writer c) = []"
    and n: "no_own_nonce (generate_nonce K) ms" and nd: "\<not> handshake_done ms"
    and del: "delivers E (conn_reader c) ms rd1"
  shows "\<exists>state c1. state \<noteq> Complete \<and> conn_reader c1 = rd1
    \<and> perform_handshake E K c = handshake_loop E (generate_nonce K) state c1"
proof -
  let ?a = "hv_of [create_version_message E K c (generate_nonce K)] VersionSent c"
  obtain c1 where c1: "perform_handshake E K c = handshake_loop E (generate_nonce K) VersionSent c1"
    "handshake_sim log enc up ?a VersionSent c1" "conn_reader c1 = conn_reader c"
    "configuration c1 = configuration c"
    using perform_handshake_start [OF log ok up empty] by blast
  have "hv_run (configuration c1) (generate_nonce K) ?a ms = Some (hv_summary (configuration c) ?a ms)"
    using hv_run_summary [of ?a] n not_done_butlast [OF nd] c1(4) by (simp add: hv_of_def)
  from handshake_loop_reaches [OF log ok c1(2) del [folded c1(3)] this] obtain state c2 where
    c2: "handshake_loop E (generate_nonce K) VersionSent c1 = handshake_loop E (generate_nonce K) state c2"
    "handshake_sim log enc up (hv_summary (configuration c) ?a ms) state c2" "conn_reader c2 = rd1"
    by blast
  have "state \<noteq> Complete"
    using c2(2) nd hv_state_summary [of "configuration c" ?a ms]
    by (auto simp: handshake_sim_def hv_of_def dest: arg_cong [of _ _ hv_state])
  with c1(1) c2 show ?thesis by auto
qed

section \<open>Established connections\<close>

lemma finish_handshake_Ok: "finish_handshake r = Some (Ok c) \<longleftrightarrow> r = Some (Ok (), c)"
  by (cases r) (auto simp: finish_handshake_def split: outcome.splits)

text \<open>Both halves of an established connection use the transport it was opened with.\<close>

lemma handshake_keeps_transport:
  assumes "perform_handshake E K c = Some (Ok (), c')"
  shows "reader_is_v1 (conn_reader c') = reader_is_v1 (conn_reader c)"
    and "writer_is_v1 (conn_writer c') = writer_is_v1 (conn_writer c)"
    and "\<exists>v. version (conn_peer c') = KnownVersion v"
  using handshake_sound [OF silent_writes_log(2) refl _ assms] delivers_transport
  by (fastforce simp: handshaken_def)+

lemma connection_new_transport:
  "reader_is_v1 (conn_reader (connection_new q cfg (transport_v1 m r w)))"
  "writer_is_v1 (conn_writer (connection_new q cfg (transport_v1 m r w)))"
  "\<not> reader_is_v1 (conn_reader (connection_new q cfg (transport_v2 v2)))"
  "\<not> writer_is_v1 (conn_writer (connection_new q cfg (transport_v2 v2)))"
  by (simp_all add: connection_new_def transport_v1_def v1_transport_new_def v1_into_split_def
      transport_v2_def v2_transport_new_def v2_into_split_def case_prod_unfold Let_def)

lemma connected_transport:
  assumes "connection_connect E K net p network cfg = Some (Ok c)"
  shows "(reader_is_v1 (conn_reader c) \<longleftrightarrow> writer_is_v1 (conn_writer c))
    \<and> (\<exists>v. version (conn_peer c) = KnownVersion v)
    \<and> (reader_is_v1 (conn_reader c) \<longrightarrow>
         transport_policy cfg = V2Preferred \<and> (\<exists>r w net'. plaintext_route E net network p r w net'))"
proof -
  obtain t net' where t: "tcp_transport_connect E net p network (transport_policy cfg) = (Ok t, net')"
    and hs: "perform_handshake E K (connection_new p cfg t) = Some (Ok (), c)"
    using assms
    by (cases "tcp_transport_connect E net p network (transport_policy cfg)")
      (auto simp: connection_connect_def finish_handshake_Ok split: outcome.splits)
  note h = handshake_keeps_transport [OF hs]
  from t show ?thesis
    by (cases rule: connect_transport_cases) (use h in \<open>auto simp: connection_new_transport\<close>)
qed

lemma connect_over_plaintext:
  assumes "plaintext_route E net network p r w net'" and "transport_policy cfg = V2Preferred"
    and "perform_handshake E K (connection_new p cfg (transport_v1 (network_magic E network) r w)) = Some (Ok (), c)"
  shows "connection_connect E K net p network cfg = Some (Ok c)"
proof -
  have "tcp_transport_connect E net p network V2Preferred = (Ok (transport_v1 (network_magic E network) r w), net')"
    using assms(1) by (simp add: connect_plaintext_iff)
  with assms(2,3) show ?thesis by (simp add: connection_connect_def finish_handshake_Ok)
qed

lemma accepted_transport:
  assumes "connection_accept E K st network cfg = Some (Ok c)"
  shows "(reader_is_v1 (conn_reader c) \<longleftrightarrow> writer_is_v1 (conn_writer c))
    \<and> (\<exists>v. version (conn_peer c) = KnownVersion v)
    \<and> (reader_is_v1 (conn_reader c) \<longrightarrow>
         transport_policy cfg = V2Preferred \<and> (\<exists>r w. plaintext_hello E st network r w))"
proof -
  obtain t q where t: "tcp_transport_accept E st network (transport_policy cfg) = Ok (t, q)"
    and hs: "perform_handshake E K (connection_new q cfg t) = Some (Ok (), c)"
    using assms by (auto simp: connection_accept_def finish_handshake_Ok split: outcome.splits prod.splits)
  note h = handshake_keeps_transport [OF hs]
  from t show ?thesis
    by (cases rule: accept_transport_cases) (use h in \<open>auto simp: connection_new_transport\<close>)
qed

text \<open>
  What \<open>accept\<close> does with a stream that starts with the network magic, if the encrypted
  handshake refuses such a stream.
\<close>

lemma accept_plaintext_stream:
  assumes tcp: "configure_tcp_stream E st = Inr st1" "tcp_peer_addr E st1 = Inr remote" "tcp_into_split E st1 = (r, w)"
    and peek: "peek_keeps (fill_buf E) stream" "fill_buf E r = (Ok peeked, r1)"
    and magic: "take 4 (stream r) = network_magic E network"
    and fails: "protocol_new E network Responder r1 w = Err e"
  shows "stream r1 = stream r
    \<and> connection_accept E K st network cfg =
        (if length peeked < 4 then Some (Err (TransportFailed Encryption))
         else (case transport_policy cfg of
                 V2Required \<Rightarrow> Some (Err V2TransportRequired)
               | V2Preferred \<Rightarrow> finish_handshake (perform_handshake E K
                   (connection_new (peer_from_socket_addr remote) cfg (transport_v1 (network_magic E network) r1 w)))))"
proof -
  have "stream r1 = stream r" using peek unfolding peek_keeps_def by blast
  moreover have "tcp_transport_accept E st network (transport_policy cfg) =
      (if length peeked < 4 then Err (TransportFailed Encryption)
       else (case transport_policy cfg of
               V2Required \<Rightarrow> Err V2TransportRequired
             | V2Preferred \<Rightarrow> Ok (transport_v1 (network_magic E network) r1 w, peer_from_socket_addr remote)))"
    using tcp inbound_short_first_segment [OF peek(2), of network w] fails
      inbound_plaintext_detected [OF peek _ magic, of w]
    by (cases "transport_policy cfg") (simp_all add: tcp_transport_accept_def)
  ultimately show ?thesis by (simp add: connection_accept_def split: transport_policy.splits)
qed

section \<open>Examples\<close>

text \<open>A connection over a scripted encrypted session, as the crawler configures it.\<close>

abbreviation packet_env ::
  "(u8 list list, u8 list, u8 list, u8 list, u8 list list, u8 list list) runtime" where
  "packet_env \<equiv> example_env trickle_read (\<lambda>r. r) Pending"

definition example_config :: connection_configuration where
  "example_config = non_listening packet_env (KnownVersion 70016) V2Preferred feature_preferences_default None"

definition example_connection :: "u8 list list \<Rightarrow> (u8 list, u8 list, u8 list list, u8 list list) connection" where
  "example_connection packets =
     connection_new (peer_new (Ipv4 1) 8333) example_config (transport_v2 (packets, []))"

definition example_clock :: clock where
  "example_clock = \<lparr>unix_secs = 1, unix_nanos = 5, process_id = 0\<rparr>"

lemma example_nonce [simp]: "generate_nonce example_clock = 5"
  by (simp add: generate_nonce_def example_clock_def word_rotx_0)

lemma example_connection_sel [simp]:
  "conn_reader (example_connection ps) = ReaderV2 (v2_reader_new ps)"
  "conn_writer (example_connection ps) = WriterV2 (v2_writer_new [])"
  "configuration (example_connection ps) = example_config"
  "conn_peer (example_connection ps) = peer_new (Ipv4 1) 8333"
  "conn_state (example_connection ps) = connection_state_new"
  by (simp_all add: example_connection_def connection_new_def transport_v2_def v2_transport_new_def
      v2_into_split_def v2_reader_new_def v2_writer_new_def)

lemma packet_env_writes:
  "writes_log (example_env rd peek v2) (sent_packets id) (\<lambda>m. [example_v2_serialize m]) (\<lambda>w. \<not> writer_is_v1 w)"
  "writes_succeed (example_env rd peek v2) (\<lambda>w. \<not> writer_is_v1 w)"
  using v2_writes_log [of "example_env rd peek v2" id] v2_writes_succeed [of "example_env rd peek v2"]
  by (simp_all add: packet_sink_def)

lemma packets_deliver:
  "map example_v2_deserialize ps = map Inr ms \<Longrightarrow>
   delivers (example_env rd peek v2) (ReaderV2 (v2_reader_new (ps @ qs))) ms (ReaderV2 (v2_reader_new qs))"
  by (induction ps arbitrary: ms) (auto simp: v2_reader_read_def v2_reader_new_def)

lemmas example_packets =
  example_v2_deserialize_def handshake_exchange_def handshake_done_def no_own_nonce_def

text \<open>An environment in which the encrypted session is established and the peer shakes hands.\<close>

abbreviation session_env ::
  "(u8 list list, u8 list, u8 list, u8 list, u8 list list, u8 list list) runtime" where
  "session_env \<equiv> example_env trickle_read (\<lambda>r. r) (Ok ([[7, 16, 8, 77], [1]], []))"

lemma example_connect:
  "\<exists>c. connection_connect session_env example_clock [[]] (peer_new (Ipv4 1) 8333) Bitcoin cfg = Some (Ok c)"
proof -
  let ?c = "connection_new (peer_new (Ipv4 1) 8333) cfg (transport_v2 ([[7, 16, 8, 77], [1]], []))
    :: (u8 list, u8 list, u8 list list, u8 list list) connection"
  let ?ms = "[Version (example_version 70016 8 77), Verack]"
  have sel: "conn_reader ?c = ReaderV2 (v2_reader_new [[7, 16, 8, 77], [1]])"
    "conn_writer ?c = WriterV2 (v2_writer_new [])"
    by (simp_all add: connection_new_def transport_v2_def v2_transport_new_def
        v2_into_split_def v2_reader_new_def v2_writer_new_def)
  have del: "delivers session_env (conn_reader ?c) ?ms (ReaderV2 (v2_reader_new []))"
    using packets_deliver [of "[[7, 16, 8, 77], [1]]" ?ms] by (simp add: sel example_v2_deserialize_def)
  have ex: "handshake_exchange (generate_nonce example_clock) ?ms"
    by (simp add: example_packets example_version_def)
  obtain c where "perform_handshake session_env example_clock ?c = Some (Ok (), c)"
    using handshake_complete [OF packet_env_writes _ _ ex _ del] by (auto simp: sel v2_writer_new_def)
  moreover have "fst (tcp_transport_connect session_env [[]] (peer_new (Ipv4 1) 8333) Bitcoin pol)
      = Ok (transport_v2 ([[7, 16, 8, 77], [1]], []))" for pol
    by (simp add: tcp_transport_connect_def negotiate_outbound_transport_def
        establish_tcp_connection_def configure_tcp_stream_def peer_new_def example_env_def)
  ultimately show ?thesis by (auto simp: connection_connect_def finish_handshake_Ok)
qed

section \<open>Properties\<close>

text \<open>
  C7. The handshake completes. If the write side takes every message and the read side
  delivers messages of which none carries the local nonce and whose last is the first to
  bring a version and a verack together, in either order and among any other messages, then
  \<open>perform_handshake\<close> returns, successfully, having read exactly those messages. The peer's
  services and version are those of the first version message, the state records the lower
  of the two protocol versions, and the messages on the wire are, in this order, the local
  version, the features to negotiate at that version and one verack.
\<close>

theorem handshake_completes:
  assumes "writes_log E log enc up" and "writes_succeed E up" and "up (conn_writer c)"
    and "log (conn_writer c) = []"
    and "handshake_exchange (generate_nonce K) ms" and "first_version ms = Some vm"
    and "delivers E (conn_reader c) ms rd'"
  shows "\<exists>c'. perform_handshake E K c = Some (Ok (), c') \<and> conn_reader c' = rd'
    \<and> conn_peer c' = (conn_peer c)\<lparr>services := KnownServices (vm_services vm),
                                    version := KnownVersion (vm_version vm)\<rparr>
    \<and> effective_protocol_version (conn_state c') =
        KnownVersion (min (local_version (configuration c)) (vm_version vm))
    \<and> log (conn_writer c') =
        enc (create_version_message E K c (generate_nonce K))
        @ concat (map enc (negotiation_messages (feature_preferences (configuration c))
                             (min (local_version (configuration c)) (vm_version vm))))
        @ enc Verack"
  using handshake_complete [OF assms]
  by (auto simp: handshaken_def learn_state_def note_sent_def version_reply_def effective_with_def)

theorem handshake_completes_witness:
  "\<exists>c'. perform_handshake packet_env example_clock
      (example_connection [[1], [6, 9], [7, 16, 8, 77], [5]]) = Some (Ok (), c')
    \<and> conn_reader c' = ReaderV2 (v2_reader_new [[5]])
    \<and> effective_protocol_version (conn_state c') = KnownVersion 70016
    \<and> sent_packets id (conn_writer c') = [[7], [2], [3], [4], [1]]"
proof -
  let ?c = "example_connection [[1], [6, 9], [7, 16, 8, 77], [5]]"
  let ?vm = "example_version 70016 8 77"
  have del: "delivers packet_env (conn_reader ?c) [Verack, Ping 9, Version ?vm] (ReaderV2 (v2_reader_new [[5]]))"
    using packets_deliver [of "[[1], [6, 9], [7, 16, 8, 77]]" "[Verack, Ping 9, Version ?vm]" _ _ _ "[[5]]"]
    by (simp add: example_v2_deserialize_def)
  have ex: "handshake_exchange (generate_nonce example_clock) [Verack, Ping 9, Version ?vm]"
    by (simp add: example_packets example_version_def)
  show ?thesis
    using handshake_completes [OF packet_env_writes _ _ ex _ del]
    by (auto simp: v2_writer_new_def negotiation_messages_def example_config_def non_listening_def
        feature_preferences_default_def protocol_versions local_version_def example_version_def
        create_version_message_def example_v2_serialize_def Let_def)
qed

text \<open>
  C8. A handshake that succeeds was earned: the remote side has sent a verack and a version
  message, none of the version messages read carried the local nonce, the handshake stopped
  at the first message that completed it, the peer is described by the first version message
  and keeps its address, and every local message went out exactly once and in order.
\<close>

theorem handshake_success_is_earned:
  assumes "writes_log E log enc up" and "up (conn_writer c)" and "log (conn_writer c) = []"
    and "perform_handshake E K c = Some (Ok (), c')"
  shows "\<exists>ms vm. delivers E (conn_reader c) ms (conn_reader c')
    \<and> Verack \<in> set ms \<and> first_version ms = Some vm
    \<and> (\<forall>v. Version v \<in> set ms \<longrightarrow> vm_nonce v \<noteq> generate_nonce K)
    \<and> \<not> handshake_done (butlast ms)
    \<and> conn_peer c' = (conn_peer c)\<lparr>services := KnownServices (vm_services vm),
                                    version := KnownVersion (vm_version vm)\<rparr>
    \<and> log (conn_writer c') =
        concat (map enc (create_version_message E K c (generate_nonce K)
                         # version_reply (configuration c) vm))"
  using handshake_sound [OF assms]
  by (fastforce simp: handshaken_def handshake_exchange_def handshake_done_def no_own_nonce_def list_all_iff)

theorem handshake_success_is_earned_witness:
  "\<exists>c' ms vm. perform_handshake packet_env example_clock (example_connection [[7, 16, 8, 77], [1]])
        = Some (Ok (), c')
     \<and> Verack \<in> set ms \<and> first_version ms = Some vm \<and> vm_nonce vm \<noteq> 5
     \<and> delivers packet_env (ReaderV2 (v2_reader_new [[7, 16, 8, 77], [1]])) ms (conn_reader c')"
proof -
  let ?c = "example_connection [[7, 16, 8, 77], [1]]"
  let ?ms = "[Version (example_version 70016 8 77), Verack]"
  have del: "delivers packet_env (conn_reader ?c) ?ms (ReaderV2 (v2_reader_new []))"
    using packets_deliver [of "[[7, 16, 8, 77], [1]]" ?ms _ _ _ "[]"] by (simp add: example_v2_deserialize_def)
  have ex: "handshake_exchange (generate_nonce example_clock) ?ms"
    by (simp add: example_packets example_version_def)
  obtain c' where c': "perform_handshake packet_env example_clock ?c = Some (Ok (), c')"
    using handshake_complete [OF packet_env_writes _ _ ex _ del] by (auto simp: v2_writer_new_def)
  from handshake_success_is_earned [OF packet_env_writes(1) _ _ c'] obtain ms vm where
    "delivers packet_env (conn_reader ?c) ms (conn_reader c')" "Verack \<in> set ms"
    "first_version ms = Some vm" "\<forall>v. Version v \<in> set ms \<longrightarrow> vm_nonce v \<noteq> generate_nonce example_clock"
    by (auto simp: v2_writer_new_def)
  with c' first_version_in [of ms vm] show ?thesis by auto
qed

text \<open>
  C18. Feature negotiation. After a successful handshake of a new connection a feature is
  enabled exactly when the remote side announced it before the handshake completed, before
  or after its version message, and the local side announced it too, which it does when the
  configuration asks for the feature and the lower of the two versions supports it.
\<close>

theorem handshake_negotiates_features:
  assumes "conn_state c = connection_state_new" and "perform_handshake E K c = Some (Ok (), c')"
  shows "\<exists>ms vm. delivers E (conn_reader c) ms (conn_reader c') \<and> first_version ms = Some vm
    \<and> (addr_v2 (conn_state c') = addr_v2_state.Enabled \<longleftrightarrow>
         SendAddrV2 \<in> set ms \<and> enable_addrv2 (feature_preferences (configuration c))
         \<and> ADDRV2_MIN_PROTOCOL_VERSION \<le> min (local_version (configuration c)) (vm_version vm))
    \<and> (send_headers (conn_state c') = send_headers_state.Enabled \<longleftrightarrow>
         SendHeaders \<in> set ms \<and> enable_sendheaders (feature_preferences (configuration c))
         \<and> SENDHEADERS_MIN_PROTOCOL_VERSION \<le> min (local_version (configuration c)) (vm_version vm))
    \<and> (wtxid_relay (conn_state c') = wtxid_relay_state.Enabled \<longleftrightarrow>
         WtxidRelay \<in> set ms \<and> enable_wtxidrelay (feature_preferences (configuration c))
         \<and> WTXID_RELAY_MIN_PROTOCOL_VERSION \<le> min (local_version (configuration c)) (vm_version vm))"
proof -
  obtain ms vm where del: "delivers E (conn_reader c) ms (conn_reader c')" and vm: "first_version ms = Some vm"
    and hs: "handshaken E K (\<lambda>_. []) (\<lambda>_. []) c ms vm c'"
    using handshake_sound [OF silent_writes_log(1) _ _ assms(2)] by auto
  have "conn_state c' = learn_state (configuration c) (foldl note_received connection_state_new ms) vm"
    using hs assms(1) by (simp add: handshaken_def)
  from negotiated_features [OF this] del vm show ?thesis
    unfolding effective_with_def by blast
qed

theorem handshake_negotiates_features_witness:
  "\<exists>c' ms (vm :: version_message).
     perform_handshake packet_env example_clock (example_connection [[2], [7, 16, 8, 77], [1]]) = Some (Ok (), c')
     \<and> delivers packet_env (conn_reader (example_connection [[2], [7, 16, 8, 77], [1]])) ms (conn_reader c')
     \<and> (addr_v2 (conn_state c') = addr_v2_state.Enabled \<longleftrightarrow>
         SendAddrV2 \<in> set ms \<and> enable_addrv2 (feature_preferences example_config)
         \<and> ADDRV2_MIN_PROTOCOL_VERSION \<le> min (local_version example_config) (vm_version vm))"
proof -
  let ?c = "example_connection [[2], [7, 16, 8, 77], [1]]"
  let ?ms = "[SendAddrV2, Version (example_version 70016 8 77), Verack]"
  have del: "delivers packet_env (conn_reader ?c) ?ms (ReaderV2 (v2_reader_new []))"
    using packets_deliver [of "[[2], [7, 16, 8, 77], [1]]" ?ms _ _ _ "[]"] by (simp add: example_v2_deserialize_def)
  have ex: "handshake_exchange (generate_nonce example_clock) ?ms"
    by (simp add: example_packets example_version_def)
  obtain c' where c': "perform_handshake packet_env example_clock ?c = Some (Ok (), c')"
    using handshake_complete [OF packet_env_writes _ _ ex _ del] by (auto simp: v2_writer_new_def)
  from handshake_negotiates_features [OF example_connection_sel(5) c'] c' show ?thesis
    unfolding example_connection_sel(3) by blast
qed

text \<open>
  C17. Connection loops are detected: when a version message with the local nonce arrives
  before the handshake is complete, whatever came before it, the handshake ends with
  \<open>ConnectionLoop\<close>.
\<close>

theorem connection_loop_detected:
  assumes "writes_log E log enc up" and "writes_succeed E up" and "up (conn_writer c)"
    and "log (conn_writer c) = []"
    and "no_own_nonce (generate_nonce K) ms" and "\<not> handshake_done ms"
    and "delivers E (conn_reader c) ms rd1"
    and "transport_reader_read E rd1 = (Ok (Version vm), rd2)" and "vm_nonce vm = generate_nonce K"
  shows "\<exists>c'. perform_handshake E K c = Some (Err ConnectionLoop, c')"
proof -
  obtain state c1 where "state \<noteq> Complete" "conn_reader c1 = rd1"
    "perform_handshake E K c = handshake_loop E (generate_nonce K) state c1"
    using handshake_reaches [OF assms(1-7)] by blast
  with assms(8,9) show ?thesis
    by (auto simp: handshake_loop.simps [of E _ state c1] connection_read_eq handshake_message_def
        handle_version_message_def)
qed

theorem connection_loop_detected_witness:
  "\<exists>c'. perform_handshake packet_env example_clock (example_connection [[1], [7, 16, 8, 5]])
     = Some (Err ConnectionLoop, c')"
proof -
  let ?c = "example_connection [[1], [7, 16, 8, 5]]"
  have del: "delivers packet_env (conn_reader ?c) [Verack] (ReaderV2 (v2_reader_new [[7, 16, 8, 5]]))"
    using packets_deliver [of "[[1]]" "[Verack]" _ _ _ "[[7, 16, 8, 5]]"] by (simp add: example_v2_deserialize_def)
  have rd: "transport_reader_read packet_env (ReaderV2 (v2_reader_new [[7, 16, 8, 5]]))
      = (Ok (Version (example_version 70016 8 5)), ReaderV2 (v2_reader_new []))"
    by (simp add: v2_reader_read_def v2_reader_new_def example_v2_deserialize_def)
  show ?thesis
    using connection_loop_detected [OF packet_env_writes _ _ _ _ del rd, of example_clock]
    by (simp add: v2_writer_new_def example_packets example_version_def)
qed

text \<open>
  C29. A handshake that cannot finish reports why. When the transport fails before the
  remote side has sent both a version and a verack, the handshake returns that error; when
  it has to wait, the handshake waits, and has not returned success.
\<close>

theorem handshake_interrupted:
  assumes "writes_log E log enc up" and "writes_succeed E up" and "up (conn_writer c)"
    and "log (conn_writer c) = []"
    and "no_own_nonce (generate_nonce K) ms" and "\<not> handshake_done ms"
    and "delivers E (conn_reader c) ms rd1"
  shows "(\<forall>e rd2. transport_reader_read E rd1 = (Err e, rd2) \<longrightarrow>
           (\<exists>c'. perform_handshake E K c = Some (Err (TransportFailed e), c')))
    \<and> (\<forall>rd2. transport_reader_read E rd1 = (Pending, rd2) \<longrightarrow>
           (\<exists>c'. perform_handshake E K c = Some (Pending, c')))"
proof -
  obtain state c1 where "state \<noteq> Complete" "conn_reader c1 = rd1"
    "perform_handshake E K c = handshake_loop E (generate_nonce K) state c1"
    using handshake_reaches [OF assms] by blast
  then show ?thesis
    by (auto simp: handshake_loop.simps [of E _ state c1] connection_read_eq)
qed

theorem handshake_interrupted_witness:
  "\<exists>c'. perform_handshake packet_env example_clock (example_connection [[7, 16, 8, 77], [9]])
     = Some (Err (TransportFailed Encryption), c')"
proof -
  let ?c = "example_connection [[7, 16, 8, 77], [9]]"
  let ?ms = "[Version (example_version 70016 8 77)]"
  have del: "delivers packet_env (conn_reader ?c) ?ms (ReaderV2 (v2_reader_new [[9]]))"
    using packets_deliver [of "[[7, 16, 8, 77]]" ?ms _ _ _ "[[9]]"] by (simp add: example_v2_deserialize_def)
  have "transport_reader_read packet_env (ReaderV2 (v2_reader_new [[9]]))
      = (Err Encryption, ReaderV2 (v2_reader_new []))"
    by (simp add: v2_reader_read_def v2_reader_new_def example_v2_deserialize_def)
  with handshake_interrupted [OF packet_env_writes _ _ _ _ del, of example_clock] show ?thesis
    by (simp add: v2_writer_new_def example_packets example_version_def)
qed

text \<open>
  C16. No silent downgrade. A connection that \<open>connect\<close> or \<open>accept\<close> returns has completed its
  handshake, and both its halves use the same transport. It is in plaintext only under
  \<open>V2Preferred\<close>, so that under \<open>V2Required\<close> it is always encrypted; and then only if the peer
  is known not to support encryption, or an encrypted handshake was tried and has failed and a
  second TCP connection was opened, or, for \<open>accept\<close>, if the peer has started with the network
  magic.
\<close>

theorem plaintext_only_as_fallback:
  "(connection_connect E K net p network cfg = Some (Ok c) \<longrightarrow>
      (reader_is_v1 (conn_reader c) \<longleftrightarrow> writer_is_v1 (conn_writer c))
      \<and> (\<exists>v. version (conn_peer c) = KnownVersion v)
      \<and> (reader_is_v1 (conn_reader c) \<longrightarrow>
           transport_policy cfg = V2Preferred \<and> (\<exists>r w net'. plaintext_route E net network p r w net')))
   \<and> (connection_accept E K st network cfg = Some (Ok c) \<longrightarrow>
      (reader_is_v1 (conn_reader c) \<longleftrightarrow> writer_is_v1 (conn_writer c))
      \<and> (\<exists>v. version (conn_peer c) = KnownVersion v)
      \<and> (reader_is_v1 (conn_reader c) \<longrightarrow>
           transport_policy cfg = V2Preferred \<and> (\<exists>r w. plaintext_hello E st network r w)))"
  by (rule conjI; rule impI) (rule connected_transport accepted_transport, assumption)+

theorem plaintext_only_as_fallback_witness:
  "\<exists>c. connection_connect session_env example_clock [[]] (peer_new (Ipv4 1) 8333) Bitcoin
      (example_config\<lparr>transport_policy := V2Required\<rparr>) = Some (Ok c)
    \<and> \<not> reader_is_v1 (conn_reader c) \<and> \<not> writer_is_v1 (conn_writer c)"
proof -
  let ?cfg = "example_config\<lparr>transport_policy := V2Required\<rparr>"
  obtain c where "connection_connect session_env example_clock [[]] (peer_new (Ipv4 1) 8333) Bitcoin ?cfg
      = Some (Ok c)" using example_connect by blast
  with plaintext_only_as_fallback [of session_env example_clock "[[]]" "peer_new (Ipv4 1) 8333" Bitcoin ?cfg c]
  show ?thesis by auto
qed

text \<open>
  C30. What becomes of a plaintext peer that connects to us depends on how the network cuts its
  first bytes. If the stream starts with the network magic and the first fill of the buffer
  shows at least four bytes, the policy decides: it is refused with \<open>V2TransportRequired\<close>, or
  the handshake is performed over a plaintext transport that reads the stream from its
  beginning, so the bytes that were peeked at are not lost. If the first fill shows fewer than
  four bytes, the same stream is handed to the encrypted handshake, whatever the policy, and
  when that fails \<open>accept\<close> fails with an encryption error.
\<close>

theorem accept_plaintext_peer:
  assumes "configure_tcp_stream E st = Inr st1" and "tcp_peer_addr E st1 = Inr remote"
    and "tcp_into_split E st1 = (r, w)"
    and "peek_keeps (fill_buf E) stream" and "fill_buf E r = (Ok peeked, r1)"
    and "take 4 (stream r) = network_magic E network"
    and "protocol_new E network Responder r1 w = Err e"
  shows "stream r1 = stream r
    \<and> connection_accept E K st network cfg =
        (if length peeked < 4 then Some (Err (TransportFailed Encryption))
         else (case transport_policy cfg of
                 V2Required \<Rightarrow> Some (Err V2TransportRequired)
               | V2Preferred \<Rightarrow> finish_handshake (perform_handshake E K
                   (connection_new (peer_from_socket_addr remote) cfg (transport_v1 (network_magic E network) r1 w)))))"
  by (rule accept_plaintext_stream [OF assms])

theorem accept_plaintext_peer_witness:
  "connection_accept (example_env trickle_read (take 3) (Err ())) example_clock (example_magic @ [1, 2]) Bitcoin
     example_config = Some (Err (TransportFailed Encryption))
   \<and> connection_accept (example_env trickle_read (take 5) (Err ())) example_clock (example_magic @ [1, 2]) Bitcoin
     (example_config\<lparr>transport_policy := V2Required\<rparr>) = Some (Err V2TransportRequired)"
proof -
  let ?s = "example_magic @ [1, 2]" and ?E = "\<lambda>n. example_env trickle_read (take n) (Err ())"
  have tcp: "configure_tcp_stream (?E n) ?s = Inr ?s"
    "tcp_peer_addr (?E n) ?s = Inr \<lparr>sock_ip = V4 0x7F000001, sock_port = 8333\<rparr>"
    "tcp_into_split (?E n) ?s = (?s, [])" "fill_buf (?E n) ?s = (Ok (take n ?s), ?s)"
    "peek_keeps (fill_buf (?E n)) (\<lambda>r. r)" "take 4 ?s = network_magic (?E n) Bitcoin"
    "protocol_new (?E n) Bitcoin Responder ?s [] = Err ()" for n
    by (simp_all add: configure_tcp_stream_def example_env_def peek_keeps_def example_magic_def min_def)
  note A = accept_plaintext_peer [OF tcp(1-3) tcp(5,4,6,7)]
  from A [of 3 example_clock example_config] A [of 5 example_clock "example_config\<lparr>transport_policy := V2Required\<rparr>"]
  show ?thesis by (simp add: example_magic_def)
qed

text \<open>
  Splitting a connection changes nothing: reading and writing through its halves gives
  the results of the whole connection, the reading half takes the negotiation state along
  and updates it, and both halves describe the same peer.
\<close>

lemma split_connection_equivalent:
  "(let (cr, cw) = connection_into_split c; (res, cr') = connection_reader_read E cr
    in fst (connection_read E c) = res
       \<and> connection_into_split (snd (connection_read E c)) = (cr', cw))
   \<and> (let (cr, cw) = connection_into_split c; (res, cw') = connection_writer_write E cw m
      in fst (connection_write E c m) = res
         \<and> connection_into_split (snd (connection_write E c m)) = (cr, cw'))
   \<and> cr_peer (fst (connection_into_split c)) = cw_peer (snd (connection_into_split c))"
  by (auto simp: connection_into_split_def connection_read_def connection_write_def
      connection_reader_read_def connection_writer_write_def and_then_def
      split: prod.splits outcome.splits)

text \<open>
  Nonces. Within one process two nonces are equal only if the clock shows the same
  nanosecond modulo \<open>2 ^ 64\<close>, and at the same nanosecond different processes draw different
  nonces.
\<close>

lemma generate_nonce_distinguishes:
  "(process_id K = process_id K' \<longrightarrow>
      (generate_nonce K = generate_nonce K' \<longleftrightarrow> unix_nanos K mod 2 ^ 64 = unix_nanos K' mod 2 ^ 64))
   \<and> (unix_nanos K = unix_nanos K' \<longrightarrow>
      (generate_nonce K = generate_nonce K' \<longleftrightarrow> process_id K = process_id K'))"
proof -
  have xor_cancel: "xor a b = xor a d \<longleftrightarrow> b = d" "xor b a = xor d a \<longleftrightarrow> b = d" for a b d :: u64
    by (metis bit.xor_left_self, metis bit.xor_left_self xor.commute)
  have "(word_of_nat m :: u64) = word_of_nat n \<longleftrightarrow> m mod 2 ^ 64 = n mod 2 ^ 64" for m n
    by (simp add: word_of_nat_eq_iff take_bit_eq_mod)
  moreover have "word_rotl 32 a = word_rotl 32 b \<longleftrightarrow> a = b" for a b :: u64
    by (metis word_rot_lr)
  moreover have "ucast (ucast a :: u64) = a" for a :: u32
    by (rule bit_word_eqI) (simp add: bit_simps)
  then have "(ucast a :: u64) = ucast b \<longleftrightarrow> a = b" for a b :: u32
    by metis
  ultimately show ?thesis
    by (simp add: generate_nonce_def Let_def xor_cancel)
qed

end
