(* ===== verification/Two_Peers.thy ===== *)
theory Two_Peers
  imports Connection_Properties
begin

text \<open>
  Two sides that both run this code and shake hands with each other. A turn of the loop of
  \<^verbatim>\<open>perform_handshake\<close> is a step; the turns of the two sides interleave, and a side can
  take a turn only when the other one has already written the message that the turn reads.
\<close>

section \<open>Turns of a handshake\<close>

inductive handshake_turn ::
  "('net, 'st, 'r, 'w, 'pr, 'pw) runtime \<Rightarrow> u64 \<Rightarrow> handshake_state \<times> ('r, 'w, 'pr, 'pw) connection
   \<Rightarrow> handshake_state \<times> ('r, 'w, 'pr, 'pw) connection \<Rightarrow> bool" for E nonce where
  turn: "state \<noteq> Complete \<Longrightarrow> connection_read E c = (Ok message, c1)
    \<Longrightarrow> handshake_message E nonce state message c1 = (Ok state', c2)
    \<Longrightarrow> handshake_turn E nonce (state, c) (state', c2)"

inductive_cases handshake_turn_elim: "handshake_turn E nonce (state, c) b"

lemma handshake_turn_loop:
  assumes "handshake_turn E nonce (state, c) (state', c')"
  shows "handshake_loop E nonce state c = handshake_loop E nonce state' c'"
  using assms by (elim handshake_turn_elim) (simp add: handshake_loop.simps [of E nonce state c])

text \<open>
  A side that has to read \<open>ms\<close> and has read the first \<open>i\<close> of them; \<open>own\<close> is its version
  message.
\<close>

definition side_at ::
  "('net, 'st, 'r, 'w, 'pr, 'pw) runtime \<Rightarrow> (('w, 'pw) transport_writer \<Rightarrow> 'b list)
   \<Rightarrow> (network_message \<Rightarrow> 'b list) \<Rightarrow> (('w, 'pw) transport_writer \<Rightarrow> bool)
   \<Rightarrow> ('r, 'w, 'pr, 'pw) connection \<Rightarrow> version_message \<Rightarrow> network_message list \<Rightarrow> ('r, 'pr) transport_reader
   \<Rightarrow> nat \<Rightarrow> handshake_state \<times> ('r, 'w, 'pr, 'pw) connection \<Rightarrow> bool" where
  "side_at E log enc up c own ms rd i a \<longleftrightarrow>
     i \<le> length ms \<and> configuration (snd a) = configuration c
     \<and> handshake_sim log enc up (hv_summary (configuration c) (hv_of [Version own] VersionSent c) (take i ms))
         (fst a) (snd a)
     \<and> delivers E (conn_reader (snd a)) (drop i ms) rd"

lemma side_start:
  assumes "writes_log E log enc up" and "up (conn_writer c)" and "log (conn_writer c) = []"
    and "connection_write E c (Version own) = (Ok (), c1)" and "delivers E (conn_reader c) ms rd"
  shows "side_at E log enc up c own ms rd 0 (VersionSent, c1)"
  using assms writes_logD [OF assms(1) _ assms(2)]
  by (auto simp: side_at_def connection_write_Ok handshake_sim_def hv_summary_def hv_of_def)

lemma side_complete:
  assumes "side_at E log enc up c own ms rd i a"
  shows "fst a = Complete \<longleftrightarrow> handshake_done (take i ms)"
  using assms hv_state_summary [of "configuration c" "hv_of [Version own] VersionSent c" "take i ms"]
  by (auto simp: side_at_def handshake_sim_def hv_of_def dest: arg_cong [of _ _ hv_state])

lemma side_log:
  assumes "side_at E log enc up c own ms rd i a"
  shows "log (conn_writer (snd a)) =
     (case first_version (take i ms) of
        None \<Rightarrow> enc (Version own)
      | Some vm \<Rightarrow> concat (map enc (Version own # version_reply (configuration c) vm)))"
  using assms by (auto simp: side_at_def handshake_sim_def hv_summary_def hv_of_def Let_def split: option.splits)

lemma side_turn:
  assumes log: "writes_log E log enc up" and at: "side_at E log enc up c own ms rd i (state, c1)"
    and turn: "handshake_turn E n (state, c1) b" and i: "i < length ms"
  shows "side_at E log enc up c own ms rd (Suc i) b"
proof -
  let ?a = "hv_of [Version own] VersionSent c"
  have sim: "handshake_sim log enc up (hv_summary (configuration c) ?a (take i ms)) state c1"
    and cfg: "configuration c1 = configuration c"
    and del: "delivers E (conn_reader c1) (ms ! i # drop (Suc i) ms) rd"
    using at i by (auto simp: side_at_def Cons_nth_drop_Suc)
  obtain m c2 state' c3 where b: "b = (state', c3)" and nc: "state \<noteq> Complete"
    and rd: "connection_read E c1 = (Ok m, c2)" and hm: "handshake_message E n state m c2 = (Ok state', c3)"
    using turn by (elim handshake_turn_elim) auto
  have m: "m = ms ! i" and del': "delivers E (conn_reader c2) (drop (Suc i) ms) rd"
    using del rd by (auto simp: connection_read_eq split: prod.splits outcome.splits)
  obtain v where v: "hv_step (configuration c) n (hv_summary (configuration c) ?a (take i ms)) m = Inr v"
    and sim': "handshake_sim log enc up v state' c3" and cfg': "configuration c3 = configuration c1"
    and rd': "conn_reader c3 = conn_reader c2"
    using handshake_message_Ok [OF log sim rd hm] cfg by auto
  have "\<not> handshake_done (take i ms)" using side_complete [OF at] nc by simp
  then have "v = hv_summary (configuration c) ?a (take (Suc i) ms)"
    using hv_step_summary [of ?a "take i ms" "configuration c" n m] v i m
    by (auto simp: hv_of_def take_Suc_conv_app_nth split: if_splits)
  with sim' cfg cfg' del' rd' i b show ?thesis by (simp add: side_at_def)
qed

lemma side_can_turn:
  assumes log: "writes_log E log enc up" and ok: "writes_succeed E up"
    and at: "side_at E log enc up c own ms rd i (state, c1)" and i: "i < length ms"
    and nc: "state \<noteq> Complete" and n: "no_own_nonce n ms"
  shows "\<exists>b. handshake_turn E n (state, c1) b"
proof -
  have up: "up (conn_writer c1)" and del: "delivers E (conn_reader c1) (ms ! i # drop (Suc i) ms) rd"
    using at i by (auto simp: side_at_def handshake_sim_def Cons_nth_drop_Suc)
  obtain rd1 where "transport_reader_read E (conn_reader c1) = (Ok (ms ! i), rd1)"
    using del by (auto split: prod.splits outcome.splits)
  then obtain c2 where read: "connection_read E c1 = (Ok (ms ! i), c2)" and w: "conn_writer c2 = conn_writer c1"
    by (auto simp: connection_read_eq)
  have "no_own_nonce n [ms ! i]" using n i by (simp add: no_own_nonce_def list_all_length)
  from handshake_message_succeeds [OF log ok _ this, of c2 state] up w obtain state' c3 where
    "handshake_message E n state (ms ! i) c2 = (Ok state', c3)" by auto
  with nc read show ?thesis by (blast intro: handshake_turn.turn)
qed

section \<open>What each side says\<close>

text \<open>A fresh connection whose local version message is \<open>own\<close>.\<close>

definition ready_to_greet ::
  "('net, 'st, 'r, 'w, 'pr, 'pw) runtime \<Rightarrow> (('w, 'pw) transport_writer \<Rightarrow> 'b list)
   \<Rightarrow> (('w, 'pw) transport_writer \<Rightarrow> bool) \<Rightarrow> clock \<Rightarrow> ('r, 'w, 'pr, 'pw) connection
   \<Rightarrow> version_message \<Rightarrow> bool" where
  "ready_to_greet E log up K c own \<longleftrightarrow>
     up (conn_writer c) \<and> log (conn_writer c) = [] \<and> conn_state c = connection_state_new
     \<and> create_version_message E K c (generate_nonce K) = Version own"

text \<open>All that a side writes in a handshake with a side whose version message is \<open>theirs\<close>.\<close>

definition greeting :: "connection_configuration \<Rightarrow> version_message \<Rightarrow> version_message \<Rightarrow> network_message list" where
  "greeting cfg own theirs = Version own # version_reply cfg theirs"

lemma create_version_fields:
  assumes "create_version_message E K c n = Version own"
  shows "vm_nonce own = n" "vm_version own = local_version (configuration c)"
    "vm_services own = config_services (configuration c)"
  using assms by (auto simp: create_version_message_def local_version_def Let_def)

lemma negotiation_messages_plain:
  "Verack \<notin> set (negotiation_messages f v)" "Version vm \<notin> set (negotiation_messages f v)"
  by (auto simp: negotiation_messages_def)

lemma greeting_done: "handshake_done (take i (greeting cfg own theirs)) \<longleftrightarrow> length (greeting cfg own theirs) \<le> i"
proof (cases i)
  case (Suc k)
  have "Verack \<notin> set (take k (negotiation_messages (feature_preferences cfg) (effective_with cfg theirs)))"
    using negotiation_messages_plain set_take_subset by (metis subsetD)
  then show ?thesis
    using Suc by (auto simp: greeting_def version_reply_def handshake_done_def take_Cons')
qed (simp add: handshake_done_def greeting_def)

lemma greeting_nonce: "no_own_nonce n (greeting cfg own theirs) \<longleftrightarrow> vm_nonce own \<noteq> n"
  by (auto simp: greeting_def version_reply_def no_own_nonce_def negotiation_messages_def)

lemma greeting_version [simp]: "first_version (greeting cfg own theirs) = Some own"
  "first_version (take (Suc i) (greeting cfg own theirs)) = Some own"
  by (simp_all add: greeting_def)

lemma greeting_exchange:
  assumes "vm_nonce own \<noteq> n"
  shows "handshake_exchange n (greeting cfg own theirs)"
proof -
  let ?ms = "greeting cfg own theirs"
  have "handshake_done ?ms"
    using greeting_done [of "length ?ms" cfg own theirs] by simp
  moreover have "\<not> handshake_done (butlast ?ms)"
    using greeting_done [of "length ?ms - 1" cfg own theirs]
    unfolding butlast_conv_take by (simp add: greeting_def)
  ultimately show ?thesis
    using assms by (simp add: handshake_exchange_def greeting_nonce)
qed

text \<open>Two ends that agree on the version they speak and on the features they use.\<close>

definition in_agreement :: "connection_state \<Rightarrow> connection_state \<Rightarrow> bool" where
  "in_agreement s t \<longleftrightarrow>
     effective_protocol_version s = effective_protocol_version t
     \<and> (addr_v2 s = addr_v2_state.Enabled \<longleftrightarrow> addr_v2 t = addr_v2_state.Enabled)
     \<and> (send_headers s = send_headers_state.Enabled \<longleftrightarrow> send_headers t = send_headers_state.Enabled)
     \<and> (wtxid_relay s = wtxid_relay_state.Enabled \<longleftrightarrow> wtxid_relay t = wtxid_relay_state.Enabled)"

lemma greeting_features:
  "SendAddrV2 \<in> set (greeting cfg own theirs) \<longleftrightarrow>
     enable_addrv2 (feature_preferences cfg) \<and> ADDRV2_MIN_PROTOCOL_VERSION \<le> effective_with cfg theirs"
  "SendHeaders \<in> set (greeting cfg own theirs) \<longleftrightarrow>
     enable_sendheaders (feature_preferences cfg) \<and> SENDHEADERS_MIN_PROTOCOL_VERSION \<le> effective_with cfg theirs"
  "WtxidRelay \<in> set (greeting cfg own theirs) \<longleftrightarrow>
     enable_wtxidrelay (feature_preferences cfg) \<and> WTXID_RELAY_MIN_PROTOCOL_VERSION \<le> effective_with cfg theirs"
  by (auto simp: greeting_def version_reply_def negotiation_messages_def)

lemma greetings_agree:
  assumes "vm_version u = local_version cfg" and "vm_version v = local_version cfg'"
    and "s = learn_state cfg (foldl note_received connection_state_new (greeting cfg' v u)) v"
    and "t = learn_state cfg' (foldl note_received connection_state_new (greeting cfg u v)) u"
  shows "in_agreement s t"
proof -
  have eff: "effective_with cfg v = effective_with cfg' u"
    using assms(1,2) by (simp add: effective_with_def min.commute)
  have "effective_protocol_version s = effective_protocol_version t"
    using assms(3,4) eff by (simp add: learn_state_def note_sent_def)
  then show ?thesis
    unfolding in_agreement_def negotiated_features [OF assms(3)] negotiated_features [OF assms(4)]
      greeting_features eff
    by blast
qed

section \<open>The dialogue\<close>

text \<open>
  The two sides, the state of whose loops is kept with their connections, and the number of
  messages each has read. A turn that reads message \<open>i\<close> of the other side needs that side to
  have written it.
\<close>

record ('r, 'w, 'pr, 'pw) dialogue =
  near :: "handshake_state \<times> ('r, 'w, 'pr, 'pw) connection"
  near_read :: nat
  far :: "handshake_state \<times> ('r, 'w, 'pr, 'pw) connection"
  far_read :: nat

definition has_written ::
  "(('w, 'pw) transport_writer \<Rightarrow> 'b list) \<Rightarrow> (network_message \<Rightarrow> 'b list) \<Rightarrow> network_message list \<Rightarrow> nat
   \<Rightarrow> handshake_state \<times> ('r, 'w, 'pr, 'pw) connection \<Rightarrow> bool" where
  "has_written log enc ms k a \<longleftrightarrow>
     length (concat (map enc (take k ms))) \<le> length (log (conn_writer (snd a)))"

inductive dialogue_step ::
  "('net, 'st, 'r, 'w, 'pr, 'pw) runtime \<Rightarrow> (('w, 'pw) transport_writer \<Rightarrow> 'b list)
   \<Rightarrow> (network_message \<Rightarrow> 'b list) \<Rightarrow> u64 \<Rightarrow> network_message list \<Rightarrow> u64 \<Rightarrow> network_message list
   \<Rightarrow> ('r, 'w, 'pr, 'pw) dialogue \<Rightarrow> ('r, 'w, 'pr, 'pw) dialogue \<Rightarrow> bool"
  for E log enc n ms n' ms' where
  near: "handshake_turn E n (near d) a \<Longrightarrow> has_written log enc ms' (Suc (near_read d)) (far d)
    \<Longrightarrow> dialogue_step E log enc n ms n' ms' d (d\<lparr>near := a, near_read := Suc (near_read d)\<rparr>)"
| far: "handshake_turn E n' (far d) b \<Longrightarrow> has_written log enc ms (Suc (far_read d)) (near d)
    \<Longrightarrow> dialogue_step E log enc n ms n' ms' d (d\<lparr>far := b, far_read := Suc (far_read d)\<rparr>)"

definition dialogue_start ::
  "('net, 'st, 'r, 'w, 'pr, 'pw) runtime \<Rightarrow> ('r, 'w, 'pr, 'pw) connection \<Rightarrow> version_message
   \<Rightarrow> ('r, 'w, 'pr, 'pw) connection \<Rightarrow> version_message \<Rightarrow> ('r, 'w, 'pr, 'pw) dialogue" where
  "dialogue_start E c own c' own' =
     \<lparr>near = (VersionSent, snd (connection_write E c (Version own))), near_read = 0,
      far = (VersionSent, snd (connection_write E c' (Version own'))), far_read = 0\<rparr>"

text \<open>A side of a dialogue, with the run of \<open>perform_handshake\<close> that it belongs to.\<close>

definition side_of ::
  "('net, 'st, 'r, 'w, 'pr, 'pw) runtime \<Rightarrow> (('w, 'pw) transport_writer \<Rightarrow> 'b list)
   \<Rightarrow> (network_message \<Rightarrow> 'b list) \<Rightarrow> (('w, 'pw) transport_writer \<Rightarrow> bool) \<Rightarrow> clock
   \<Rightarrow> ('r, 'w, 'pr, 'pw) connection \<Rightarrow> version_message \<Rightarrow> network_message list \<Rightarrow> ('r, 'pr) transport_reader
   \<Rightarrow> nat \<Rightarrow> handshake_state \<times> ('r, 'w, 'pr, 'pw) connection \<Rightarrow> bool" where
  "side_of E log enc up K c own ms rd i a \<longleftrightarrow>
     side_at E log enc up c own ms rd i a
     \<and> perform_handshake E K c = handshake_loop E (generate_nonce K) (fst a) (snd a)"

lemma side_of_start:
  assumes "writes_log E log enc up" and "writes_succeed E up" and "ready_to_greet E log up K c own"
    and "delivers E (conn_reader c) ms rd"
  shows "side_of E log enc up K c own ms rd 0 (VersionSent, snd (connection_write E c (Version own)))"
proof -
  have c: "up (conn_writer c)" "log (conn_writer c) = []"
    "create_version_message E K c (generate_nonce K) = Version own"
    using assms(3) by (simp_all add: ready_to_greet_def)
  obtain c1 where "connection_write E c (Version own) = (Ok (), c1)"
    using writes_succeedD [OF assms(2) c(1), of "Version own"] by (auto simp: connection_write_Ok)
  with side_start [OF assms(1) c(1,2) this assms(4)] c(3) show ?thesis
    by (simp add: side_of_def perform_handshake_def Let_def)
qed

lemma side_of_done:
  assumes "side_of E log enc up K c own (greeting cfg v u) rd i a"
  shows "fst a = Complete \<longleftrightarrow> i = length (greeting cfg v u)" "i \<le> length (greeting cfg v u)"
proof -
  have at: "side_at E log enc up c own (greeting cfg v u) rd i a" using assms by (simp add: side_of_def)
  then show "i \<le> length (greeting cfg v u)" by (simp add: side_at_def)
  with side_complete [OF at] greeting_done [of i cfg v u]
  show "fst a = Complete \<longleftrightarrow> i = length (greeting cfg v u)" by linarith
qed

lemma side_of_turn:
  assumes "writes_log E log enc up" and at: "side_of E log enc up K c own (greeting cfg v u) rd i a"
    and "handshake_turn E (generate_nonce K) a b"
  shows "side_of E log enc up K c own (greeting cfg v u) rd (Suc i) b"
proof -
  obtain state c1 state' c2 where ab: "a = (state, c1)" "b = (state', c2)" by (metis prod.collapse)
  then have "state \<noteq> Complete" using assms(3) by (auto elim: handshake_turn_elim)
  then have "i < length (greeting cfg v u)"
    using side_of_done [OF at] ab by simp
  then show ?thesis
    using side_turn [OF assms(1), of c own "greeting cfg v u" rd i state c1 _ b] handshake_turn_loop at assms(3) ab
    by (fastforce simp: side_of_def)
qed

lemma side_of_written:
  assumes "side_of E log enc up K c own ms rd i a" and "k \<le> 1 \<or> first_version (take i ms) = Some theirs"
  shows "has_written log enc (greeting (configuration c) own theirs) k a"
proof -
  have l: "log (conn_writer (snd a)) =
     (case first_version (take i ms) of
        None \<Rightarrow> enc (Version own)
      | Some vm \<Rightarrow> concat (map enc (greeting (configuration c) own vm)))"
    using side_log [of E log enc up c own ms rd i a] assms(1)
    by (simp add: side_of_def greeting_def split: option.splits)
  have "length (concat (map enc (take k xs))) \<le> length (concat (map enc xs))" for xs
    using append_take_drop_id [of k xs] by (metis concat_append le_add1 length_append map_append)
  moreover have "length (concat (map enc (take k (greeting (configuration c) own theirs)))) \<le> length (enc (Version own))"
    if "k \<le> 1"
    using that by (cases k) (simp_all add: greeting_def)
  moreover have "length (enc (Version own)) \<le> length (log (conn_writer (snd a)))"
    unfolding l by (simp add: greeting_def split: option.splits)
  ultimately show ?thesis
    using assms(2) l by (fastforce simp: has_written_def)
qed

lemma side_of_completed:
  assumes "side_of E log enc up K c own (greeting cfg v u) rd i a" and "ready_to_greet E log up K c own"
    and "fst a = Complete"
  shows "perform_handshake E K c = Some (Ok (), snd a)" "conn_reader (snd a) = rd"
    "handshaken E K log enc c (greeting cfg v u) v (snd a)"
proof -
  have at: "side_at E log enc up c own (greeting cfg v u) rd i a"
    and loop: "perform_handshake E K c = handshake_loop E (generate_nonce K) (fst a) (snd a)"
    using assms(1) by (simp_all add: side_of_def)
  then show "perform_handshake E K c = Some (Ok (), snd a)"
    using assms(3) by (simp add: handshake_loop.simps [of _ _ Complete])
  have i: "i = length (greeting cfg v u)"
    using side_of_done(1) [OF assms(1)] assms(3) by simp
  then show "conn_reader (snd a) = rd" using at by (simp add: side_at_def)
  show "handshaken E K log enc c (greeting cfg v u) v (snd a)"
    using at i assms(2,3) handshaken_of_sim [of log enc up c E K "greeting cfg v u" "snd a" v]
    by (simp add: side_at_def ready_to_greet_def)
qed

text \<open>The two sides and how far they are.\<close>

definition dialogue_inv ::
  "('net, 'st, 'r, 'w, 'pr, 'pw) runtime \<Rightarrow> (('w, 'pw) transport_writer \<Rightarrow> 'b list)
   \<Rightarrow> (network_message \<Rightarrow> 'b list) \<Rightarrow> (('w, 'pw) transport_writer \<Rightarrow> bool)
   \<Rightarrow> clock \<Rightarrow> ('r, 'w, 'pr, 'pw) connection \<Rightarrow> version_message \<Rightarrow> ('r, 'pr) transport_reader
   \<Rightarrow> clock \<Rightarrow> ('r, 'w, 'pr, 'pw) connection \<Rightarrow> version_message \<Rightarrow> ('r, 'pr) transport_reader
   \<Rightarrow> nat \<Rightarrow> ('r, 'w, 'pr, 'pw) dialogue \<Rightarrow> bool" where
  "dialogue_inv E log enc up K c v rd K' c' v' rd' k d \<longleftrightarrow>
     side_of E log enc up K c v (greeting (configuration c') v' v) rd (near_read d) (near d)
     \<and> side_of E log enc up K' c' v' (greeting (configuration c) v v') rd' (far_read d) (far d)
     \<and> near_read d + far_read d = k"

lemma dialogue_inv_start:
  assumes "writes_log E log enc up" and "writes_succeed E up"
    and "ready_to_greet E log up K c v" and "ready_to_greet E log up K' c' v'"
    and "delivers E (conn_reader c) (greeting (configuration c') v' v) rd"
    and "delivers E (conn_reader c') (greeting (configuration c) v v') rd'"
  shows "dialogue_inv E log enc up K c v rd K' c' v' rd' 0 (dialogue_start E c v c' v')"
  using side_of_start [OF assms(1,2,3,5)] side_of_start [OF assms(1,2,4,6)]
  by (simp add: dialogue_inv_def dialogue_start_def)

lemma dialogue_inv_step:
  assumes "writes_log E log enc up" and "dialogue_inv E log enc up K c v rd K' c' v' rd' k d"
    and "dialogue_step E log enc (generate_nonce K) ms (generate_nonce K') ms' d d'"
  shows "dialogue_inv E log enc up K c v rd K' c' v' rd' (Suc k) d'"
  using assms(3,2)
  by (cases rule: dialogue_step.cases) (auto simp: dialogue_inv_def dest: side_of_turn [OF assms(1)])

lemma dialogue_inv_run:
  assumes "writes_log E log enc up" and "dialogue_inv E log enc up K c v rd K' c' v' rd' 0 d"
    and "(dialogue_step E log enc (generate_nonce K) ms (generate_nonce K') ms' ^^ k) d d'"
  shows "dialogue_inv E log enc up K c v rd K' c' v' rd' k d'"
  using assms(3)
proof (induction k arbitrary: d')
  case 0
  then show ?case using assms(2) by simp
next
  case (Suc k)
  then show ?case using dialogue_inv_step [OF assms(1)] by (blast elim: relpowp_Suc_E)
qed

text \<open>A side that is not done can go on when the other side has written what it reads next.\<close>

lemma side_of_can_turn:
  assumes "writes_log E log enc up" and "writes_succeed E up"
    and at: "side_of E log enc up K c own (greeting cfg v u) rd i a" and nc: "fst a \<noteq> Complete"
    and n: "vm_nonce v \<noteq> generate_nonce K"
  shows "\<exists>b. handshake_turn E (generate_nonce K) a b"
proof -
  have "side_at E log enc up c own (greeting cfg v u) rd i (fst a, snd a)"
    using at by (simp add: side_of_def)
  moreover have "i < length (greeting cfg v u)"
    using side_of_done [OF at] nc by simp
  ultimately show ?thesis
    using side_can_turn [OF assms(1,2) _ _ nc, of c own "greeting cfg v u" rd i "snd a"] n
    by (simp add: greeting_nonce)
qed

lemma dialogue_progress:
  assumes log: "writes_log E log enc up" and ok: "writes_succeed E up"
    and inv: "dialogue_inv E log enc up K c v rd K' c' v' rd' k d"
    and n: "vm_nonce v' \<noteq> generate_nonce K" "vm_nonce v \<noteq> generate_nonce K'"
    and busy: "fst (near d) \<noteq> Complete \<or> fst (far d) \<noteq> Complete"
  shows "\<exists>d'. dialogue_step E log enc (generate_nonce K) (greeting (configuration c) v v')
    (generate_nonce K') (greeting (configuration c') v' v) d d'"
proof -
  let ?ms = "greeting (configuration c) v v'" and ?ms' = "greeting (configuration c') v' v"
  have near: "side_of E log enc up K c v ?ms' rd (near_read d) (near d)"
    and far: "side_of E log enc up K' c' v' ?ms rd' (far_read d) (far d)"
    using inv by (simp_all add: dialogue_inv_def)
  have fresh: "fst a \<noteq> Complete" if "side_of E log enc up H e w (greeting cfg x y) r 0 a" for H e w cfg x y r a
    using side_of_done(1) [OF that] by (simp add: greeting_def)
  have seen: "first_version (take i (greeting cfg x y)) = Some x" if "i \<noteq> 0" for i cfg x y
    using that by (cases i) simp_all
  consider "fst (near d) \<noteq> Complete" "near_read d = 0 \<or> far_read d \<noteq> 0"
    | "fst (far d) \<noteq> Complete" "far_read d = 0 \<or> near_read d \<noteq> 0"
    using busy fresh near far by (metis (no_types))
  then show ?thesis
  proof cases
    case 1
    then have "has_written log enc ?ms' (Suc (near_read d)) (far d)"
      using side_of_written [OF far, of "Suc (near_read d)" v] seen by fastforce
    with side_of_can_turn [OF log ok near 1(1) n(1)] show ?thesis by (blast intro: dialogue_step.near)
  next
    case 2
    then have "has_written log enc ?ms (Suc (far_read d)) (near d)"
      using side_of_written [OF near, of "Suc (far_read d)" v'] seen by fastforce
    with side_of_can_turn [OF log ok far 2(1) n(2)] show ?thesis by (blast intro: dialogue_step.far)
  qed
qed

text \<open>What the two ends of a dialogue have when both handshakes are done.\<close>

lemma handshaken_both:
  assumes near: "ready_to_greet E log up K c v" and far: "ready_to_greet E log up K' c' v'"
    and a: "handshaken E K log enc c (greeting (configuration c') v' v) v' a"
    and b: "handshaken E K' log enc c' (greeting (configuration c) v v') v b"
  shows "log (conn_writer a) = concat (map enc (greeting (configuration c) v v'))"
    "log (conn_writer b) = concat (map enc (greeting (configuration c') v' v))"
    "conn_peer a = learn_peer (conn_peer c) v'" "conn_peer b = learn_peer (conn_peer c') v"
    "in_agreement (conn_state a) (conn_state b)"
proof -
  note own = near [unfolded ready_to_greet_def] far [unfolded ready_to_greet_def]
  then show "log (conn_writer a) = concat (map enc (greeting (configuration c) v v'))"
    "log (conn_writer b) = concat (map enc (greeting (configuration c') v' v))"
    "conn_peer a = learn_peer (conn_peer c) v'" "conn_peer b = learn_peer (conn_peer c') v"
    using a b by (simp_all add: handshaken_def greeting_def learn_peer_def)
  show "in_agreement (conn_state a) (conn_state b)"
    using a b own create_version_fields(2) [of E K c "generate_nonce K" v]
      create_version_fields(2) [of E K' c' "generate_nonce K'" v']
    by (intro greetings_agree [of v "configuration c" v' "configuration c'"]) (auto simp: handshaken_def)
qed

section \<open>Properties\<close>

text \<open>
  C5. Two ends that both run this code never wait for each other. Take two fresh connections
  with different nonces whose write sides take every message, over either transport, and let
  each read what the other writes, a message only after it was written. Then in every state
  that the two handshakes reach in any interleaving some side can go on, until both have
  completed; that takes at most one turn for each message. When nobody can go on,
  \<open>perform_handshake\<close> has returned success on both sides, each side has read all that the
  other wrote, each knows the services and the version of the other, and they agree on the
  protocol version and on the features that are enabled.
\<close>

theorem handshakes_never_deadlock:
  assumes log: "writes_log E log enc up" and ok: "writes_succeed E up"
    and near: "ready_to_greet E log up K c v" and far: "ready_to_greet E log up K' c' v'"
    and nonces: "generate_nonce K \<noteq> generate_nonce K'"
    and ms: "ms = greeting (configuration c) v v'" and ms': "ms' = greeting (configuration c') v' v"
    and rd: "delivers E (conn_reader c) ms' rd" and rd': "delivers E (conn_reader c') ms rd'"
    and run: "(dialogue_step E log enc (generate_nonce K) ms (generate_nonce K') ms' ^^ k)
      (dialogue_start E c v c' v') d"
  shows "k \<le> length ms + length ms'
    \<and> ((\<exists>d'. dialogue_step E log enc (generate_nonce K) ms (generate_nonce K') ms' d d')
       \<or> (\<exists>a b. near d = (Complete, a) \<and> far d = (Complete, b)
            \<and> perform_handshake E K c = Some (Ok (), a) \<and> perform_handshake E K' c' = Some (Ok (), b)
            \<and> conn_reader a = rd \<and> conn_reader b = rd'
            \<and> log (conn_writer a) = concat (map enc ms) \<and> log (conn_writer b) = concat (map enc ms')
            \<and> conn_peer a = learn_peer (conn_peer c) v' \<and> conn_peer b = learn_peer (conn_peer c') v
            \<and> in_agreement (conn_state a) (conn_state b)))"
proof -
  have own: "vm_nonce v = generate_nonce K" "vm_nonce v' = generate_nonce K'"
    using near far create_version_fields(1) by (auto simp: ready_to_greet_def)
  have inv: "dialogue_inv E log enc up K c v rd K' c' v' rd' k d"
    by (rule dialogue_inv_run [OF log dialogue_inv_start [OF log ok near far] run])
      (use rd rd' ms ms' in simp_all)
  then have sides: "side_of E log enc up K c v ms' rd (near_read d) (near d)"
    "side_of E log enc up K' c' v' ms rd' (far_read d) (far d)" "near_read d + far_read d = k"
    by (simp_all add: dialogue_inv_def ms ms')
  then have bound: "k \<le> length ms + length ms'" by (simp add: side_of_def side_at_def)
  show ?thesis
  proof (cases "fst (near d) = Complete \<and> fst (far d) = Complete")
    case True
    then obtain a b where ab: "near d = (Complete, a)" "far d = (Complete, b)" by (metis prod.collapse)
    note A = side_of_completed [OF sides(1) [unfolded ms' ab] near, simplified]
    note B = side_of_completed [OF sides(2) [unfolded ms ab] far, simplified]
    from A B handshaken_both [OF near far A(3) B(3)] ab bound show ?thesis
      unfolding ms ms' by blast
  next
    case False
    with dialogue_progress [OF log ok inv] own nonces bound show ?thesis
      unfolding ms ms' by metis
  qed
qed

section \<open>Over plaintext\<close>

lemma v1_connection_parts:
  "conn_reader (connection_new p cfg (transport_v1 mg r w)) = ReaderV1 (v1_reader_new mg r)"
  "conn_writer (connection_new p cfg (transport_v1 mg r w)) = WriterV1 (v1_writer_new mg w)"
  "configuration (connection_new p cfg (transport_v1 mg r w)) = cfg"
  "conn_peer (connection_new p cfg (transport_v1 mg r w)) = p"
  by (simp_all add: connection_new_def transport_v1_def v1_transport_new_def v1_into_split_def)

lemma accept_v1_transport:
  assumes "configure_tcp_stream E st = Inr st1" and "tcp_peer_addr E st1 = Inr remote"
    and "tcp_into_split E st1 = (r, w)" and "fill_buf E r = (Ok peeked, r1)" and "4 \<le> length peeked"
    and "peek_keeps (fill_buf E) stream" and "take 4 (stream r) = network_magic E network"
  shows "tcp_transport_accept E st network V2Preferred =
      Ok (transport_v1 (network_magic E network) r1 w, peer_from_socket_addr remote)"
    and "stream r1 = stream r"
proof -
  note D = inbound_plaintext_detected [OF assms(6,4,5,7), of w]
  then show "tcp_transport_accept E st network V2Preferred =
      Ok (transport_v1 (network_magic E network) r1 w, peer_from_socket_addr remote)"
    using assms(1-3) by (simp add: tcp_transport_accept_def)
  show "stream r1 = stream r" using D by (simp add: v1_transport_new_def)
qed

text \<open>A handshake over a plaintext stream that holds the greeting of the other side.\<close>

lemma v1_greeting_handshake:
  fixes E :: "('net, 'st, 'r, 'w, 'pr, 'pw) runtime"
  assumes sink: "byte_sink (write_all E) (flush E) wire" "\<forall>w bs. fst (write_all E w bs) = Ok ()"
      "\<forall>w. fst (flush E w) = Ok ()" "wire w = []"
    and src: "byte_source (async_read E) stream" "eventually_delivers (async_read E) stream (\<lambda>_. 0)"
    and c: "c = (connection_new p cfg (transport_v1 mg r w) :: ('r, 'w, 'pr, 'pw) connection)"
    and own: "create_version_message E K c (generate_nonce K) = Version v"
    and frames: "\<forall>m \<in> set (greeting cfg' v' v). well_framed E (mg, m)"
      "stream r = v1_frames E mg (greeting cfg' v' v)"
    and nonce: "vm_nonce v' \<noteq> generate_nonce K"
  shows "ready_to_greet E (sent_bytes wire) (writes_v1_for mg) K c v
    \<and> (\<exists>c1 tr. perform_handshake E K c = Some (Ok (), c1) \<and> conn_reader c1 = ReaderV1 tr
         \<and> v1_input stream tr = []
         \<and> handshaken E K (sent_bytes wire) (\<lambda>m. raw_serialize E (mg, m)) c (greeting cfg' v' v) v' c1)"
proof -
  obtain tr where tr: "delivers E (conn_reader c) (greeting cfg' v' v) (ReaderV1 tr)" "v1_input stream tr = []"
    using v1_delivers [OF src, of "v1_reader_new mg r" "greeting cfg' v' v" "[]"] frames c
    by (auto simp: v1_connection_parts)
  have up: "writes_v1_for mg (conn_writer c)" and empty: "sent_bytes wire (conn_writer c) = []"
    using sink(4) c by (simp_all add: v1_connection_parts v1_writer_new_def)
  have "conn_state c = connection_state_new" using c by (simp add: connection_new_def split: prod.splits)
  with up empty own have "ready_to_greet E (sent_bytes wire) (writes_v1_for mg) K c v"
    by (simp add: ready_to_greet_def)
  moreover have "\<exists>c1. perform_handshake E K c = Some (Ok (), c1) \<and> conn_reader c1 = ReaderV1 tr
      \<and> handshaken E K (sent_bytes wire) (\<lambda>m. raw_serialize E (mg, m)) c (greeting cfg' v' v) v' c1"
    using handshake_complete [OF v1_writes_log [OF sink(1)] v1_writes_succeed [OF sink(2,3)] up empty
        greeting_exchange [OF nonce] greeting_version(1) tr(1)] by blast
  ultimately show ?thesis using tr(2) by blast
qed

text \<open>
  A plaintext connection to a peer whose stream holds a handshake and something else: what it
  has learned and written, and what is left for it to read.
\<close>

lemma plaintext_connects:
  fixes E :: "('net, 'st, 'r, 'w, 'pr, 'pw) runtime"
  assumes route: "plaintext_route E net network p r w net1" and policy: "transport_policy cfg = V2Preferred"
    and sink: "byte_sink (write_all E) (flush E) wire" "\<forall>w bs. fst (write_all E w bs) = Ok ()"
      "\<forall>w. fst (flush E w) = Ok ()" "wire w = []"
    and src: "byte_source (async_read E) stream" "eventually_delivers (async_read E) stream (\<lambda>_. 0)"
    and frames: "\<forall>m \<in> set ms. well_framed E (mg, m)" "stream r = v1_frames E mg ms @ rest"
    and mg: "mg = network_magic E network"
    and ex: "handshake_exchange (generate_nonce K) ms" "first_version ms = Some vm"
  shows "\<exists>c tr. connection_connect E K net p network cfg = Some (Ok c)
    \<and> handshaken E K (sent_bytes wire) (\<lambda>m. raw_serialize E (mg, m))
        (connection_new p cfg (transport_v1 mg r w)) ms vm c
    \<and> writes_v1_for mg (conn_writer c)
    \<and> conn_reader c = ReaderV1 tr \<and> v1_input stream tr = rest \<and> v1_wf tr \<and> v1r_magic tr = mg"
proof -
  let ?c = "connection_new p cfg (transport_v1 mg r w) :: ('r, 'w, 'pr, 'pw) connection"
  obtain tr where tr: "delivers E (conn_reader ?c) ms (ReaderV1 tr)" "v1_input stream tr = rest" "v1_wf tr" "v1r_magic tr = mg"
    using v1_delivers [OF src, of "v1_reader_new mg r" ms rest] frames by (auto simp: v1_connection_parts)
  have up: "writes_v1_for mg (conn_writer ?c)" and empty: "sent_bytes wire (conn_writer ?c) = []"
    using sink(4) by (simp_all add: v1_connection_parts v1_writer_new_def)
  note log = v1_writes_log [OF sink(1), of mg]
  obtain c where c: "perform_handshake E K ?c = Some (Ok (), c)" "conn_reader c = ReaderV1 tr"
    "handshaken E K (sent_bytes wire) (\<lambda>m. raw_serialize E (mg, m)) ?c ms vm c"
    using handshake_complete [OF log v1_writes_succeed [OF sink(2,3)] up empty ex tr(1)] by blast
  moreover have "connection_connect E K net p network cfg = Some (Ok c)"
    by (rule connect_over_plaintext [OF route policy c(1) [unfolded mg]])
  moreover have "writes_v1_for mg (conn_writer c)" using handshake_sound [OF log up empty c(1)] by blast
  ultimately show ?thesis using tr by blast
qed

text \<open>
  C2. \<open>connect\<close> meets \<open>accept\<close>. One side reaches the other in plaintext, since it is known not
  to support encryption or after an encrypted handshake has failed, the other accepts the
  stream; both prefer but do not require encryption, their nonces differ, and each reads the
  bytes that a greeting of the other consists of, however they are cut into reads. Then both
  calls return a connection. The bytes that each side has written are exactly those the other
  one reads, so that the exchange is consistent, and nothing is left unread; each side knows
  the services and the version of the other, and they agree on the protocol version and on the
  features that are enabled.
\<close>

theorem peers_connect_to_each_other:
  fixes E :: "('net, 'st, 'r, 'w, 'pr, 'pw) runtime"
  assumes mg_def: "mg = network_magic E network"
    and route: "plaintext_route E net network p r w net1"
    and policy: "transport_policy cfg = V2Preferred" "transport_policy cfg' = V2Preferred"
    and tcp': "configure_tcp_stream E st' = Inr st1'" "tcp_peer_addr E st1' = Inr remote"
      "tcp_into_split E st1' = (r', w')"
    and peek: "fill_buf E r' = (Ok peeked, r1')" "4 \<le> length peeked" "peek_keeps (fill_buf E) stream"
    and sink: "byte_sink (write_all E) (flush E) wire" "\<forall>w bs. fst (write_all E w bs) = Ok ()"
      "\<forall>w. fst (flush E w) = Ok ()" and empty: "wire w = []" "wire w' = []"
    and src: "byte_source (async_read E) stream" "eventually_delivers (async_read E) stream (\<lambda>_. 0)"
    and own: "create_version_message E K (connection_new p cfg (transport_v1 mg r w)) (generate_nonce K) = Version v"
      "create_version_message E K' (connection_new (peer_from_socket_addr remote) cfg' (transport_v1 mg r1' w'))
         (generate_nonce K') = Version v'"
    and nonces: "generate_nonce K \<noteq> generate_nonce K'"
    and frames: "\<forall>m \<in> set (greeting cfg v v') \<union> set (greeting cfg' v' v). well_framed E (mg, m)"
      "take 4 (raw_serialize E (mg, Version v)) = mg"
    and streams: "stream r = v1_frames E mg (greeting cfg' v' v)" "stream r' = v1_frames E mg (greeting cfg v v')"
  shows "\<exists>a b tr tr'. connection_connect E K net p network cfg = Some (Ok a)
    \<and> connection_accept E K' st' network cfg' = Some (Ok b)
    \<and> sent_bytes wire (conn_writer a) = stream r' \<and> sent_bytes wire (conn_writer b) = stream r
    \<and> conn_reader a = ReaderV1 tr \<and> v1_input stream tr = []
    \<and> conn_reader b = ReaderV1 tr' \<and> v1_input stream tr' = []
    \<and> conn_peer a = learn_peer p v' \<and> conn_peer b = learn_peer (peer_from_socket_addr remote) v
    \<and> in_agreement (conn_state a) (conn_state b)"
proof -
  let ?c = "connection_new p cfg (transport_v1 mg r w) :: ('r, 'w, 'pr, 'pw) connection"
  let ?c' = "connection_new (peer_from_socket_addr remote) cfg' (transport_v1 mg r1' w')
    :: ('r, 'w, 'pr, 'pw) connection"
  have "length (raw_serialize E (mg, Version v)) \<ge> 24"
    using frames(1) by (simp add: well_framed_def greeting_def)
  then have "take 4 (stream r') = mg"
    using frames(2) streams(2) by (simp add: greeting_def)
  note acc = accept_v1_transport [OF tcp' peek(1,2,3) this [unfolded mg_def], folded mg_def]
  have fr: "\<forall>m \<in> set (greeting cfg' v' v). well_framed E (mg, m)" "\<forall>m \<in> set (greeting cfg v v'). well_framed E (mg, m)"
    using frames(1) by blast+
  have n: "vm_nonce v' \<noteq> generate_nonce K" "vm_nonce v \<noteq> generate_nonce K'"
    using create_version_fields(1) [OF own(1)] create_version_fields(1) [OF own(2)] nonces by simp_all
  from v1_greeting_handshake [OF sink empty(1) src refl own(1) fr(1) streams(1) n(1)] obtain a tr where
    A: "ready_to_greet E (sent_bytes wire) (writes_v1_for mg) K ?c v" "perform_handshake E K ?c = Some (Ok (), a)"
      "conn_reader a = ReaderV1 tr" "v1_input stream tr = []"
      "handshaken E K (sent_bytes wire) (\<lambda>m. raw_serialize E (mg, m)) ?c (greeting cfg' v' v) v' a" by blast
  from v1_greeting_handshake [OF sink empty(2) src refl own(2) fr(2) streams(2) [folded acc(2)] n(2)] obtain b tr' where
    B: "ready_to_greet E (sent_bytes wire) (writes_v1_for mg) K' ?c' v'" "perform_handshake E K' ?c' = Some (Ok (), b)"
      "conn_reader b = ReaderV1 tr'" "v1_input stream tr' = []"
      "handshaken E K' (sent_bytes wire) (\<lambda>m. raw_serialize E (mg, m)) ?c' (greeting cfg v v') v b" by blast
  have "connection_connect E K net p network cfg = Some (Ok a)"
    by (rule connect_over_plaintext [OF route policy(1) A(2) [unfolded mg_def]])
  moreover have "connection_accept E K' st' network cfg' = Some (Ok b)"
    using acc(1) policy(2) B(2) by (simp add: connection_accept_def finish_handshake_Ok mg_def)
  moreover note handshaken_both [OF A(1) B(1), unfolded v1_connection_parts, OF A(5) B(5)]
  ultimately show ?thesis using A(3,4) B(3,4) streams by auto
qed

section \<open>An example of two ends\<close>

text \<open>
  A codec for the messages of one dialogue: a message is the header with its position in a
  table, without payload.
\<close>

fun position :: "'a \<Rightarrow> 'a list \<Rightarrow> nat" where
  "position x [] = 0"
| "position x (y # ys) = (if x = y then 0 else Suc (position x ys))"

definition table_serialize :: "network_message list \<Rightarrow> magic \<times> network_message \<Rightarrow> u8 list" where
  "table_serialize ts raw = fst raw @ [of_nat (position (snd raw) ts),0,0,0, 0,0,0,0, 0,0,0,0, 0,0,0,0, 0,0,0,0]"

definition table_deserialize :: "network_message list \<Rightarrow> u8 list \<Rightarrow> encode_error + magic \<times> network_message" where
  "table_deserialize ts bs =
     (if length bs = 24 \<and> unat (bs ! 4) < length ts then Inr (take 4 bs, ts ! unat (bs ! 4))
      else Inl ''unknown command'')"

definition other_clock :: clock where
  "other_clock = \<lparr>unix_secs = 1, unix_nanos = 6, process_id = 0\<rparr>"

definition twin_peer :: peer where
  "twin_peer = peer_with_services (Ipv4 1) 8333 1"

definition twin_remote :: peer where
  "twin_remote = peer_from_socket_addr \<lparr>sock_ip = V4 0x7F000001, sock_port = 8333\<rparr>"

text \<open>The version message of a side, as its configuration and its peer determine it.\<close>

definition twin_version :: "clock \<Rightarrow> peer \<Rightarrow> version_message" where
  "twin_version K p =
     (case create_version_message packet_env K
             (connection_new p example_config (transport_v1 example_magic [] [])) (generate_nonce K) of
        Version v \<Rightarrow> v
      | _ \<Rightarrow> example_version 0 0 0)"

definition twin_table :: "network_message list" where
  "twin_table = [Verack, SendAddrV2, SendHeaders, WtxidRelay,
     Version (twin_version example_clock twin_peer), Version (twin_version other_clock twin_remote)]"

definition twin_env :: "(u8 list list, u8 list, u8 list, u8 list, u8 list list, u8 list list) runtime" where
  "twin_env = packet_env\<lparr>raw_serialize := table_serialize twin_table,
                         raw_deserialize := table_deserialize twin_table\<rparr>"

lemma nth_position: "x \<in> set xs \<Longrightarrow> position x xs < length xs \<and> xs ! position x xs = x"
  by (induction xs) auto

lemma table_well_framed:
  assumes "raw_serialize B = table_serialize ts" and "raw_deserialize B = table_deserialize ts"
    and "m \<in> set ts" and "length ts < 256" and "length mg = 4"
  shows "well_framed B (mg, m)"
proof -
  let ?bs = "table_serialize ts (mg, m)"
  have p: "position m ts < length ts" "ts ! position m ts = m" using nth_position [OF assms(3)] by auto
  have len: "length ?bs = 24" and nth: "?bs ! 4 = of_nat (position m ts)" and mg: "take 4 ?bs = mg"
    using assms(5) by (simp_all add: table_serialize_def nth_append)
  have un: "unat (of_nat (position m ts) :: u8) = position m ts"
    using p(1) assms(4) by (simp add: unat_of_nat take_bit_eq_mod)
  have "header_payload_len ?bs = 0"
    using assms(5) by (simp add: table_serialize_def header_payload_len_def u32_from_le_bytes_def nth_append)
  with p len nth mg un show ?thesis
    by (simp add: well_framed_def assms(1,2) table_deserialize_def)
qed

lemma twin_env_sel [simp]:
  "raw_serialize twin_env = table_serialize twin_table" "raw_deserialize twin_env = table_deserialize twin_table"
  "async_read twin_env = trickle_read" "network_magic twin_env network = example_magic"
  "write_all twin_env = (\<lambda>w bs. (Ok (), w @ bs))" "flush twin_env = (\<lambda>w. (Ok (), w))"
  "fill_buf twin_env = (\<lambda>r. (Ok r, r))" "tcp_into_split twin_env = (\<lambda>st. (st, []))"
  "flags_has twin_env = flags_has packet_env" "flag_P2P_V2 twin_env = flag_P2P_V2 packet_env"
  "tcp_peer_addr twin_env st = Inr \<lparr>sock_ip = V4 0x7F000001, sock_port = 8333\<rparr>"
  by (simp_all add: twin_env_def example_env_def)

lemma twin_tcp:
  "establish_tcp_connection twin_env [st] sock = (Ok st, [])" "configure_tcp_stream twin_env st = Inr st"
  by (simp_all add: establish_tcp_connection_def configure_tcp_stream_def twin_env_def example_env_def)

lemma twin_version_message:
  "create_version_message twin_env K (connection_new p example_config (transport_v1 example_magic r w)) n
   = Version (twin_version K p)" if "n = generate_nonce K"
  by (cases "services p")
    (simp_all add: that create_version_message_def twin_version_def v1_connection_parts twin_env_def Let_def)

lemma other_nonce [simp]: "generate_nonce other_clock = 6"
  by (simp add: generate_nonce_def other_clock_def word_rotx_0)

abbreviation twin_greeting :: "network_message list" where
  "twin_greeting \<equiv> greeting example_config (twin_version example_clock twin_peer) (twin_version other_clock twin_remote)"

abbreviation twin_answer :: "network_message list" where
  "twin_answer \<equiv> greeting example_config (twin_version other_clock twin_remote) (twin_version example_clock twin_peer)"

lemma twin_frames: "m \<in> set twin_greeting \<union> set twin_answer \<Longrightarrow> well_framed twin_env (example_magic, m)"
  by (rule table_well_framed [of _ twin_table])
    (auto simp: twin_table_def example_magic_def greeting_def version_reply_def negotiation_messages_def split: if_splits)

lemma twin_sink:
  "byte_sink (write_all twin_env) (flush twin_env) (\<lambda>w. w)" "\<forall>w bs. fst (write_all twin_env w bs) = Ok ()"
  "\<forall>w. fst (flush twin_env w) = Ok ()"
  by (simp_all add: byte_sink_def)

lemma twin_magic: "take 4 (raw_serialize twin_env (example_magic, m)) = example_magic"
  by (simp add: table_serialize_def example_magic_def)

lemma twin_source:
  "byte_source (async_read twin_env) (\<lambda>r. r)" "eventually_delivers (async_read twin_env) (\<lambda>r. r) (\<lambda>_. 0)"
  using trickle_laws by simp_all

lemma twin_peer_facts:
  "address twin_peer = Ipv4 1" "services twin_peer = KnownServices 1"
  "\<not> flags_has packet_env 1 (flag_P2P_V2 packet_env)" "transport_policy example_config = V2Preferred"
  by (simp_all add: twin_peer_def peer_with_services_def example_config_def non_listening_def example_env_def)

lemma twin_route: "plaintext_route twin_env [r] Bitcoin twin_peer r [] []"
  by (auto simp: plaintext_route_def socket_of_def may_support_v2_def twin_tcp twin_peer_facts)

lemma twin_version_nonce: "vm_nonce (twin_version K p) = generate_nonce K"
  using create_version_fields(1) [OF twin_version_message [OF refl, of K p "[]" "[]"]] .

lemma twin_connects:
  "\<exists>c. connection_connect twin_env example_clock [v1_frames twin_env example_magic twin_answer]
     twin_peer Bitcoin example_config = Some (Ok c)"
proof -
  let ?r = "v1_frames twin_env example_magic twin_answer"
  have fr: "\<forall>m \<in> set twin_answer. well_framed twin_env (example_magic, m)" using twin_frames by blast
  have n: "vm_nonce (twin_version other_clock twin_remote) \<noteq> generate_nonce example_clock"
    by (simp add: twin_version_nonce)
  have "\<exists>c. perform_handshake twin_env example_clock
      (connection_new twin_peer example_config (transport_v1 example_magic ?r [])) = Some (Ok (), c)"
    using v1_greeting_handshake [OF twin_sink refl twin_source refl twin_version_message [OF refl] fr refl n] by blast
  then show ?thesis
    using connect_over_plaintext [OF twin_route [of ?r] twin_peer_facts(4), of example_clock] by auto
qed

abbreviation twin_near :: "(u8 list, u8 list, u8 list list, u8 list list) connection" where
  "twin_near \<equiv> connection_new twin_peer example_config
     (transport_v1 example_magic (v1_frames twin_env example_magic twin_answer) [])"

abbreviation twin_far :: "(u8 list, u8 list, u8 list list, u8 list list) connection" where
  "twin_far \<equiv> connection_new twin_remote example_config
     (transport_v1 example_magic (v1_frames twin_env example_magic twin_greeting) [])"

theorem handshakes_never_deadlock_witness:
  "\<exists>d'. dialogue_step twin_env (sent_bytes (\<lambda>w. w)) (\<lambda>m. raw_serialize twin_env (example_magic, m))
     5 twin_greeting 6 twin_answer
     (dialogue_start twin_env twin_near (twin_version example_clock twin_peer)
        twin_far (twin_version other_clock twin_remote)) d'"
proof -
  let ?v = "twin_version example_clock twin_peer" and ?v' = "twin_version other_clock twin_remote"
  let ?log = "sent_bytes (\<lambda>w. w)" and ?up = "writes_v1_for example_magic"
  have n: "vm_nonce ?v' \<noteq> generate_nonce example_clock" "vm_nonce ?v \<noteq> generate_nonce other_clock"
    by (simp_all add: twin_version_nonce)
  have fr: "\<forall>m \<in> set twin_answer. well_framed twin_env (example_magic, m)"
    "\<forall>m \<in> set twin_greeting. well_framed twin_env (example_magic, m)"
    using twin_frames by blast+
  have near: "ready_to_greet twin_env ?log ?up example_clock twin_near ?v"
    by (rule v1_greeting_handshake [OF twin_sink refl twin_source refl
          twin_version_message [OF refl] fr(1) refl n(1), THEN conjunct1])
  have far: "ready_to_greet twin_env ?log ?up other_clock twin_far ?v'"
    by (rule v1_greeting_handshake [OF twin_sink refl twin_source refl
          twin_version_message [OF refl] fr(2) refl n(2), THEN conjunct1])
  obtain rd where rd: "delivers twin_env (conn_reader twin_near) twin_answer rd"
    using v1_delivers [OF twin_source, of "v1_reader_new example_magic (v1_frames twin_env example_magic twin_answer)"
        twin_answer "[]"] fr(1) by (auto simp: v1_connection_parts)
  obtain rd' where rd': "delivers twin_env (conn_reader twin_far) twin_greeting rd'"
    using v1_delivers [OF twin_source, of "v1_reader_new example_magic (v1_frames twin_env example_magic twin_greeting)"
        twin_greeting "[]"] fr(2) by (auto simp: v1_connection_parts)
  have cfg: "twin_greeting = greeting (configuration twin_near) ?v ?v'"
    "twin_answer = greeting (configuration twin_far) ?v' ?v"
    by (simp_all only: v1_connection_parts)
  have n': "generate_nonce example_clock \<noteq> generate_nonce other_clock" by simp
  let ?d = "dialogue_start twin_env twin_near ?v twin_far ?v'"
  note meet = handshakes_never_deadlock [OF v1_writes_log [OF twin_sink(1)] v1_writes_succeed [OF twin_sink(2,3)]
      near far n' cfg rd rd', of 0 ?d, unfolded relpowp.simps, OF refl]
  have "near ?d \<noteq> (Complete, a)" for a by (simp add: dialogue_start_def)
  with meet show ?thesis unfolding example_nonce other_nonce by blast
qed

theorem peers_connect_to_each_other_witness:
  "\<exists>a b. connection_connect twin_env example_clock [v1_frames twin_env example_magic twin_answer]
        twin_peer Bitcoin example_config = Some (Ok a)
    \<and> connection_accept twin_env other_clock (v1_frames twin_env example_magic twin_greeting)
        Bitcoin example_config = Some (Ok b)
    \<and> in_agreement (conn_state a) (conn_state b)"
proof -
  let ?r = "v1_frames twin_env example_magic twin_answer"
  let ?r' = "v1_frames twin_env example_magic twin_greeting"
  have "24 \<le> length (raw_serialize twin_env (example_magic, Version (twin_version example_clock twin_peer)))"
    using twin_frames by (simp add: well_framed_def greeting_def)
  then have len: "4 \<le> length ?r'" by (simp add: greeting_def)
  have "peek_keeps (fill_buf twin_env) (\<lambda>r. r)" by (simp add: peek_keeps_def)
  with len peers_connect_to_each_other [where E = twin_env and network = Bitcoin and p = twin_peer
      and cfg = example_config and cfg' = example_config and net = "[?r]"
      and ?net1.0 = "[]" and r = ?r and w = "[]" and st' = ?r' and ?st1'.0 = ?r' and r' = ?r' and w' = "[]"
      and remote = "\<lparr>sock_ip = V4 0x7F000001, sock_port = 8333\<rparr>" and peeked = ?r' and ?r1'.0 = ?r'
      and stream = "\<lambda>r. r" and wire = "\<lambda>w. w" and K = example_clock and K' = other_clock
      and v = "twin_version example_clock twin_peer" and v' = "twin_version other_clock twin_remote",
      OF refl twin_route _ _ twin_tcp(2) _ _ _ _ _ twin_sink _ _ twin_source]
    twin_version_message twin_frames twin_magic
  show ?thesis
    by (simp add: twin_peer_facts twin_remote_def [symmetric]) blast
qed

end
