(* ===== verification/Encrypted_Peers.thy ===== *)
theory Encrypted_Peers
  imports Two_Peers
begin

text \<open>
  Two ends that run this code over an encrypted transport: \<open>connect\<close> and \<open>accept\<close> of
  \<^verbatim>\<open>connection/src/connection/futures.rs\<close> with the transports that
  \<^verbatim>\<open>connection/src/connection/tcp.rs\<close> selects when the BIP-324 handshake succeeds. The
  established sessions of the \<^verbatim>\<open>bip324\<close> crate are parameters: packets arrive whole and in
  order.
\<close>

section \<open>Reading packets\<close>

text \<open>A reader of an encrypted session: it returns the packets that come in, in order.\<close>

definition packet_source ::
  "('pr \<Rightarrow> (unit, u8 list) outcome \<times> 'pr) \<Rightarrow> ('pr \<Rightarrow> u8 list list) \<Rightarrow> bool" where
  "packet_source rd incoming \<longleftrightarrow>
     (\<forall>r b bs. incoming r = b # bs \<longrightarrow> (\<exists>r'. rd r = (Ok b, r') \<and> incoming r' = bs))"

definition packet_codec :: "('net, 'st, 'r, 'w, 'pr, 'pw) runtime \<Rightarrow> network_message list \<Rightarrow> bool" where
  "packet_codec E ms \<longleftrightarrow> (\<forall>m \<in> set ms. v2_deserialize E (v2_serialize E m) = Inr m)"

lemma v2_delivers:
  assumes "packet_source (protocol_read E) incoming" and "packet_codec E ms"
    and "incoming r = map (v2_serialize E) ms @ rest"
  shows "\<exists>r'. delivers E (ReaderV2 (v2_reader_new r)) ms (ReaderV2 (v2_reader_new r')) \<and> incoming r' = rest"
  using assms(2,3)
proof (induction ms arbitrary: r)
  case Nil
  then show ?case by auto
next
  case (Cons m ms)
  obtain r1 where r1: "protocol_read E r = (Ok (v2_serialize E m), r1)" "incoming r1 = map (v2_serialize E) ms @ rest"
    using assms(1) Cons.prems(2) unfolding packet_source_def by fastforce
  then have "v2_reader_read E (v2_reader_new r) = (Ok m, v2_reader_new r1)"
    using Cons.prems(1) by (simp add: v2_reader_read_def v2_reader_new_def packet_codec_def)
  moreover obtain r' where "delivers E (ReaderV2 (v2_reader_new r1)) ms (ReaderV2 (v2_reader_new r'))" "incoming r' = rest"
    using Cons.IH [OF _ r1(2)] Cons.prems(1) by (auto simp: packet_codec_def)
  ultimately show ?case by auto
qed

lemma v2_connection_parts:
  "conn_reader (connection_new p cfg (transport_v2 (r, w))) = ReaderV2 (v2_reader_new r)"
  "conn_writer (connection_new p cfg (transport_v2 (r, w))) = WriterV2 (v2_writer_new w)"
  "configuration (connection_new p cfg (transport_v2 (r, w))) = cfg"
  "conn_peer (connection_new p cfg (transport_v2 (r, w))) = p"
  "conn_state (connection_new p cfg (transport_v2 (r, w))) = connection_state_new"
  by (simp_all add: connection_new_def transport_v2_def v2_transport_new_def v2_into_split_def
      v2_reader_new_def v2_writer_new_def)

section \<open>The way to an encrypted transport\<close>

definition encrypted_route ::
  "('net, 'st, 'r, 'w, 'pr, 'pw) runtime \<Rightarrow> 'net \<Rightarrow> network \<Rightarrow> peer \<Rightarrow> transport_policy \<Rightarrow> 'pr \<Rightarrow> 'pw \<Rightarrow> bool" where
  "encrypted_route E net network p policy pr pw \<longleftrightarrow>
     (may_support_v2 E p \<or> policy = V2Required)
     \<and> (\<exists>sock st net1 r w. socket_of p = Some sock \<and> establish_tcp_connection E net sock = (Ok st, net1)
          \<and> tcp_into_split E st = (r, w) \<and> protocol_new E network Initiator r w = Ok (pr, pw))"

text \<open>Inbound: the first bytes are not the network magic, and the handshake as responder succeeds.\<close>

definition encrypted_hello ::
  "('net, 'st, 'r, 'w, 'pr, 'pw) runtime \<Rightarrow> 'st \<Rightarrow> network \<Rightarrow> socket_addr \<Rightarrow> 'pr \<Rightarrow> 'pw \<Rightarrow> bool" where
  "encrypted_hello E st network remote pr pw \<longleftrightarrow>
     (\<exists>st1 r w peeked r1. configure_tcp_stream E st = Inr st1 \<and> tcp_peer_addr E st1 = Inr remote
        \<and> tcp_into_split E st1 = (r, w) \<and> fill_buf E r = (Ok peeked, r1)
        \<and> \<not> (4 \<le> length peeked \<and> take 4 peeked = network_magic E network)
        \<and> protocol_new E network Responder r1 w = Ok (pr, pw))"

lemma connect_over_encryption:
  assumes "encrypted_route E net network p (transport_policy cfg) pr pw"
    and "perform_handshake E K (connection_new p cfg (transport_v2 (pr, pw))) = Some (Ok (), c)"
  shows "connection_connect E K net p network cfg = Some (Ok c)"
proof -
  from assms(1) obtain net1 where
    "tcp_transport_connect E net p network (transport_policy cfg) = (Ok (transport_v2 (pr, pw)), net1)"
    by (auto simp: encrypted_route_def tcp_connect_socket negotiate_outbound_Ok)
  with assms(2) show ?thesis by (simp add: connection_connect_def finish_handshake_Ok)
qed

lemma accept_over_encryption:
  assumes "encrypted_hello E st network remote pr pw"
    and "perform_handshake E K (connection_new (peer_from_socket_addr remote) cfg (transport_v2 (pr, pw))) = Some (Ok (), c)"
  shows "connection_accept E K st network cfg = Some (Ok c)"
proof -
  have "tcp_transport_accept E st network (transport_policy cfg) = Ok (transport_v2 (pr, pw), peer_from_socket_addr remote)"
    using assms(1) by (auto simp: encrypted_hello_def tcp_transport_accept_def negotiate_inbound_transport_def)
  with assms(2) show ?thesis by (simp add: connection_accept_def finish_handshake_Ok)
qed

text \<open>A handshake over an encrypted session on which the greeting of the other side comes in.\<close>

lemma v2_greeting_handshake:
  fixes E :: "('net, 'st, 'r, 'w, 'pr, 'pw) runtime"
  assumes sink: "packet_sink (protocol_write E) packets" "\<forall>w bs. fst (protocol_write E w bs) = Ok ()" "packets pw = []"
    and src: "packet_source (protocol_read E) incoming" "packet_codec E (greeting cfg' v' v)"
      "incoming pr = map (v2_serialize E) (greeting cfg' v' v)"
    and c: "c = (connection_new p cfg (transport_v2 (pr, pw)) :: ('r, 'w, 'pr, 'pw) connection)"
    and own: "create_version_message E K c (generate_nonce K) = Version v"
    and nonce: "vm_nonce v' \<noteq> generate_nonce K"
  shows "ready_to_greet E (sent_packets packets) (\<lambda>w. \<not> writer_is_v1 w) K c v
    \<and> (\<exists>c1 pr1. perform_handshake E K c = Some (Ok (), c1) \<and> conn_reader c1 = ReaderV2 (v2_reader_new pr1)
         \<and> incoming pr1 = []
         \<and> handshaken E K (sent_packets packets) (\<lambda>m. [v2_serialize E m]) c (greeting cfg' v' v) v' c1)"
proof -
  obtain pr1 where pr1: "delivers E (conn_reader c) (greeting cfg' v' v) (ReaderV2 (v2_reader_new pr1))" "incoming pr1 = []"
    using v2_delivers [OF src(1,2), of pr "[]"] src(3) c by (auto simp: v2_connection_parts)
  have up: "\<not> writer_is_v1 (conn_writer c)" and empty: "sent_packets packets (conn_writer c) = []"
    using sink(3) c by (simp_all add: v2_connection_parts v2_writer_new_def)
  have "ready_to_greet E (sent_packets packets) (\<lambda>w. \<not> writer_is_v1 w) K c v"
    using up empty own c by (simp add: ready_to_greet_def v2_connection_parts)
  moreover have "\<exists>c1. perform_handshake E K c = Some (Ok (), c1) \<and> conn_reader c1 = ReaderV2 (v2_reader_new pr1)
      \<and> handshaken E K (sent_packets packets) (\<lambda>m. [v2_serialize E m]) c (greeting cfg' v' v) v' c1"
    using handshake_complete [OF v2_writes_log [OF sink(1)] v2_writes_succeed [OF sink(2)] up empty
        greeting_exchange [OF nonce] greeting_version(1) pr1(1)] by blast
  ultimately show ?thesis using pr1(2) by blast
qed

section \<open>Properties\<close>

text \<open>
  C3. \<open>connect\<close> meets \<open>accept\<close> over an encrypted transport. If the BIP-324 handshake succeeds on
  both sides, whatever the policies, the nonces differ and each side's session brings in the
  packets of the other's greeting, then both calls return a connection; both its halves are
  encrypted, the packets that each side has written are exactly those the other one reads, one
  for each message, and none is left unread; each side knows the services and the version of
  the other, and they agree on the protocol version and on the features that are enabled.
\<close>

theorem peers_connect_encrypted:
  fixes E :: "('net, 'st, 'r, 'w, 'pr, 'pw) runtime"
  assumes near: "encrypted_route E net network p (transport_policy cfg) pr pw"
    and far: "encrypted_hello E st network remote pr' pw'"
    and sink: "packet_sink (protocol_write E) packets" "\<forall>w bs. fst (protocol_write E w bs) = Ok ()"
    and empty: "packets pw = []" "packets pw' = []"
    and src: "packet_source (protocol_read E) incoming"
    and own: "create_version_message E K (connection_new p cfg (transport_v2 (pr, pw))) (generate_nonce K) = Version v"
      "create_version_message E K' (connection_new (peer_from_socket_addr remote) cfg' (transport_v2 (pr', pw')))
         (generate_nonce K') = Version v'"
    and nonces: "generate_nonce K \<noteq> generate_nonce K'"
    and codec: "packet_codec E (greeting cfg v v')" "packet_codec E (greeting cfg' v' v)"
    and streams: "incoming pr = map (v2_serialize E) (greeting cfg' v' v)"
      "incoming pr' = map (v2_serialize E) (greeting cfg v v')"
  shows "\<exists>a b pr1 pr1'. connection_connect E K net p network cfg = Some (Ok a)
    \<and> connection_accept E K' st network cfg' = Some (Ok b)
    \<and> sent_packets packets (conn_writer a) = incoming pr' \<and> sent_packets packets (conn_writer b) = incoming pr
    \<and> conn_reader a = ReaderV2 (v2_reader_new pr1) \<and> incoming pr1 = []
    \<and> conn_reader b = ReaderV2 (v2_reader_new pr1') \<and> incoming pr1' = []
    \<and> \<not> writer_is_v1 (conn_writer a) \<and> \<not> writer_is_v1 (conn_writer b)
    \<and> conn_peer a = learn_peer p v' \<and> conn_peer b = learn_peer (peer_from_socket_addr remote) v
    \<and> in_agreement (conn_state a) (conn_state b)"
proof -
  let ?c = "connection_new p cfg (transport_v2 (pr, pw)) :: ('r, 'w, 'pr, 'pw) connection"
  let ?c' = "connection_new (peer_from_socket_addr remote) cfg' (transport_v2 (pr', pw')) :: ('r, 'w, 'pr, 'pw) connection"
  have n: "vm_nonce v' \<noteq> generate_nonce K" "vm_nonce v \<noteq> generate_nonce K'"
    using create_version_fields(1) [OF own(1)] create_version_fields(1) [OF own(2)] nonces by simp_all
  from v2_greeting_handshake [OF sink empty(1) src codec(2) streams(1) refl own(1) n(1)] obtain a pr1 where
    A: "ready_to_greet E (sent_packets packets) (\<lambda>w. \<not> writer_is_v1 w) K ?c v" "perform_handshake E K ?c = Some (Ok (), a)"
      "conn_reader a = ReaderV2 (v2_reader_new pr1)" "incoming pr1 = []"
      "handshaken E K (sent_packets packets) (\<lambda>m. [v2_serialize E m]) ?c (greeting cfg' v' v) v' a" by blast
  from v2_greeting_handshake [OF sink empty(2) src codec(1) streams(2) refl own(2) n(2)] obtain b pr1' where
    B: "ready_to_greet E (sent_packets packets) (\<lambda>w. \<not> writer_is_v1 w) K' ?c' v'" "perform_handshake E K' ?c' = Some (Ok (), b)"
      "conn_reader b = ReaderV2 (v2_reader_new pr1')" "incoming pr1' = []"
      "handshaken E K' (sent_packets packets) (\<lambda>m. [v2_serialize E m]) ?c' (greeting cfg v v') v b" by blast
  have "concat (map (\<lambda>m. [v2_serialize E m]) ms) = map (v2_serialize E) ms" for ms by (induction ms) simp_all
  with handshaken_both [OF A(1) B(1), unfolded v2_connection_parts, OF A(5) B(5)] A(3,4) B(3,4) streams
    connect_over_encryption [OF near A(2)] accept_over_encryption [OF far B(2)]
    handshake_keeps_transport(2) [OF A(2)] handshake_keeps_transport(2) [OF B(2)]
  show ?thesis by (auto simp: connection_new_transport)
qed

text \<open>
  An example of two ends: a packet is the position of its message in a table, and each side's
  session brings in the packets of the other.
\<close>

definition sealed_env :: "(u8 list list, u8 list, u8 list, u8 list, u8 list list, u8 list list) runtime" where
  "sealed_env = packet_env
     \<lparr>v2_serialize := (\<lambda>m. [of_nat (position m twin_table)]),
      v2_deserialize := (\<lambda>bs. if bs \<noteq> [] \<and> unat (hd bs) < length twin_table then Inr (twin_table ! unat (hd bs)) else Inl ()),
      protocol_new := (\<lambda>_ role _ _.
        Ok (map (\<lambda>m. [of_nat (position m twin_table)])
              (case role of Initiator \<Rightarrow> twin_answer | Responder \<Rightarrow> twin_greeting), []))\<rparr>"

lemma sealed_env_sel [simp]:
  "protocol_read sealed_env = example_protocol_read" "protocol_write sealed_env = (\<lambda>w bs. (Ok (), w @ [bs]))"
  "v2_serialize sealed_env m = [of_nat (position m twin_table)]"
  by (simp_all add: sealed_env_def)

lemma sealed_codec: "packet_codec sealed_env twin_greeting" "packet_codec sealed_env twin_answer"
proof -
  have "v2_deserialize sealed_env (v2_serialize sealed_env m) = Inr m" if "m \<in> set twin_table" for m
  proof -
    have p: "position m twin_table < length twin_table" "twin_table ! position m twin_table = m"
      using nth_position [OF that] by auto
    then have "unat (of_nat (position m twin_table) :: u8) = position m twin_table"
      by (simp add: unat_of_nat take_bit_eq_mod twin_table_def)
    with p show ?thesis by (simp add: sealed_env_def)
  qed
  moreover have "set twin_greeting \<subseteq> set twin_table" "set twin_answer \<subseteq> set twin_table"
    by (auto simp: twin_table_def greeting_def version_reply_def negotiation_messages_def split: if_splits)
  ultimately show "packet_codec sealed_env twin_greeting" "packet_codec sealed_env twin_answer"
    by (auto simp: packet_codec_def)
qed

lemma sealed_routes:
  "encrypted_route sealed_env [[]] Bitcoin twin_peer V2Required (map (v2_serialize sealed_env) twin_answer) []"
  "encrypted_hello sealed_env [] Bitcoin \<lparr>sock_ip = V4 0x7F000001, sock_port = 8333\<rparr>
     (map (v2_serialize sealed_env) twin_greeting) []"
  by (simp_all add: encrypted_route_def encrypted_hello_def socket_of_def twin_peer_facts sealed_env_def example_env_def
      establish_tcp_connection_def configure_tcp_stream_def)

lemma sealed_laws:
  "packet_sink (protocol_write sealed_env) id" "packet_source (protocol_read sealed_env) id"
  by (simp_all add: packet_sink_def packet_source_def)

lemma sealed_version_message:
  "create_version_message sealed_env K (connection_new p (example_config\<lparr>transport_policy := pol\<rparr>) (transport_v2 (r, w)))
     (generate_nonce K) = Version (twin_version K p)"
  by (cases "services p")
    (simp_all add: create_version_message_def twin_version_def v1_connection_parts v2_connection_parts sealed_env_def Let_def)

lemma greeting_policy: "greeting (cfg\<lparr>transport_policy := pol\<rparr>) v v' = greeting cfg v v'"
  by (simp add: greeting_def version_reply_def negotiation_messages_def effective_with_def local_version_def)

theorem peers_connect_encrypted_witness:
  "\<exists>a b. connection_connect sealed_env example_clock [[]] twin_peer Bitcoin
        (example_config\<lparr>transport_policy := V2Required\<rparr>) = Some (Ok a)
    \<and> connection_accept sealed_env other_clock [] Bitcoin
        (example_config\<lparr>transport_policy := V2Preferred\<rparr>) = Some (Ok b)
    \<and> \<not> writer_is_v1 (conn_writer a) \<and> in_agreement (conn_state a) (conn_state b)"
proof -
  let ?remote = "\<lparr>sock_ip = V4 0x7F000001, sock_port = 8333\<rparr>"
  have n: "generate_nonce example_clock \<noteq> generate_nonce other_clock" by simp
  have far: "create_version_message sealed_env other_clock
      (connection_new (peer_from_socket_addr ?remote) (example_config\<lparr>transport_policy := V2Preferred\<rparr>)
        (transport_v2 (map (v2_serialize sealed_env) twin_greeting, []))) (generate_nonce other_clock)
    = Version (twin_version other_clock twin_remote)"
    by (simp only: sealed_version_message twin_remote_def)
  from peers_connect_encrypted [where E = sealed_env and net = "[[]]" and pw = "[]" and incoming = id and packets = id
      and pr = "map (v2_serialize sealed_env) twin_answer" and K = example_clock
      and K' = other_clock and cfg = "example_config\<lparr>transport_policy := V2Required\<rparr>"
      and cfg' = "example_config\<lparr>transport_policy := V2Preferred\<rparr>", simplified greeting_policy,
      OF _ sealed_routes(2) sealed_laws(1) _ _ _ sealed_laws(2) sealed_version_message far n sealed_codec]
  show ?thesis using sealed_routes(1) by auto
qed

end
