(* ===== verification/Peer_Connection.thy ===== *)
theory Peer_Connection
  imports Connection_Properties
begin

text \<open>
  The crawler's view of a connection, \<^verbatim>\<open>crawler/src/connection.rs\<close>: the trait
  \<^verbatim>\<open>PeerConnection\<close> with its provided method \<open>get_peers\<close>, the trait
  \<^verbatim>\<open>Connector\<close>, their implementations by real connections and by the mocks of the
  repository. A trait is the record of its required methods; a provided method takes that
  record. Durations and instants are in nanoseconds, as \<open>nat\<close>.
\<close>

section \<open>The trait\<close>

record 'c peer_connection =
  pc_write :: "'c \<Rightarrow> network_message \<Rightarrow> (connection_error, unit) outcome \<times> 'c"
  pc_read :: "'c \<Rightarrow> (connection_error, network_message) outcome \<times> 'c"
  pc_peer :: "'c \<Rightarrow> peer"

text \<open>
  Time. \<open>tick\<close> is the next reading of the clock, \<^verbatim>\<open>Instant::now\<close>; \<open>timed_read\<close> is
  \<^verbatim>\<open>tokio::time::timeout\<close> around a read of the connection that starts at an instant: the
  read's result, or \<open>None\<close> when the duration has elapsed, and the instant it returns at.
\<close>

record 'c timer =
  tick :: "nat \<Rightarrow> nat"
  timed_read :: "nat \<Rightarrow> nat \<Rightarrow> 'c \<Rightarrow> (connection_error + network_message) option \<times> 'c \<times> nat"

definition from_secs :: "nat \<Rightarrow> nat" where
  "from_secs s = s * 1000000000"

text \<open>The peers of a legacy address message; entries without a socket address are dropped.\<close>

definition addr_peers :: "('a) bitcoin_api_scheme \<Rightarrow> (u32 \<times> net_address) list \<Rightarrow> peer list" where
  "addr_peers B addresses =
     List.map_filter
       (\<lambda>(_, addr). case address_socket_addr B addr of
            Inl _ \<Rightarrow> None
          | Inr socket_addr \<Rightarrow>
              Some (case sock_ip socket_addr of
                      V4 ipv4 \<Rightarrow> peer_with_services (Ipv4 ipv4) (sock_port socket_addr) (addr_services addr)
                    | V6 ipv6 \<Rightarrow> peer_with_services (Ipv6 ipv6) (sock_port socket_addr) (addr_services addr)))
       addresses"

definition addr_v2_peers :: "addr_v2_message list \<Rightarrow> peer list" where
  "addr_v2_peers addresses =
     map (\<lambda>m. peer_with_services (av2_addr m) (av2_port m) (av2_services m)) addresses"

text \<open>The \<^verbatim>\<open>match message\<close> of the loop: the batch of peers, and a pong for a ping.\<close>

definition peers_batch ::
  "('a) bitcoin_api_scheme \<Rightarrow> 'c peer_connection \<Rightarrow> network_message \<Rightarrow> 'c
   \<Rightarrow> (connection_error, peer list) outcome \<times> 'c" where
  "peers_batch B P message c =
     (case message of
        Addr addresses \<Rightarrow> (Ok (addr_peers B addresses), c)
      | AddrV2 addresses \<Rightarrow> (Ok (addr_v2_peers addresses), c)
      | Ping nonce \<Rightarrow> and_then (pc_write P c (Pong nonce)) (\<lambda>_ c'. (Ok [], c'))
      | _ \<Rightarrow> (Ok [], c))"

text \<open>
  The loop. A remote side that keeps answering at one instant would keep it going for ever:
  \<open>None\<close> is a call that never returns. Natural subtraction is \<^verbatim>\<open>saturating_sub\<close>.
\<close>

partial_function (option) get_peers_loop ::
  "('a) bitcoin_api_scheme \<Rightarrow> 'c peer_connection \<Rightarrow> 'c timer \<Rightarrow> nat \<Rightarrow> nat \<Rightarrow> nat \<Rightarrow> peer list \<Rightarrow> 'c
   \<Rightarrow> ((connection_error, peer list) outcome \<times> 'c) option" where
  "get_peers_loop B I T start peer_timeout now all_peers c =
     (let now1 = tick T now
      in if now1 - start < peer_timeout then
           let now2 = tick T now1;
               timeout_duration = min (from_secs 5) (peer_timeout - (now2 - start))
           in (case timed_read T now2 timeout_duration c of
                 (Some (Inl e), c1, now3) \<Rightarrow> Some (Err e, c1)
               | (None, c1, now3) \<Rightarrow>
                   if all_peers \<noteq> [] then Some (Ok all_peers, c1)
                   else get_peers_loop B I T start peer_timeout now3 all_peers c1
               | (Some (Inr message), c1, now3) \<Rightarrow>
                   (case peers_batch B I message c1 of
                      (Ok batch, c2) \<Rightarrow>
                        get_peers_loop B I T start peer_timeout now3 (all_peers @ batch) c2
                    | (Err e, c2) \<Rightarrow> Some (Err e, c2)
                    | (Pending, c2) \<Rightarrow> Some (Pending, c2)))
         else Some (Ok all_peers, c))"

definition get_peers ::
  "('a) bitcoin_api_scheme \<Rightarrow> 'c peer_connection \<Rightarrow> 'c timer \<Rightarrow> nat \<Rightarrow> nat \<Rightarrow> 'c
   \<Rightarrow> ((connection_error, peer list) outcome \<times> 'c) option" where
  "get_peers B P T now peer_timeout c =
     (case pc_write P c GetAddr of
        (Ok _, c1) \<Rightarrow>
          let start_time = tick T now
          in get_peers_loop B P T start_time peer_timeout start_time [] c1
      | (Err e, c1) \<Rightarrow> Some (Err e, c1)
      | (Pending, c1) \<Rightarrow> Some (Pending, c1))"

section \<open>Its implementations\<close>

text \<open>Real connections.\<close>

definition connection_peer_connection ::
  "('net, 'st, 'r, 'w, 'pr, 'pw) runtime \<Rightarrow> ('r, 'w, 'pr, 'pw) connection peer_connection" where
  "connection_peer_connection E =
     \<lparr>pc_write = connection_write E, pc_read = connection_read E, pc_peer = conn_peer\<rparr>"

text \<open>The mock connections of the crawler's tests.\<close>

record mock_peer_connection =
  incoming_messages :: "(connection_error + network_message) list"
  sent_messages :: "network_message list"
  peer_info :: peer
  is_closed :: bool

definition mock_new :: mock_peer_connection where
  "mock_new = \<lparr>incoming_messages = [], sent_messages = [],
               peer_info = peer_new (Ipv4 0x7F000001) 8333, is_closed = False\<rparr>"

definition add_incoming_message :: "mock_peer_connection \<Rightarrow> network_message \<Rightarrow> mock_peer_connection" where
  "add_incoming_message c m = c\<lparr>incoming_messages := incoming_messages c @ [Inr m]\<rparr>"

definition add_incoming_error :: "mock_peer_connection \<Rightarrow> connection_error \<Rightarrow> mock_peer_connection" where
  "add_incoming_error c e = c\<lparr>incoming_messages := incoming_messages c @ [Inl e]\<rparr>"

text \<open>\<open>None\<close> is the panic on an address that has no socket address.\<close>

definition add_addr_message ::
  "('a) bitcoin_api_scheme \<Rightarrow> u32 \<Rightarrow> (addr_v2 \<times> u16 \<times> service_flags) list \<Rightarrow> mock_peer_connection
   \<Rightarrow> mock_peer_connection option" where
  "add_addr_message B timestamp addresses c =
     map_option (\<lambda>addr_list. add_incoming_message c (Addr addr_list))
       (those (map (\<lambda>(a, p, s).
          map_option (\<lambda>socket_addr. (timestamp, address_new B socket_addr s))
            (case a of
               Ipv4 ipv4 \<Rightarrow> Some \<lparr>sock_ip = V4 ipv4, sock_port = p\<rparr>
             | Ipv6 ipv6 \<Rightarrow> Some \<lparr>sock_ip = V6 ipv6, sock_port = p\<rparr>
             | _ \<Rightarrow> None)) addresses))"

definition closed_error :: connection_error where
  "closed_error = connection_error.Io (IoError BrokenPipe ''Connection closed'')"

definition mock_write ::
  "mock_peer_connection \<Rightarrow> network_message \<Rightarrow> (connection_error, unit) outcome \<times> mock_peer_connection" where
  "mock_write c m =
     (if is_closed c then (Err closed_error, c) else (Ok (), c\<lparr>sent_messages := sent_messages c @ [m]\<rparr>))"

definition mock_read ::
  "mock_peer_connection \<Rightarrow> (connection_error, network_message) outcome \<times> mock_peer_connection" where
  "mock_read c =
     (if is_closed c then (Err closed_error, c)
      else case incoming_messages c of
             x # xs \<Rightarrow> (of_sum x, c\<lparr>incoming_messages := xs\<rparr>)
           | [] \<Rightarrow> (Pending, c))"

definition mock_peer_connection_impl :: "mock_peer_connection peer_connection" where
  "mock_peer_connection_impl = \<lparr>pc_write = mock_write, pc_read = mock_read, pc_peer = peer_info\<rparr>"

section \<open>Connectors\<close>

record peer_connector =
  pk_network :: network
  pk_config :: connection_configuration

definition peer_connector_new :: "network \<Rightarrow> connection_configuration \<Rightarrow> peer_connector" where
  "peer_connector_new n cfg = \<lparr>pk_network = n, pk_config = cfg\<rparr>"

definition peer_connector_connect ::
  "('net, 'st, 'r, 'w, 'pr, 'pw) runtime \<Rightarrow> clock \<Rightarrow> 'net \<Rightarrow> peer_connector \<Rightarrow> peer
   \<Rightarrow> (connection_error, ('r, 'w, 'pr, 'pw) connection) outcome option" where
  "peer_connector_connect E K net k p = connection_connect E K net p (pk_network k) (pk_config k)"

text \<open>The mock connector: a queue of connections.\<close>

type_synonym mock_connector = "mock_peer_connection list"

definition mock_connector_new :: mock_connector where
  "mock_connector_new = []"

definition add_connection :: "mock_connector \<Rightarrow> mock_peer_connection \<Rightarrow> mock_connector" where
  "add_connection k c = k @ [c]"

definition mock_connect ::
  "mock_connector \<Rightarrow> peer \<Rightarrow> (connection_error, mock_peer_connection) outcome \<times> mock_connector" where
  "mock_connect k p =
     (case k of
        c # cs \<Rightarrow> (Ok c, cs)
      | [] \<Rightarrow> (Err (connection_error.Io (IoError (OtherKind 0) ''No mock connection available'')), []))"

section \<open>Specification\<close>

text \<open>
  \<^verbatim>\<open>tokio::time::timeout\<close>: the future's result if it completes, and otherwise the
  future is dropped when the duration has elapsed. Instants never decrease.
\<close>

definition timeout_law :: "'c peer_connection \<Rightarrow> 'c timer \<Rightarrow> bool" where
  "timeout_law P T \<longleftrightarrow>
     (\<forall>now d c r c' now'. timed_read T now d c = (r, c', now') \<longrightarrow>
        now \<le> now'
        \<and> pc_read P c = (case r of Some (Inr m) \<Rightarrow> (Ok m, c') | Some (Inl e) \<Rightarrow> (Err e, c') | None \<Rightarrow> (Pending, c')))"

definition clock_advances :: "'c timer \<Rightarrow> bool" where
  "clock_advances T \<longleftrightarrow> (\<forall>now. now < tick T now)"

text \<open>A link that answers within \<open>delay\<close>, on a clock that is read without much delay.\<close>

definition prompt :: "'c peer_connection \<Rightarrow> 'c timer \<Rightarrow> nat \<Rightarrow> bool" where
  "prompt P T delay \<longleftrightarrow>
     (\<forall>now. tick T now \<le> now + delay)
     \<and> (\<forall>now d c. fst (pc_read P c) \<noteq> Pending \<and> 0 < d \<longrightarrow>
          fst (timed_read T now d c) \<noteq> None \<and> snd (snd (timed_read T now d c)) \<le> now + delay)"

definition message_peers :: "('a) bitcoin_api_scheme \<Rightarrow> network_message \<Rightarrow> peer list" where
  "message_peers B m =
     (case m of Addr as \<Rightarrow> addr_peers B as | AddrV2 as \<Rightarrow> addr_v2_peers as | _ \<Rightarrow> [])"

fun answers :: "network_message \<Rightarrow> network_message list" where
  "answers (Ping n) = [Pong n]"
| "answers _ = []"

primrec write_list ::
  "'c peer_connection \<Rightarrow> network_message list \<Rightarrow> 'c \<Rightarrow> (connection_error, unit) outcome \<times> 'c" where
  "write_list P [] c = (Ok (), c)"
| "write_list P (m # ms) c = and_then (pc_write P c m) (\<lambda>_. write_list P ms)"

text \<open>
  A conversation: messages are read and answered, with pauses in between in which a read is
  dropped.
\<close>

inductive exchange :: "'c peer_connection \<Rightarrow> 'c \<Rightarrow> network_message list \<Rightarrow> 'c \<Rightarrow> bool" for P where
  silence: "exchange P c [] c"
| pause: "pc_read P c = (Pending, c1) \<Longrightarrow> exchange P c1 ms c' \<Longrightarrow> exchange P c ms c'"
| message: "pc_read P c = (Ok m, c1) \<Longrightarrow> write_list P (answers m) c1 = (Ok (), c2)
    \<Longrightarrow> exchange P c2 ms c' \<Longrightarrow> exchange P c (m # ms) c'"

text \<open>A conversation without pauses.\<close>

fun replies :: "'c peer_connection \<Rightarrow> 'c \<Rightarrow> network_message list \<Rightarrow> 'c \<Rightarrow> bool" where
  "replies P c [] c' \<longleftrightarrow> c' = c"
| "replies P c (m # ms) c' \<longleftrightarrow>
     (case pc_read P c of
        (Ok m', c1) \<Rightarrow> m' = m \<and> (case write_list P (answers m) c1 of
                                      (Ok _, c2) \<Rightarrow> replies P c2 ms c' | _ \<Rightarrow> False)
      | _ \<Rightarrow> False)"

text \<open>
  How a request for addresses can go wrong: a write of the request, or of the pong for a ping,
  that waits for a remote side that has stopped reading; and a write or a read that fails.
\<close>

definition waits_in_write :: "'c peer_connection \<Rightarrow> 'c \<Rightarrow> 'c \<Rightarrow> bool" where
  "waits_in_write P c c' \<longleftrightarrow>
     pc_write P c GetAddr = (Pending, c')
     \<or> (\<exists>c1 ms c2 n c3. pc_write P c GetAddr = (Ok (), c1) \<and> exchange P c1 ms c2
          \<and> pc_read P c2 = (Ok (Ping n), c3) \<and> pc_write P c3 (Pong n) = (Pending, c'))"

definition fails_with :: "'c peer_connection \<Rightarrow> 'c \<Rightarrow> connection_error \<Rightarrow> 'c \<Rightarrow> bool" where
  "fails_with P c e c' \<longleftrightarrow>
     pc_write P c GetAddr = (Err e, c')
     \<or> (\<exists>c1 ms c2. pc_write P c GetAddr = (Ok (), c1) \<and> exchange P c1 ms c2
          \<and> (pc_read P c2 = (Err e, c')
             \<or> (\<exists>n c3. pc_read P c2 = (Ok (Ping n), c3) \<and> pc_write P c3 (Pong n) = (Err e, c'))))"

section \<open>Lemmas\<close>

lemma peers_batch_eq:
  "peers_batch B P m c = and_then (write_list P (answers m) c) (\<lambda>_ c'. (Ok (message_peers B m), c'))"
  by (cases m) (auto simp: peers_batch_def message_peers_def and_then_def split: prod.splits outcome.splits)

lemma timeout_lawD:
  assumes "timeout_law P T" and "timed_read T now d c = (r, c', now')"
  shows "now \<le> now'"
    and "pc_read P c = (case r of Some (Inr m) \<Rightarrow> (Ok m, c') | Some (Inl e) \<Rightarrow> (Err e, c') | None \<Rightarrow> (Pending, c'))"
  using assms unfolding timeout_law_def by blast+

text \<open>How one turn of the loop can lead to a successful result, with \<open>loop\<close> for the turns after it.\<close>

lemma get_peers_turn_Ok:
  assumes law: "timeout_law P T"
    and body: "(let now1 = tick T now
      in if now1 - start < d then
           let now2 = tick T now1; timeout_duration = min (from_secs 5) (d - (now2 - start))
           in (case timed_read T now2 timeout_duration c of
                 (Some (Inl e), c1, now3) \<Rightarrow> Some (Err e, c1)
               | (None, c1, now3) \<Rightarrow> if ps \<noteq> [] then Some (Ok ps, c1) else loop now3 ps c1
               | (Some (Inr message), c1, now3) \<Rightarrow>
                   (case peers_batch B P message c1 of
                      (Ok batch, c2) \<Rightarrow> loop now3 (ps @ batch) c2
                    | (Err e, c2) \<Rightarrow> Some (Err e, c2)
                    | (Pending, c2) \<Rightarrow> Some (Pending, c2)))
         else Some (Ok ps, c)) = Some (Ok qs, c')"
  obtains (elapsed) "qs = ps" "c' = c"
    | (enough) "pc_read P c = (Pending, c')" "qs = ps"
    | (wait) c1 now3 where "pc_read P c = (Pending, c1)" "loop now3 ps c1 = Some (Ok qs, c')"
    | (message) m c1 c2 now3 where "pc_read P c = (Ok m, c1)" "write_list P (answers m) c1 = (Ok (), c2)"
        "loop now3 (ps @ message_peers B m) c2 = Some (Ok qs, c')"
proof (cases "tick T now - start < d")
  case False
  with body elapsed show thesis by simp
next
  case True
  let ?now2 = "tick T (tick T now)"
  obtain r c1 now3 where r: "timed_read T ?now2 (min (from_secs 5) (d - (?now2 - start))) c = (r, c1, now3)"
    using prod_cases3 by blast
  note read = timeout_lawD(2) [OF law r]
  consider "r = None" | m where "r = Some (Inr m)"
    using body True r by (cases r; cases "the r") auto
  then show thesis
  proof cases
    case 1
    with body True r read enough wait show thesis by (auto split: if_splits)
  next
    case 2
    with body True r read message show thesis
      by (auto simp: peers_batch_eq and_then_def split: prod.splits outcome.splits)
  qed
qed

lemma get_peers_loop_result:
  assumes "get_peers_loop B P T start d now ps c = Some y"
  shows "timeout_law P T \<longrightarrow> (\<forall>qs c'. y = (Ok qs, c') \<longrightarrow>
    (\<exists>ms. exchange P c ms c' \<and> qs = ps @ concat (map (message_peers B) ms)))"
  using assms
proof (induction rule: get_peers_loop.raw_induct [rotated 1, consumes 1])
  case (1 loop B P T start d now ps c y)
  note IH = 1(1) and body = 1(2)
  have "\<exists>ms. exchange P c ms c' \<and> qs = ps @ concat (map (message_peers B) ms)"
    if law: "timeout_law P T" and y: "y = (Ok qs, c')" for qs c'
    using law body [unfolded y]
  proof (cases rule: get_peers_turn_Ok [where loop = "loop B P T start d"])
    case elapsed
    then show ?thesis by (auto intro!: exI [of _ "[]"] exchange.silence)
  next
    case enough
    then show ?thesis by (auto intro!: exI [of _ "[]"] exchange.pause [OF _ exchange.silence])
  next
    case (wait c1 now3)
    from IH [OF wait(2)] law exchange.pause [OF wait(1)] show ?thesis by blast
  next
    case (message m c1 c2 now3)
    from IH [OF message(3)] law obtain ms where
      "exchange P c2 ms c'" "qs = (ps @ message_peers B m) @ concat (map (message_peers B) ms)" by blast
    with exchange.message [OF message(1,2)] show ?thesis by (intro exI [of _ "m # ms"]) simp
  qed
  then show ?case by blast
qed

text \<open>How a turn of the loop can lead to an error or to a wait.\<close>

lemma answers_stopped:
  assumes "write_list P (answers m) c = (r, c')" and "r \<noteq> Ok ()"
  obtains n where "m = Ping n" and "pc_write P c (Pong n) = (r, c')"
proof (cases m)
  case (Ping n)
  with assms that show thesis by (auto simp: and_then_def split: prod.splits outcome.splits)
qed (use assms in simp_all)

lemma get_peers_turn_stops:
  assumes law: "timeout_law P T"
    and body: "(let now1 = tick T now
      in if now1 - start < d then
           let now2 = tick T now1; timeout_duration = min (from_secs 5) (d - (now2 - start))
           in (case timed_read T now2 timeout_duration c of
                 (Some (Inl e), c1, now3) \<Rightarrow> Some (Err e, c1)
               | (None, c1, now3) \<Rightarrow> if ps \<noteq> [] then Some (Ok ps, c1) else loop now3 ps c1
               | (Some (Inr message), c1, now3) \<Rightarrow>
                   (case peers_batch B P message c1 of
                      (Ok batch, c2) \<Rightarrow> loop now3 (ps @ batch) c2
                    | (Err e, c2) \<Rightarrow> Some (Err e, c2)
                    | (Pending, c2) \<Rightarrow> Some (Pending, c2)))
         else Some (Ok ps, c)) = Some (r, c')"
    and r: "\<And>qs. r \<noteq> Ok qs"
  obtains (read) e where "pc_read P c = (Err e, c')" "r = Err e"
    | (answering) m c1 w where "pc_read P c = (Ok m, c1)" "write_list P (answers m) c1 = (w, c')"
        "w = (case r of Err e \<Rightarrow> Err e | _ \<Rightarrow> Pending)"
    | (wait) c1 now3 where "pc_read P c = (Pending, c1)" "loop now3 ps c1 = Some (r, c')"
    | (message) m c1 c2 now3 where "pc_read P c = (Ok m, c1)" "write_list P (answers m) c1 = (Ok (), c2)"
        "loop now3 (ps @ message_peers B m) c2 = Some (r, c')"
proof (cases "tick T now - start < d")
  case False
  with body have "r = Ok ps" by simp
  with r [of ps] show thesis by simp
next
  case True
  let ?now2 = "tick T (tick T now)"
  obtain x c1 now3 where x: "timed_read T ?now2 (min (from_secs 5) (d - (?now2 - start))) c = (x, c1, now3)"
    using prod_cases3 by blast
  note got = timeout_lawD(2) [OF law x]
  consider "x = None" | e where "x = Some (Inl e)" | m where "x = Some (Inr m)"
    by (metis option.exhaust old.sum.exhaust)
  then show thesis
  proof cases
    case 1
    with body True x got r wait show thesis by (auto split: if_splits)
  next
    case 2
    with body True x got read show thesis by auto
  next
    case (3 m)
    obtain w c2 where w: "write_list P (answers m) c1 = (w, c2)" by fastforce
    show thesis
    proof (cases w)
      case (Ok u)
      with 3 w body True x got message show thesis by (auto simp: peers_batch_eq)
    qed (use 3 w body True x got answering in \<open>auto simp: peers_batch_eq\<close>)
  qed
qed

lemma get_peers_loop_stops:
  assumes "get_peers_loop B P T start d now ps c = Some y"
  shows "timeout_law P T \<longrightarrow> (\<forall>r c'. y = (r, c') \<and> (\<forall>qs. r \<noteq> Ok qs) \<longrightarrow>
    (\<exists>ms c2. exchange P c ms c2
       \<and> ((\<exists>e. r = Err e \<and> pc_read P c2 = (Err e, c'))
          \<or> (\<exists>n c3. pc_read P c2 = (Ok (Ping n), c3)
               \<and> pc_write P c3 (Pong n) = (case r of Err e \<Rightarrow> Err e | _ \<Rightarrow> Pending, c')))))"
  using assms
proof (induction rule: get_peers_loop.raw_induct [rotated 1, consumes 1])
  case (1 loop B P T start d now ps c y)
  note IH = 1(1) and body = 1(2)
  let ?stops = "\<lambda>r c2 c'. (\<exists>e. r = Err e \<and> pc_read P c2 = (Err e, c'))
    \<or> (\<exists>n c3. pc_read P c2 = (Ok (Ping n), c3) \<and> pc_write P c3 (Pong n) = (case r of Err e \<Rightarrow> Err e | _ \<Rightarrow> Pending, c'))"
  have "\<exists>ms c2. exchange P c ms c2 \<and> ?stops r c2 c'"
    if law: "timeout_law P T" and y: "y = (r, c')" and r: "\<And>qs. r \<noteq> Ok qs" for r c'
    using law body [unfolded y] r
  proof (cases rule: get_peers_turn_stops [where loop = "loop B P T start d"])
    case (read e)
    then show ?thesis by (intro exI [of _ "[]"] exI [of _ c] conjI exchange.silence) simp
  next
    case (answering m c1 w)
    then have "w \<noteq> Ok ()" by (cases r) simp_all
    from answers_stopped [OF answering(2) this] answering(1,3) obtain n where
      "pc_read P c = (Ok (Ping n), c1)" "pc_write P c1 (Pong n) = (case r of Err e \<Rightarrow> Err e | _ \<Rightarrow> Pending, c')"
      by metis
    then show ?thesis by (intro exI [of _ "[]"] exI [of _ c] conjI exchange.silence) simp
  next
    case (wait c1 now3)
    from IH [OF wait(2)] law r obtain ms c2 where "exchange P c1 ms c2" "?stops r c2 c'" by blast
    with exchange.pause [OF wait(1)] show ?thesis by blast
  next
    case (message m c1 c2 now3)
    from IH [OF message(3)] law r obtain ms c3 where "exchange P c2 ms c3" "?stops r c3 c'" by blast
    with exchange.message [OF message(1,2)] show ?thesis by blast
  qed
  then show ?case by blast
qed

lemma get_peers_Err:
  assumes law: "timeout_law P T" and got: "get_peers B P T now d c = Some (Err e, c')"
  shows "fails_with P c e c'"
proof (cases "pc_write P c GetAddr")
  case (Pair w c1)
  show ?thesis
  proof (cases w)
    case (Ok u)
    with Pair got have "get_peers_loop B P T (tick T now) d (tick T now) [] c1 = Some (Err e, c')"
      by (simp add: get_peers_def Let_def)
    from get_peers_loop_stops [OF this] law Pair Ok show ?thesis unfolding fails_with_def by fastforce
  qed (use Pair got in \<open>simp_all add: get_peers_def fails_with_def\<close>)
qed

lemma get_peers_Pending:
  assumes law: "timeout_law P T" and got: "get_peers B P T now d c = Some (Pending, c')"
  shows "waits_in_write P c c'"
proof (cases "pc_write P c GetAddr")
  case (Pair w c1)
  show ?thesis
  proof (cases w)
    case (Ok u)
    with Pair got have "get_peers_loop B P T (tick T now) d (tick T now) [] c1 = Some (Pending, c')"
      by (simp add: get_peers_def Let_def)
    from get_peers_loop_stops [OF this] law Pair Ok show ?thesis unfolding waits_in_write_def by fastforce
  qed (use Pair got in \<open>simp_all add: get_peers_def waits_in_write_def\<close>)
qed

lemma get_peers_loop_returns:
  assumes law: "timeout_law P T" and adv: "clock_advances T"
  shows "\<exists>y. get_peers_loop B P T start d now ps c = Some y"
proof (induction "start + d - now" arbitrary: now ps c rule: less_induct)
  case less
  let ?now1 = "tick T now"
  let ?now2 = "tick T ?now1"
  show ?case
  proof (cases "?now1 - start < d")
    case False
    then show ?thesis by (subst get_peers_loop.simps) simp
  next
    case True
    obtain r c1 now3 where r: "timed_read T ?now2 (min (from_secs 5) (d - (?now2 - start))) c = (r, c1, now3)"
      using prod_cases3 by blast
    have "now < ?now1" "?now1 < ?now2" "?now2 \<le> now3"
      using adv timeout_lawD(1) [OF law r] by (auto simp: clock_advances_def)
    then have "start + d - now3 < start + d - now" using True by linarith
    with True r less show ?thesis
      by (subst get_peers_loop.simps) (auto split: option.splits sum.splits prod.splits outcome.splits)
  qed
qed

lemma prompt_clock:
  assumes "prompt P T delay" and "start \<le> now" and "now + 2 * delay + e < start + d"
  shows "tick T now - start < d" and "tick T (tick T now) - start < d"
    and "tick T (tick T now) + e < start + d"
proof -
  have "tick T now \<le> now + delay" "tick T (tick T now) \<le> tick T now + delay"
    using assms(1) by (auto simp: prompt_def)
  with assms(2,3) show "tick T now - start < d" "tick T (tick T now) - start < d"
    "tick T (tick T now) + e < start + d" by linarith+
qed

lemma get_peers_loop_prompt:
  assumes law: "timeout_law P T" and fast: "prompt P T delay" and adv: "clock_advances T"
  shows "replies P c ms c' \<Longrightarrow> pc_read P c' = (Pending, c'')
    \<Longrightarrow> ps @ concat (map (message_peers B) ms) \<noteq> []
    \<Longrightarrow> start \<le> now \<Longrightarrow> now + (3 * length ms + 2) * delay < start + d
    \<Longrightarrow> get_peers_loop B P T start d now ps c = Some (Ok (ps @ concat (map (message_peers B) ms)), c'')"
proof (induction ms arbitrary: now ps c)
  case Nil
  let ?now2 = "tick T (tick T now)"
  obtain r c1 now3 where r: "timed_read T ?now2 (min (from_secs 5) (d - (?now2 - start))) c = (r, c1, now3)"
    using prod_cases3 by blast
  have "r = None \<and> c1 = c''"
    using timeout_lawD(2) [OF law r] Nil.prems(1,2) by (auto split: option.splits sum.splits)
  moreover have "tick T now - start < d"
    using prompt_clock(1) [OF fast Nil.prems(4), of 0] Nil.prems(5) by simp
  ultimately show ?case using r Nil.prems(3) by (subst get_peers_loop.simps) simp
next
  case (Cons m ms)
  let ?now2 = "tick T (tick T now)"
  let ?d = "min (from_secs 5) (d - (?now2 - start))"
  obtain c1 c2 where read: "pc_read P c = (Ok m, c1)" and ans: "write_list P (answers m) c1 = (Ok (), c2)"
    and rest: "replies P c2 ms c'"
    using Cons.prems(1) by (auto split: prod.splits outcome.splits)
  have clk: "tick T now - start < d" "?now2 - start < d" "?now2 + delay + (3 * length ms + 2) * delay < start + d"
    using prompt_clock [OF fast Cons.prems(4), of "delay + (3 * length ms + 2) * delay"] Cons.prems(5)
    by (simp_all add: algebra_simps)
  obtain r c3 now3 where r: "timed_read T ?now2 ?d c = (r, c3, now3)" using prod_cases3 by blast
  have "0 < ?d" using clk(2) by (simp add: from_secs_def)
  with fast read r have "r \<noteq> None" "now3 \<le> ?now2 + delay"
    unfolding prompt_def by (metis fst_conv outcome.distinct(3), metis fst_conv snd_conv outcome.distinct(3))
  with timeout_lawD [OF law r] read have res: "r = Some (Inr m)" "c3 = c1" "?now2 \<le> now3"
    by (auto split: option.splits sum.splits)
  have "start \<le> now3"
    using res(3) Cons.prems(4) adv unfolding clock_advances_def
    by (meson dual_order.trans less_imp_le)
  moreover have "now3 + (3 * length ms + 2) * delay < start + d"
    using clk(3) \<open>now3 \<le> ?now2 + delay\<close> by linarith
  ultimately have "get_peers_loop B P T start d now3 (ps @ message_peers B m) c2
      = Some (Ok ((ps @ message_peers B m) @ concat (map (message_peers B) ms)), c'')"
    using Cons.prems(2,3) by (intro Cons.IH [OF rest]) simp_all
  with clk(1) r res ans show ?case
    by (subst get_peers_loop.simps) (simp add: peers_batch_eq)
qed

text \<open>A remote side that says nothing, and one whose connection breaks.\<close>

lemma get_peers_loop_quiet:
  assumes law: "timeout_law P T" and adv: "clock_advances T" and quiet: "pc_read P c = (Pending, c)"
  shows "get_peers_loop B P T start d now [] c = Some (Ok [], c)"
proof (induction "start + d - now" arbitrary: now rule: less_induct)
  case less
  let ?now1 = "tick T now"
  let ?now2 = "tick T ?now1"
  show ?case
  proof (cases "?now1 - start < d")
    case False
    then show ?thesis by (subst get_peers_loop.simps) simp
  next
    case True
    obtain r c1 now3 where r: "timed_read T ?now2 (min (from_secs 5) (d - (?now2 - start))) c = (r, c1, now3)"
      using prod_cases3 by blast
    have "r = None" "c1 = c"
      using timeout_lawD(2) [OF law r] quiet by (auto split: option.splits sum.splits)
    moreover have "now < ?now1" "?now1 < ?now2" "?now2 \<le> now3"
      using adv timeout_lawD(1) [OF law r] by (auto simp: clock_advances_def)
    then have "start + d - now3 < start + d - now" using True by linarith
    ultimately show ?thesis using True r less by (subst get_peers_loop.simps) simp
  qed
qed

lemma get_peers_loop_error:
  assumes law: "timeout_law P T" and fast: "prompt P T delay" and broken: "pc_read P c = (Err e, c1)"
    and time: "2 * delay < d"
  shows "get_peers_loop B P T start d start ps c = Some (Err e, c1)"
proof -
  let ?now2 = "tick T (tick T start)"
  let ?d = "min (from_secs 5) (d - (?now2 - start))"
  have clk: "tick T start - start < d" "0 < ?d"
    using prompt_clock(1,2) [OF fast, of start start 0] time by (simp_all add: from_secs_def)
  obtain r c' now3 where r: "timed_read T ?now2 ?d c = (r, c', now3)" using prod_cases3 by blast
  have "r \<noteq> None"
    using fast broken clk(2) r unfolding prompt_def by (metis fst_conv outcome.distinct(5))
  with timeout_lawD(2) [OF law r] broken have "r = Some (Inl e)" "c' = c1"
    by (auto split: option.splits sum.splits)
  with r clk(1) show ?thesis by (subst get_peers_loop.simps) (simp add: Let_def)
qed

lemma get_peers_Ok:
  assumes "timeout_law P T" and "get_peers B P T now d c = Some (Ok ps, c')"
  shows "\<exists>c1 ms. pc_write P c GetAddr = (Ok (), c1) \<and> exchange P c1 ms c'
    \<and> ps = concat (map (message_peers B) ms)"
  using assms get_peers_loop_result
  by (fastforce simp: get_peers_def Let_def split: prod.splits outcome.splits)

lemma message_peers_known:
  "p \<in> set (message_peers B m) \<Longrightarrow> version p = UnknownVersion \<and> (\<exists>s. services p = KnownServices s)"
  by (cases m)
    (auto simp: message_peers_def addr_peers_def addr_v2_peers_def peer_with_services_def List.map_filter_def
      split: sum.splits ip_addr.splits)

section \<open>The contract of a connection\<close>

text \<open>
  What the crawler relies on, whatever implements the trait: the read side and the write side
  do not disturb each other, and the peer stays who it is.
\<close>

locale duplex_connection =
  fixes P :: "'c peer_connection"
    and inbox :: "'c \<Rightarrow> 'i"
    and outbox :: "'c \<Rightarrow> 'o"
  assumes write_inbox: "inbox (snd (pc_write P c m)) = inbox c"
    and read_outbox: "outbox (snd (pc_read P c)) = outbox c"
    and read_local: "inbox c = inbox d \<Longrightarrow> fst (pc_read P c) = fst (pc_read P d)
      \<and> inbox (snd (pc_read P c)) = inbox (snd (pc_read P d))"
    and write_local: "outbox c = outbox d \<Longrightarrow> fst (pc_write P c m) = fst (pc_write P d m)
      \<and> outbox (snd (pc_write P c m)) = outbox (snd (pc_write P d m))"
    and read_peer: "pc_peer P (snd (pc_read P c)) = pc_peer P c"
    and write_peer: "pc_peer P (snd (pc_write P c m)) = pc_peer P c"
begin

lemma write_list_local:
  "write_list P ms c = (Ok (), c') \<Longrightarrow> outbox d = outbox c
   \<Longrightarrow> \<exists>d'. write_list P ms d = (Ok (), d') \<and> outbox d' = outbox c'"
proof (induction ms arbitrary: c d)
  case Nil
  then show ?case by simp
next
  case (Cons m ms)
  then obtain c1 where "pc_write P c m = (Ok (), c1)" "write_list P ms c1 = (Ok (), c')"
    by (auto simp: and_then_Ok_iff)
  moreover from write_local [OF Cons.prems(2), of m] this(1) obtain d1 where
    "pc_write P d m = (Ok (), d1)" "outbox d1 = outbox c1"
    by (metis fst_conv snd_conv prod.collapse)
  ultimately show ?case using Cons.IH [of c1 d1] by simp
qed

lemma write_list_append:
  "write_list P (xs @ ys) c = and_then (write_list P xs c) (\<lambda>_. write_list P ys)"
  by (induction xs arbitrary: c) (auto simp: and_then_def split: prod.splits outcome.splits)

lemma write_list_keeps:
  "write_list P ms c = (Ok (), c') \<Longrightarrow> inbox c' = inbox c \<and> pc_peer P c' = pc_peer P c"
proof (induction ms arbitrary: c)
  case (Cons m ms)
  then obtain c1 where "pc_write P c m = (Ok (), c1)" "write_list P ms c1 = (Ok (), c')"
    by (auto simp: and_then_Ok_iff)
  with Cons.IH [of c1] write_inbox [of c m] write_peer [of c m] show ?case by simp
qed simp

lemma exchange_writes:
  "exchange P c ms c' \<Longrightarrow> \<exists>d. write_list P (concat (map answers ms)) c = (Ok (), d) \<and> outbox d = outbox c'"
proof (induction rule: exchange.induct)
  case (silence c)
  then show ?case by simp
next
  case (pause c c1 ms c')
  with write_list_local [of _ c1 _ c] read_outbox [of c] show ?case by fastforce
next
  case (message c m c1 c2 ms c')
  then obtain d where d: "write_list P (concat (map answers ms)) c2 = (Ok (), d)" "outbox d = outbox c'"
    by blast
  have "write_list P (answers m @ concat (map answers ms)) c1 = (Ok (), d)"
    using message.hyps(2) d by (simp add: write_list_append)
  with write_list_local [OF this, of c] read_outbox [of c] message.hyps(1) d show ?case by simp
qed

lemma exchange_peer: "exchange P c ms c' \<Longrightarrow> pc_peer P c' = pc_peer P c"
proof (induction rule: exchange.induct)
  case (message c m c1 c2 ms c')
  with read_peer [of c] write_list_keeps show ?case by fastforce
next
  case (pause c c1 ms c')
  with read_peer [of c] show ?case by simp
qed simp

lemma get_peers_conversation:
  assumes "timeout_law P T" and "get_peers B P T now d c = Some (Ok ps, c')"
  shows "\<exists>c1 ms e. pc_write P c GetAddr = (Ok (), c1) \<and> exchange P c1 ms c'
    \<and> ps = concat (map (message_peers B) ms)
    \<and> write_list P (GetAddr # concat (map answers ms)) c = (Ok (), e) \<and> outbox e = outbox c'
    \<and> pc_peer P c' = pc_peer P c"
proof -
  obtain c1 ms where w: "pc_write P c GetAddr = (Ok (), c1)" and ex: "exchange P c1 ms c'"
    and ps: "ps = concat (map (message_peers B) ms)"
    using get_peers_Ok [OF assms] by blast
  with exchange_writes [OF ex] exchange_peer [OF ex] write_peer [of c GetAddr] show ?thesis by fastforce
qed

end

text \<open>Real connections and the mocks fulfil it.\<close>

interpretation real: duplex_connection "connection_peer_connection E"
  "\<lambda>c. (conn_reader c, conn_state c)" conn_writer
  by unfold_locales
    (auto simp: connection_peer_connection_def connection_write_eq connection_read_eq Let_def
      split: prod.splits outcome.splits)

interpretation mock: duplex_connection mock_peer_connection_impl
  "\<lambda>c. (incoming_messages c, is_closed c)" "\<lambda>c. (sent_messages c, is_closed c)"
  by unfold_locales
    (auto simp: mock_peer_connection_impl_def mock_write_def mock_read_def split: list.splits)

section \<open>Examples\<close>

text \<open>A clock on which everything takes a nanosecond, except a read that is dropped.\<close>

definition example_timer :: "'c peer_connection \<Rightarrow> 'c timer" where
  "example_timer P =
     \<lparr>tick = (\<lambda>now. now + 1),
      timed_read = (\<lambda>now d c. case pc_read P c of
          (Ok m, c') \<Rightarrow> (Some (Inr m), c', now + 1)
        | (Err e, c') \<Rightarrow> (Some (Inl e), c', now + 1)
        | (Pending, c') \<Rightarrow> (None, c', now + d))\<rparr>"

lemma example_timer_laws:
  "timeout_law P (example_timer P)" "clock_advances (example_timer P)" "prompt P (example_timer P) 1"
  by (auto simp: timeout_law_def clock_advances_def prompt_def example_timer_def
      split: prod.splits outcome.splits)

abbreviation packet_connection :: "(u8 list, u8 list, u8 list list, u8 list list) connection peer_connection" where
  "packet_connection \<equiv> connection_peer_connection packet_env"

section \<open>Properties\<close>

text \<open>
  C27. How asking a peer for addresses can end. Whatever the remote side sends and however
  often it makes the crawler wait, on a clock whose readings advance the loop of \<open>get_peers\<close> is
  left after finitely many turns. Then the peers of all address messages that were read are
  returned; or the error is returned that a write of getaddr or of a pong, or a read, has met
  after an exchange of messages; or the call waits, and then in the write of getaddr or in the
  write of the pong for a ping that was read, never in a read. So when no write waits, the call
  returns.
\<close>

theorem get_peers_ends_or_waits_in_write:
  assumes law: "timeout_law P T" and adv: "clock_advances T"
  shows "\<exists>r c'. get_peers B P T now peer_timeout c = Some (r, c')
    \<and> (case r of
         Ok ps \<Rightarrow> \<exists>c1 ms. pc_write P c GetAddr = (Ok (), c1) \<and> exchange P c1 ms c'
                    \<and> ps = concat (map (message_peers B) ms)
       | Err e \<Rightarrow> fails_with P c e c'
       | Pending \<Rightarrow> waits_in_write P c c')
    \<and> ((\<forall>c m. fst (pc_write P c m) \<noteq> Pending) \<longrightarrow> r \<noteq> Pending)"
proof -
  have "\<exists>y. get_peers B P T now peer_timeout c = Some y"
    using get_peers_loop_returns [OF law adv, of B "tick T now" peer_timeout "tick T now" "[]"]
    by (auto simp: get_peers_def Let_def split: prod.split outcome.split)
  then obtain r c' where got: "get_peers B P T now peer_timeout c = Some (r, c')" by fastforce
  have wait: "waits_in_write P c c'" if "r = Pending" using got get_peers_Pending [OF law] that by blast
  moreover have "r \<noteq> Pending" if never: "\<forall>c m. fst (pc_write P c m) \<noteq> Pending"
    using wait never unfolding waits_in_write_def by (metis fst_conv)
  ultimately show ?thesis
    using got get_peers_Ok [OF law] get_peers_Err [OF law] by (cases r) fastforce+
qed

theorem get_peers_ends_or_waits_in_write_witness:
  "\<exists>r c'. get_peers packet_env mock_peer_connection_impl (example_timer mock_peer_connection_impl)
     0 (from_secs 20) (add_incoming_message (add_incoming_error mock_new closed_error) GetAddr) = Some (r, c')
     \<and> r \<noteq> Pending"
proof -
  have "\<forall>c m. fst (pc_write mock_peer_connection_impl c m) \<noteq> Pending"
    by (simp add: mock_peer_connection_impl_def mock_write_def)
  with get_peers_ends_or_waits_in_write [OF example_timer_laws(1,2), of packet_env mock_peer_connection_impl 0
      "from_secs 20" "add_incoming_message (add_incoming_error mock_new closed_error) GetAddr"]
  show ?thesis by blast
qed

text \<open>
  C22. What a successful request for addresses has done, on a real connection: it has sent a
  getaddr message first, has then read messages, with pauses in which a read was dropped, and
  has sent exactly one pong for each ping it has read, with the ping's nonce and in order; it
  returns the peers of all address messages it has read, of both formats and in order, each
  with the services it was announced with and no known version; and the connection's peer is
  unchanged.
\<close>

theorem connection_get_peers_conversation:
  assumes "timeout_law (connection_peer_connection E) T"
    and "get_peers B (connection_peer_connection E) T now peer_timeout c = Some (Ok ps, c')"
  shows "\<exists>c1 ms e. connection_write E c GetAddr = (Ok (), c1) \<and> exchange (connection_peer_connection E) c1 ms c'
    \<and> ps = concat (map (message_peers B) ms)
    \<and> write_list (connection_peer_connection E) (GetAddr # concat (map answers ms)) c = (Ok (), e)
    \<and> conn_writer e = conn_writer c'
    \<and> conn_peer c' = conn_peer c
    \<and> (\<forall>p \<in> set ps. version p = UnknownVersion \<and> (\<exists>s. services p = KnownServices s))"
  using real.get_peers_conversation [OF assms] message_peers_known
  by (fastforce simp: connection_peer_connection_def)

theorem connection_get_peers_conversation_witness:
  "\<exists>ms e c'. get_peers packet_env packet_connection (example_timer packet_connection) 0 (from_secs 20)
       (example_connection [[6, 9], [8, 7]]) = Some (Ok [peer_with_services (Ipv4 7) 8333 1], c')
     \<and> [peer_with_services (Ipv4 7) 8333 1] = concat (map (message_peers packet_env) ms)
     \<and> write_list packet_connection (GetAddr # concat (map answers ms)) (example_connection [[6, 9], [8, 7]])
         = (Ok (), e)
     \<and> conn_writer e = conn_writer c'"
proof -
  let ?P = packet_connection
  let ?m = "AddrV2 [\<lparr>av2_services = 1, av2_addr = Ipv4 7, av2_port = 8333\<rparr>]"
  let ?c = "example_connection [[6, 9], [8, 7]]"
  let ?c1 = "?c\<lparr>conn_writer := WriterV2 (v2_writer_new [[5]])\<rparr>"
  let ?c2 = "?c1\<lparr>conn_writer := WriterV2 (v2_writer_new [[5], [9, 9]]), conn_reader := ReaderV2 (v2_reader_new [])\<rparr>"
  have "pc_write ?P ?c GetAddr = (Ok (), ?c1)" and "replies ?P ?c1 [Ping 9, ?m] ?c2"
    and "pc_read ?P ?c2 = (Pending, ?c2)"
    by (simp_all add: connection_peer_connection_def connection_write_eq connection_read_eq
        v2_writer_write_def v2_writer_new_def v2_reader_read_def v2_reader_new_def
        example_v2_serialize_def example_v2_deserialize_def note_received_def)
  then have g: "get_peers packet_env ?P (example_timer ?P) 0 (from_secs 20) ?c
      = Some (Ok [peer_with_services (Ipv4 7) 8333 1], ?c2)"
    using get_peers_loop_prompt [OF example_timer_laws(1,3,2), of ?P ?c1 "[Ping 9, ?m]" ?c2 ?c2 "[]" packet_env 1 1 "from_secs 20"]
    by (simp add: get_peers_def example_timer_def message_peers_def addr_v2_peers_def from_secs_def)
  from connection_get_peers_conversation [OF example_timer_laws(1) g] g show ?thesis by blast
qed

text \<open>
  C28. A peer that answers is heard out. If the link is prompt, so that the messages fit into
  the timeout, and the remote side sends \<open>ms\<close> with at least one address among them and then
  goes quiet, \<open>get_peers\<close> returns all the addresses of \<open>ms\<close>.
\<close>

theorem get_peers_collects_all:
  assumes "timeout_law P T" and "clock_advances T" and "prompt P T delay"
    and "pc_write P c GetAddr = (Ok (), c1)" and "replies P c1 ms c2"
    and "pc_read P c2 = (Pending, c')" and "concat (map (message_peers B) ms) \<noteq> []"
    and "(3 * length ms + 2) * delay < peer_timeout"
  shows "get_peers B P T now peer_timeout c = Some (Ok (concat (map (message_peers B) ms)), c')"
  using get_peers_loop_prompt [OF assms(1,3,2,5,6), of "[]" B "tick T now" "tick T now" peer_timeout] assms(4,7,8)
  by (simp add: get_peers_def Let_def)

theorem get_peers_collects_all_witness:
  "get_peers packet_env mock_peer_connection_impl (example_timer mock_peer_connection_impl) 0 (from_secs 20)
     (mock_new\<lparr>incoming_messages :=
        [Inr (Ping 3), Inr (AddrV2 [\<lparr>av2_services = 1, av2_addr = Ipv4 7, av2_port = 8333\<rparr>])]\<rparr>)
   = Some (Ok [peer_with_services (Ipv4 7) 8333 1], mock_new\<lparr>sent_messages := [GetAddr, Pong 3]\<rparr>)"
proof -
  let ?P = mock_peer_connection_impl
  let ?m = "AddrV2 [\<lparr>av2_services = 1, av2_addr = Ipv4 7, av2_port = 8333\<rparr>]"
  let ?c = "mock_new\<lparr>incoming_messages := [Inr (Ping 3), Inr ?m]\<rparr>"
  let ?c1 = "?c\<lparr>sent_messages := [GetAddr]\<rparr>"
  let ?c2 = "mock_new\<lparr>sent_messages := [GetAddr, Pong 3]\<rparr>"
  have "pc_write ?P ?c GetAddr = (Ok (), ?c1)" "replies ?P ?c1 [Ping 3, ?m] ?c2"
    "pc_read ?P ?c2 = (Pending, ?c2)"
    by (simp_all add: mock_peer_connection_impl_def mock_write_def mock_read_def mock_new_def)
  from get_peers_collects_all [OF example_timer_laws this, of packet_env "from_secs 20" 0] show ?thesis
    by (simp add: message_peers_def addr_v2_peers_def from_secs_def)
qed

text \<open>
  The timeout bounds the waiting for messages only. A ping is answered before the clock
  is looked at again, so a remote side that stops reading makes \<open>get_peers\<close> wait in that
  write, for any timeout.
\<close>

lemma get_peers_pong_waits:
  assumes "timeout_law P T" and "prompt P T delay" and "2 * delay < peer_timeout"
    and "pc_write P c GetAddr = (Ok (), c1)"
    and "pc_read P c1 = (Ok (Ping n), c2)" and "pc_write P c2 (Pong n) = (Pending, c3)"
  shows "get_peers B P T now peer_timeout c = Some (Pending, c3)"
proof -
  let ?start = "tick T now"
  let ?now2 = "tick T (tick T ?start)"
  let ?d = "min (from_secs 5) (peer_timeout - (?now2 - ?start))"
  have clk: "tick T ?start - ?start < peer_timeout" "0 < ?d"
    using prompt_clock(1,2) [OF assms(2), of ?start ?start 0] assms(3) by (simp_all add: from_secs_def)
  obtain r c' now3 where r: "timed_read T ?now2 ?d c1 = (r, c', now3)" using prod_cases3 by blast
  have "r \<noteq> None"
    using assms(2,5) clk(2) r unfolding prompt_def by (metis fst_conv outcome.distinct(3))
  with timeout_lawD(2) [OF assms(1) r] assms(5) have "r = Some (Inr (Ping n))" "c' = c2"
    by (auto split: option.splits sum.splits)
  with r clk(1) assms(4,6) show ?thesis
    by (simp add: get_peers_def get_peers_loop.simps [of B P T ?start peer_timeout ?start "[]" c1]
        peers_batch_def Let_def)
qed

text \<open>An encrypted session whose remote side stops reading after one packet.\<close>

definition stuck_env :: "(u8 list list, u8 list, u8 list, u8 list, u8 list list, u8 list list) runtime" where
  "stuck_env = packet_env\<lparr>protocol_write := \<lambda>w bs. if w = [] then (Ok (), [bs]) else (Pending, w)\<rparr>"

abbreviation stuck_connections :: "(u8 list, u8 list, u8 list list, u8 list list) connection peer_connection" where
  "stuck_connections \<equiv> connection_peer_connection stuck_env"

lemma stuck_conversation:
  fixes c :: "(u8 list, u8 list, u8 list list, u8 list list) connection"
  defines "c \<equiv> example_connection [[6, 9]]"
  shows "\<exists>c1 c2. pc_write stuck_connections c GetAddr = (Ok (), c1) \<and> pc_read stuck_connections c1 = (Ok (Ping 9), c2)
    \<and> pc_write stuck_connections c2 (Pong 9) = (Pending, c2)"
proof -
  let ?c1 = "c\<lparr>conn_writer := WriterV2 (v2_writer_new [[5]])\<rparr>"
  let ?c2 = "?c1\<lparr>conn_reader := ReaderV2 (v2_reader_new [])\<rparr>"
  have "pc_write stuck_connections c GetAddr = (Ok (), ?c1)"
    by (simp add: c_def stuck_env_def connection_peer_connection_def connection_write_eq v2_writer_write_def
        v2_writer_new_def example_v2_serialize_def)
  moreover have "pc_read stuck_connections ?c1 = (Ok (Ping 9), ?c2)"
    by (simp add: c_def stuck_env_def connection_peer_connection_def connection_read_eq v2_reader_read_def
        v2_reader_new_def example_v2_deserialize_def)
  moreover have "pc_write stuck_connections ?c2 (Pong 9) = (Pending, ?c2)"
    by (simp add: c_def stuck_env_def connection_peer_connection_def connection_write_eq v2_writer_write_def
        v2_writer_new_def)
  ultimately show ?thesis by blast
qed

end
