(* ===== verification/Session.thy ===== *)
theory Session
  imports Peer_Connection "HOL-Library.Multiset"
begin

text \<open>
  Crawl sessions, \<^verbatim>\<open>crawler/src/session.rs\<close>: what a task does with one peer
  (\<open>process\<close>), and the coordinator that feeds the tasks, as a step relation in which the
  coordinator, the tasks and the caller take turns. The channels are queues; the capacity of
  the channel to the caller is the one \<^verbatim>\<open>crawler/src/crawler.rs\<close> creates it with.
\<close>

section \<open>Processing one peer\<close>

record session_config =
  max_concurrent_tasks :: nat
  peer_timeout :: nat

datatype task_result = FoundPeers | NoPeersFound | ConnectionFailed | ChannelClosed

datatype crawler_message = Listening peer | NonListening peer

text \<open>
  What a task sees of the rest of the session when it gets there: whether the caller has
  dropped the result channel, the peers that have been tested, and whether the coordinator
  has dropped the discovery channel.
\<close>

record session_view =
  crawl_tx_closed :: bool
  tested_view :: "peer set"
  discovery_closed :: bool

text \<open>
  \<open>connected\<close> is the result of \<^verbatim>\<open>timeout(peer_timeout, connect(&peer))\<close>, with
  \<open>None\<close> for an elapsed timeout. The result is the task's result with what it has sent to
  the caller and to the coordinator; \<open>None\<close> is a task that waits for ever.
\<close>

definition process ::
  "('a) bitcoin_api_scheme \<Rightarrow> 'c peer_connection \<Rightarrow> 'c timer \<Rightarrow> nat \<Rightarrow> session_config
   \<Rightarrow> session_view \<Rightarrow> (connection_error + 'c) option \<Rightarrow> peer
   \<Rightarrow> (task_result \<times> crawler_message list \<times> peer list list) option" where
  "process B P T now cfg view connected p =
     (case connected of
        Some (Inr connection) \<Rightarrow>
          let info = pc_peer P connection
          in if crawl_tx_closed view then Some (ChannelClosed, [], [])
             else (case get_peers B P T now (peer_timeout cfg) connection of
                     Some (Ok discovered_peers, _) \<Rightarrow>
                       if discovered_peers = [] then Some (NoPeersFound, [Listening info], [])
                       else
                         let filtered_peers = filter (\<lambda>q. q \<notin> tested_view view) discovered_peers
                         in if filtered_peers \<noteq> [] then
                              if discovery_closed view then Some (ChannelClosed, [Listening info], [])
                              else Some (FoundPeers, [Listening info], [filtered_peers])
                            else Some (NoPeersFound, [Listening info], [])
                   | Some (Err e, _) \<Rightarrow> Some (NoPeersFound, [Listening info], [])
                   | Some (Pending, _) \<Rightarrow> None
                   | None \<Rightarrow> None)
      | _ \<Rightarrow>
          if crawl_tx_closed view then Some (ChannelClosed, [], [])
          else Some (ConnectionFailed, [NonListening p], []))"

section \<open>The session as a whole\<close>

text \<open>
  The network as a crawl sees it: whether a connection to a peer is established and what the
  connection says of the peer, and what asking for addresses returns (\<open>None\<close> for an error).
  A session asks each peer once, so this is all of the network's behaviour that matters.
\<close>

record world =
  connect_to :: "peer \<Rightarrow> peer option"
  known_to :: "peer \<Rightarrow> peer list option"

text \<open>The points at which a spawned task waits for something.\<close>

datatype task =
    Connecting peer
  | Reporting peer crawler_message
  | Discovering peer
  | Filtering peer "peer list"
  | Finishing peer task_result

datatype stop_reason = Exhausted | HungUp

text \<open>
  The points of \<open>coordinate\<close>: the top of the loop, the two polls of the biased
  \<^verbatim>\<open>select!\<close> and its waiting, the \<^verbatim>\<open>for\<close> loop over a batch, and the admission
  of a new peer, which waits for capacity.
\<close>

datatype coordinator =
    Top
  | PollPeers
  | PollDone
  | Parked
  | Batch "peer list"
  | Admit peer "peer list"
  | Stopped stop_reason

record session =
  tested_peers :: "peer set"
  discovery :: "peer list list"
  task_done :: "task_result list"
  crawl_queue :: "crawler_message list"
  caller_listens :: bool
  active_tasks :: nat
  tasks :: "task multiset"
  coord :: coordinator
  spawned :: "peer list"
  reports :: "(peer \<times> crawler_message) list"
  unreported :: "peer list"
  panicked :: "peer list"

definition CRAWL_CAPACITY :: nat where "CRAWL_CAPACITY = 1000"

fun stopped :: "coordinator \<Rightarrow> bool" where
  "stopped (Stopped _) = True"
| "stopped _ = False"

text \<open>
  The start of \<open>coordinate\<close>. A channel of capacity 0 cannot be created: \<open>None\<close> is that
  panic.
\<close>

definition coordinate_start :: "session_config \<Rightarrow> peer \<Rightarrow> session option" where
  "coordinate_start cfg seed =
     (if max_concurrent_tasks cfg = 0 then None
      else Some \<lparr>tested_peers = {}, discovery = [[seed]], task_done = [], crawl_queue = [],
                 caller_listens = True, active_tasks = 0, tasks = {#}, coord = Top,
                 spawned = [], reports = [], unreported = [], panicked = []\<rparr>)"

text \<open>
  One turn of the coordinator; \<open>None\<close> when it waits or has returned. \<open>cap\<close> is
  \<open>max_concurrent_tasks\<close>.
\<close>

fun coord_turn :: "nat \<Rightarrow> session \<Rightarrow> session option" where
  "coord_turn cap s =
     (case coord s of
        Top \<Rightarrow>
          if \<not> caller_listens s then Some (s\<lparr>coord := Stopped HungUp\<rparr>)
          else Some (s\<lparr>coord := PollPeers\<rparr>)
      | PollPeers \<Rightarrow>
          (case discovery s of
             peers # rest \<Rightarrow> Some (s\<lparr>discovery := rest, coord := Batch peers\<rparr>)
           | [] \<Rightarrow> Some (s\<lparr>coord := PollDone\<rparr>))
      | PollDone \<Rightarrow>
          (case task_done s of
             result # rest \<Rightarrow>
               let active = active_tasks s - 1
               in Some (s\<lparr>task_done := rest, active_tasks := active,
                          coord := (if active = 0 then Stopped Exhausted else Top)\<rparr>)
           | [] \<Rightarrow> Some (s\<lparr>coord := Parked\<rparr>))
      | Parked \<Rightarrow>
          if discovery s \<noteq> [] \<or> task_done s \<noteq> [] then Some (s\<lparr>coord := PollPeers\<rparr>) else None
      | Batch [] \<Rightarrow> Some (s\<lparr>coord := Top\<rparr>)
      | Batch (p # ps) \<Rightarrow>
          if p \<in> tested_peers s then Some (s\<lparr>coord := Batch ps\<rparr>)
          else Some (s\<lparr>tested_peers := insert p (tested_peers s), coord := Admit p ps\<rparr>)
      | Admit p ps \<Rightarrow>
          if cap \<le> active_tasks s then
            (case task_done s of
               result # rest \<Rightarrow> Some (s\<lparr>task_done := rest, active_tasks := active_tasks s - 1\<rparr>)
             | [] \<Rightarrow> None)
          else Some (s\<lparr>active_tasks := active_tasks s + 1, tasks := add_mset (Connecting p) (tasks s),
                       spawned := spawned s @ [p], coord := Batch ps\<rparr>)
      | Stopped _ \<Rightarrow> None)"

text \<open>
  One turn of a task: the session and what the task does next, \<open>None\<close> when it waits. A
  task that has sent its result is gone; so is one that panics because the coordinator has
  returned and dropped the receiver.
\<close>

fun task_turn :: "world \<Rightarrow> nat \<Rightarrow> session \<Rightarrow> task \<Rightarrow> (session \<times> task option) option" where
  "task_turn W cap s (Connecting p) =
     (case connect_to W p of
        Some info \<Rightarrow> Some (s, Some (Reporting p (Listening info)))
      | None \<Rightarrow> Some (s, Some (Reporting p (NonListening p))))"
| "task_turn W cap s (Reporting p m) =
     (if \<not> caller_listens s then
        Some (s\<lparr>unreported := unreported s @ [p]\<rparr>, Some (Finishing p ChannelClosed))
      else if length (crawl_queue s) < CRAWL_CAPACITY then
        Some (s\<lparr>crawl_queue := crawl_queue s @ [m], reports := reports s @ [(p, m)]\<rparr>,
              Some (case m of Listening _ \<Rightarrow> Discovering p | NonListening _ \<Rightarrow> Finishing p ConnectionFailed))
      else None)"
| "task_turn W cap s (Discovering p) =
     (case known_to W p of
        Some discovered_peers \<Rightarrow>
          if discovered_peers = [] then Some (s, Some (Finishing p NoPeersFound))
          else Some (s, Some (Filtering p discovered_peers))
      | None \<Rightarrow> Some (s, Some (Finishing p NoPeersFound)))"
| "task_turn W cap s (Filtering p ps) =
     (let filtered_peers = filter (\<lambda>q. q \<notin> tested_peers s) ps
      in if filtered_peers \<noteq> [] then
           if stopped (coord s) then Some (s, Some (Finishing p ChannelClosed))
           else Some (s\<lparr>discovery := discovery s @ [filtered_peers]\<rparr>, Some (Finishing p FoundPeers))
         else Some (s, Some (Finishing p NoPeersFound)))"
| "task_turn W cap s (Finishing p result) =
     (if stopped (coord s) then Some (s\<lparr>panicked := panicked s @ [p]\<rparr>, None)
      else if length (task_done s) < cap then Some (s\<lparr>task_done := task_done s @ [result]\<rparr>, None)
      else None)"

definition put_back :: "task option \<Rightarrow> task multiset \<Rightarrow> task multiset" where
  "put_back t M = (case t of None \<Rightarrow> M | Some t' \<Rightarrow> add_mset t' M)"

text \<open>
  The steps of a session. \<open>parallel\<close> says that tasks may run on other threads between the
  two polls of the coordinator's \<^verbatim>\<open>select!\<close>; on a single thread they cannot, for the
  coordinator does not wait there. The caller takes results and may drop its receiver, and
  the results that are waiting in it.
\<close>

inductive crawl_step :: "world \<Rightarrow> nat \<Rightarrow> bool \<Rightarrow> session \<Rightarrow> session \<Rightarrow> bool" for W cap parallel where
  coordinator: "coord_turn cap s = Some t \<Longrightarrow> crawl_step W cap parallel s t"
| task: "tasks s = add_mset a M \<Longrightarrow> task_turn W cap (s\<lparr>tasks := M\<rparr>) a = Some (s', a')
    \<Longrightarrow> coord s \<noteq> PollDone \<or> parallel
    \<Longrightarrow> crawl_step W cap parallel s (s'\<lparr>tasks := put_back a' M\<rparr>)"
| receive: "caller_listens s \<Longrightarrow> crawl_queue s = m # q
    \<Longrightarrow> crawl_step W cap parallel s (s\<lparr>crawl_queue := q\<rparr>)"
| hang_up: "caller_listens s
    \<Longrightarrow> crawl_step W cap parallel s (s\<lparr>caller_listens := False, crawl_queue := []\<rparr>)"

end
