(* ===== verification/Crawler_Tests.thy ===== *)
theory Crawler_Tests
  imports Session
begin

text \<open>
  The unit tests of \<^verbatim>\<open>crawler/src/connection.rs\<close> and the tests of \<open>process\<close> of
  \<^verbatim>\<open>crawler/src/session.rs\<close>, on the crate's mock connections, each as the assertion it
  makes of the model. They hold for every clock that is fast enough for their timeouts. \<open>N\<close>
  is \<^verbatim>\<open>ServiceFlags::NETWORK\<close>, \<open>W\<close> is \<^verbatim>\<open>ServiceFlags::WITNESS\<close>, \<open>NW\<close> both.
\<close>

section \<open>The tests of connections\<close>

definition from_millis :: "nat \<Rightarrow> nat" where
  "from_millis ms = ms * 1000000"

abbreviation ip_192_168_1_1 :: addr_v2 where "ip_192_168_1_1 \<equiv> Ipv4 0xC0A80101"

abbreviation ip_10_0_0_1 :: addr_v2 where "ip_10_0_0_1 \<equiv> Ipv4 0x0A000001"

abbreviation ip_127_0_0_1 :: addr_v2 where "ip_127_0_0_1 \<equiv> Ipv4 0x7F000001"

definition connection_lost :: connection_error where
  "connection_lost = connection_error.Io (IoError BrokenPipe ''Connection lost'')"

definition test_get_peers ::
  "('a) bitcoin_api_scheme \<Rightarrow> mock_peer_connection timer \<Rightarrow> nat \<Rightarrow> u32
   \<Rightarrow> service_flags \<Rightarrow> service_flags \<Rightarrow> service_flags \<Rightarrow> bool" where
  "test_get_peers B T now timestamp N W NW \<longleftrightarrow>
     (case add_addr_message B timestamp [(ip_192_168_1_1, 8333, N), (ip_10_0_0_1, 8333, NW)] mock_new of
        None \<Rightarrow> False
      | Some mock_conn \<Rightarrow>
          (case get_peers B mock_peer_connection_impl T now (from_millis 100) mock_conn of
             Some (Ok peers, mock_conn1) \<Rightarrow>
               length peers = 2 \<and> sent_messages mock_conn1 = [GetAddr]
               \<and> address (peers ! 0) = ip_192_168_1_1 \<and> port (peers ! 0) = 8333 \<and> has_service B (peers ! 0) N
               \<and> address (peers ! 1) = ip_10_0_0_1 \<and> has_service B (peers ! 1) W
           | _ \<Rightarrow> False))"

definition test_get_peers_timeout :: "('a) bitcoin_api_scheme \<Rightarrow> mock_peer_connection timer \<Rightarrow> nat \<Rightarrow> bool" where
  "test_get_peers_timeout B T now \<longleftrightarrow>
     (case get_peers B mock_peer_connection_impl T now (from_millis 50) mock_new of
        Some (Ok peers, mock_conn) \<Rightarrow> length peers = 0 \<and> sent_messages mock_conn = [GetAddr]
      | _ \<Rightarrow> False)"

definition test_get_peers_connection_error :: "('a) bitcoin_api_scheme \<Rightarrow> mock_peer_connection timer \<Rightarrow> nat \<Rightarrow> bool" where
  "test_get_peers_connection_error B T now \<longleftrightarrow>
     (let mock_conn = add_incoming_error mock_new connection_lost
      in case get_peers B mock_peer_connection_impl T now (from_millis 100) mock_conn of
           Some (Err e, mock_conn1) \<Rightarrow> sent_messages mock_conn1 = [GetAddr]
         | _ \<Rightarrow> False)"

section \<open>The tests of \<open>process\<close>\<close>

text \<open>
  A session with nobody else in it: the caller listens, nothing has been tested, and the
  coordinator's channel is open. The mock connector answers at once.
\<close>

definition create_test_session :: "session_config \<times> session_view \<times> mock_connector" where
  "create_test_session =
     (\<lparr>max_concurrent_tasks = 8, peer_timeout = from_millis 50\<rparr>,
      \<lparr>crawl_tx_closed = False, tested_view = {}, discovery_closed = False\<rparr>, mock_connector_new)"

definition test_process ::
  "('a) bitcoin_api_scheme \<Rightarrow> mock_peer_connection timer \<Rightarrow> nat \<Rightarrow> mock_peer_connection list \<Rightarrow> peer
   \<Rightarrow> (task_result \<times> crawler_message list \<times> peer list list) option" where
  "test_process B T now conns p =
     (let (config, view, connector) = create_test_session;
          connector1 = foldl add_connection connector conns
      in process B mock_peer_connection_impl T now config view
           (case fst (mock_connect connector1 p) of Ok c \<Rightarrow> Some (Inr c) | Err e \<Rightarrow> Some (Inl e) | Pending \<Rightarrow> None) p)"

abbreviation test_peer :: peer where
  "test_peer \<equiv> peer_new ip_127_0_0_1 8333"

definition test_process_with_successful_connection ::
  "('a) bitcoin_api_scheme \<Rightarrow> mock_peer_connection timer \<Rightarrow> nat \<Rightarrow> u32
   \<Rightarrow> service_flags \<Rightarrow> service_flags \<Rightarrow> service_flags \<Rightarrow> bool" where
  "test_process_with_successful_connection B T now timestamp N W NW \<longleftrightarrow>
     (case add_addr_message B timestamp [(ip_192_168_1_1, 8333, N), (ip_10_0_0_1, 8333, NW)] mock_new of
        None \<Rightarrow> False
      | Some mock_conn \<Rightarrow>
          (case test_process B T now [mock_conn] test_peer of
             Some (result, Listening p # _, discovered_peers # _) \<Rightarrow>
               result = FoundPeers \<and> address p = ip_127_0_0_1 \<and> port p = 8333
               \<and> length discovered_peers = 2
               \<and> address (discovered_peers ! 0) = ip_192_168_1_1 \<and> port (discovered_peers ! 0) = 8333
               \<and> has_service B (discovered_peers ! 0) N
               \<and> address (discovered_peers ! 1) = ip_10_0_0_1 \<and> port (discovered_peers ! 1) = 8333
               \<and> has_service B (discovered_peers ! 1) W
           | _ \<Rightarrow> False))"

definition test_process_with_no_peers_found ::
  "('a) bitcoin_api_scheme \<Rightarrow> mock_peer_connection timer \<Rightarrow> nat \<Rightarrow> bool" where
  "test_process_with_no_peers_found B T now \<longleftrightarrow>
     (case test_process B T now [mock_new] test_peer of
        Some (result, Listening p # _, discovered) \<Rightarrow>
          result = NoPeersFound \<and> address p = ip_127_0_0_1 \<and> discovered = []
      | _ \<Rightarrow> False)"

definition test_process_with_connection_error ::
  "('a) bitcoin_api_scheme \<Rightarrow> mock_peer_connection timer \<Rightarrow> nat \<Rightarrow> bool" where
  "test_process_with_connection_error B T now \<longleftrightarrow>
     (case test_process B T now [add_incoming_error mock_new connection_lost] test_peer of
        Some (result, Listening _ # _, discovered) \<Rightarrow> result = NoPeersFound \<and> discovered = []
      | _ \<Rightarrow> False)"

definition test_process_with_connection_failure ::
  "('a) bitcoin_api_scheme \<Rightarrow> mock_peer_connection timer \<Rightarrow> nat \<Rightarrow> bool" where
  "test_process_with_connection_failure B T now \<longleftrightarrow>
     (case test_process B T now [] test_peer of
        Some (result, NonListening p # _, discovered) \<Rightarrow>
          result = ConnectionFailed \<and> address p = address test_peer \<and> port p = port test_peer \<and> discovered = []
      | _ \<Rightarrow> False)"

section \<open>They pass\<close>

text \<open>
  \<^verbatim>\<open>Address::new\<close> keeps the services, and \<^verbatim>\<open>Address::socket_addr\<close> gives an IPv4
  socket address back.
\<close>

definition ipv4_address_law :: "('a) bitcoin_api_scheme \<Rightarrow> bool" where
  "ipv4_address_law B \<longleftrightarrow>
     (\<forall>ip p s. address_socket_addr B (address_new B \<lparr>sock_ip = V4 ip, sock_port = p\<rparr> s) = Inr \<lparr>sock_ip = V4 ip, sock_port = p\<rparr>
        \<and> addr_services (address_new B \<lparr>sock_ip = V4 ip, sock_port = p\<rparr> s) = s)"

definition fast_clock :: "mock_peer_connection timer \<Rightarrow> bool" where
  "fast_clock T \<longleftrightarrow>
     timeout_law mock_peer_connection_impl T \<and> clock_advances T
     \<and> (\<exists>delay. prompt mock_peer_connection_impl T delay \<and> 5 * delay < from_millis 50)"

abbreviation test_peers :: "service_flags \<Rightarrow> service_flags \<Rightarrow> peer list" where
  "test_peers N NW \<equiv> [peer_with_services ip_192_168_1_1 8333 N, peer_with_services ip_10_0_0_1 8333 NW]"

lemma mock_with_addresses:
  assumes "ipv4_address_law B"
  shows "\<exists>as. add_addr_message B timestamp [(ip_192_168_1_1, 8333, N), (ip_10_0_0_1, 8333, NW)] mock_new
      = Some (mock_new\<lparr>incoming_messages := [Inr (Addr as)]\<rparr>) \<and> addr_peers B as = test_peers N NW"
  using assms
  by (simp add: add_addr_message_def add_incoming_message_def mock_new_def addr_peers_def ipv4_address_law_def
      List.map_filter_def)

lemma mock_get_peers_found:
  assumes "fast_clock T" and "addr_peers B as = ps" "ps \<noteq> []" and "from_millis 50 \<le> d"
  shows "get_peers B mock_peer_connection_impl T now d (mock_new\<lparr>peer_info := info, incoming_messages := [Inr (Addr as)]\<rparr>)
    = Some (Ok ps, mock_new\<lparr>peer_info := info, sent_messages := [GetAddr]\<rparr>)"
proof -
  obtain delay where T: "timeout_law mock_peer_connection_impl T" "clock_advances T"
    "prompt mock_peer_connection_impl T delay" "5 * delay < d"
    using assms(1,4) by (auto simp: fast_clock_def)
  let ?c1 = "mock_new\<lparr>peer_info := info, incoming_messages := [Inr (Addr as)], sent_messages := [GetAddr]\<rparr>"
  let ?c2 = "mock_new\<lparr>peer_info := info, sent_messages := [GetAddr]\<rparr>"
  have "replies mock_peer_connection_impl ?c1 [Addr as] ?c2" "pc_read mock_peer_connection_impl ?c2 = (Pending, ?c2)"
    by (simp_all add: mock_peer_connection_impl_def mock_read_def mock_new_def)
  from get_peers_loop_prompt [OF T(1,3,2) this, of "[]" B "tick T now" "tick T now" d] T(4) assms(2,3)
  show ?thesis
    by (simp add: get_peers_def mock_peer_connection_impl_def mock_write_def mock_new_def message_peers_def Let_def)
qed

lemma mock_get_peers_quiet:
  assumes "fast_clock T"
  shows "get_peers B mock_peer_connection_impl T now d mock_new = Some (Ok [], mock_new\<lparr>sent_messages := [GetAddr]\<rparr>)"
proof -
  have T: "timeout_law mock_peer_connection_impl T" "clock_advances T" using assms by (auto simp: fast_clock_def)
  from get_peers_loop_quiet [OF this, of "mock_new\<lparr>sent_messages := [GetAddr]\<rparr>"] show ?thesis
    by (simp add: get_peers_def mock_peer_connection_impl_def mock_write_def mock_read_def mock_new_def Let_def)
qed

lemma mock_get_peers_broken:
  assumes "fast_clock T" and "from_millis 50 \<le> d"
  shows "get_peers B mock_peer_connection_impl T now d (add_incoming_error mock_new connection_lost)
    = Some (Err connection_lost, mock_new\<lparr>sent_messages := [GetAddr]\<rparr>)"
proof -
  obtain delay where T: "timeout_law mock_peer_connection_impl T"
    "prompt mock_peer_connection_impl T delay" "2 * delay < d"
    using assms by (auto simp: fast_clock_def)
  let ?c1 = "mock_new\<lparr>incoming_messages := [Inl connection_lost], sent_messages := [GetAddr]\<rparr>"
  have "pc_read mock_peer_connection_impl ?c1 = (Err connection_lost, mock_new\<lparr>sent_messages := [GetAddr]\<rparr>)"
    by (simp add: mock_peer_connection_impl_def mock_read_def mock_new_def)
  from get_peers_loop_error [OF T(1,2) this T(3)] show ?thesis
    by (simp add: get_peers_def add_incoming_error_def mock_peer_connection_impl_def mock_write_def mock_new_def Let_def)
qed

lemma test_process_connected:
  "test_process B T now [c] p =
     process B mock_peer_connection_impl T now \<lparr>max_concurrent_tasks = 8, peer_timeout = from_millis 50\<rparr>
       \<lparr>crawl_tx_closed = False, tested_view = {}, discovery_closed = False\<rparr> (Some (Inr c)) p"
  by (simp add: test_process_def create_test_session_def mock_connector_new_def add_connection_def mock_connect_def)

lemmas process_test_parts = test_process_connected process_def mock_peer_connection_impl_def mock_new_def
  add_incoming_error_def peer_new_def peer_with_services_def has_service_def

text \<open>An example of the parameters: an IPv4 address as two 16 bit numbers.\<close>

definition ipv4_split :: "u32 \<Rightarrow> u16 list" where
  "ipv4_split ip = [word_of_nat (unat ip div 65536), word_of_nat (unat ip mod 65536)]"

definition ipv4_join :: "u16 \<Rightarrow> u16 \<Rightarrow> u32" where
  "ipv4_join h l = word_of_nat (65536 * unat h + unat l)"

definition address_api :: bitcoin_api where
  "address_api = bitcoin_api.truncate (packet_env
     \<lparr>address_new := (\<lambda>sa s. \<lparr>addr_services = s,
         addr_address = (case sock_ip sa of
             V4 ip \<Rightarrow> ipv4_split ip | V6 _ \<Rightarrow> []),
         addr_port = sock_port sa\<rparr>),
      address_socket_addr := (\<lambda>a. case addr_address a of
          [h, l] \<Rightarrow> Inr \<lparr>sock_ip = V4 (ipv4_join h l), sock_port = addr_port a\<rparr>
        | _ \<Rightarrow> Inl (IoError (OtherKind 0) ''no address''))\<rparr>)"

lemma ipv4_split_join: "\<exists>h l. ipv4_split ip = [h, l] \<and> ipv4_join h l = ip"
proof -
  have "unat ip < 4294967296" using unsigned_less [of ip] by simp
  then have "unat ip div 65536 < 65536" by (simp add: less_mult_imp_div_less)
  then have "unat (word_of_nat (unat ip div 65536) :: u16) = unat ip div 65536"
    "unat (word_of_nat (unat ip mod 65536) :: u16) = unat ip mod 65536"
    by (simp_all add: unat_of_nat take_bit_nat_eq_self)
  then have "ipv4_join (word_of_nat (unat ip div 65536)) (word_of_nat (unat ip mod 65536)) = word_of_nat (unat ip)"
    unfolding ipv4_join_def by (simp only: mult_div_mod_eq)
  then show ?thesis by (simp add: ipv4_split_def)
qed

lemma address_api_law: "ipv4_address_law address_api"
  unfolding ipv4_address_law_def
proof (intro allI)
  fix ip p s
  obtain h l where "ipv4_split ip = [h, l]" "ipv4_join h l = ip" using ipv4_split_join by blast
  then show "address_socket_addr address_api (address_new address_api \<lparr>sock_ip = V4 ip, sock_port = p\<rparr> s)
        = Inr \<lparr>sock_ip = V4 ip, sock_port = p\<rparr>
      \<and> addr_services (address_new address_api \<lparr>sock_ip = V4 ip, sock_port = p\<rparr> s) = s"
    by (simp add: address_api_def bitcoin_api.defs)
qed

lemma example_fast_clock: "fast_clock (example_timer mock_peer_connection_impl)"
  unfolding fast_clock_def using example_timer_laws [of mock_peer_connection_impl]
  by (auto simp: from_millis_def intro!: exI [of _ 1])

section \<open>Properties\<close>

text \<open>
  The unit tests of address gathering and of the processing of a peer hold in the model,
  on every clock that is fast enough: addresses are collected, reported and published with
  their services, a silent peer gives no addresses, a broken connection an error that ends
  the task without peers, and a failed connection a non-listening peer.
\<close>

lemma crawler_tests_pass:
  assumes "ipv4_address_law B" and "fast_clock T" and "flags_has B N N" and "flags_has B NW W"
  shows "test_get_peers B T now timestamp N W NW \<and> test_get_peers_timeout B T now
    \<and> test_get_peers_connection_error B T now \<and> test_process_with_successful_connection B T now timestamp N W NW
    \<and> test_process_with_no_peers_found B T now \<and> test_process_with_connection_error B T now
    \<and> test_process_with_connection_failure B T now"
proof (intro conjI)
  obtain as where as: "add_addr_message B timestamp [(ip_192_168_1_1, 8333, N), (ip_10_0_0_1, 8333, NW)] mock_new
      = Some (mock_new\<lparr>incoming_messages := [Inr (Addr as)]\<rparr>)" "addr_peers B as = test_peers N NW"
    using mock_with_addresses [OF assms(1)] by blast
  note found = mock_get_peers_found [OF assms(2) as(2), where info = "peer_info mock_new", simplified]
  show "test_get_peers B T now timestamp N W NW"
    using as(1) found [of "from_millis 100" now] assms(3,4)
    by (simp add: test_get_peers_def has_service_def peer_with_services_def from_millis_def)
  show "test_process_with_successful_connection B T now timestamp N W NW"
    using as(1) found [of "from_millis 50" now] assms(3,4)
    by (simp add: test_process_with_successful_connection_def process_test_parts)
  show "test_get_peers_timeout B T now"
    using mock_get_peers_quiet [OF assms(2), of B now "from_millis 50"] by (simp add: test_get_peers_timeout_def)
  show "test_process_with_no_peers_found B T now"
    using mock_get_peers_quiet [OF assms(2), of B now "from_millis 50"] by (simp add: test_process_with_no_peers_found_def process_test_parts)
  show "test_get_peers_connection_error B T now"
    using mock_get_peers_broken [OF assms(2), of "from_millis 100" B now]
    by (simp add: test_get_peers_connection_error_def from_millis_def)
  show "test_process_with_connection_error B T now"
    using mock_get_peers_broken [OF assms(2), of "from_millis 50" B now]
    by (simp add: test_process_with_connection_error_def process_test_parts)
  show "test_process_with_connection_failure B T now"
    by (simp add: test_process_with_connection_failure_def test_process_def create_test_session_def
        mock_connector_new_def mock_connect_def process_def)
qed

lemma crawler_tests_example:
  "flags_has address_api 9 8 \<and> test_get_peers address_api (example_timer mock_peer_connection_impl) 0 7 1 8 9
   \<and> test_process_with_successful_connection address_api (example_timer mock_peer_connection_impl) 0 7 1 8 9"
proof -
  have "flags_has address_api 1 1" "flags_has address_api 9 8"
    by (simp_all add: address_api_def bitcoin_api.defs example_env_def)
  with crawler_tests_pass [OF address_api_law example_fast_clock this] show ?thesis by blast
qed

end
