(* ===== verification/Session_Invariants.thy ===== *)
theory Session_Invariants
  imports Session
begin

text \<open>
  Invariants of crawl sessions: the accounting of tasks, that no peer is spawned twice, that
  every spawned peer is reported once, and that the peers found are never lost. They are
  put together as one inductive invariant of the session's steps.
\<close>

section \<open>The invariants\<close>

primrec task_peer :: "task \<Rightarrow> peer" where
  "task_peer (Connecting p) = p"
| "task_peer (Reporting p m) = p"
| "task_peer (Discovering p) = p"
| "task_peer (Filtering p ps) = p"
| "task_peer (Finishing p r) = p"

text \<open>Tasks that have yet to report their peer; tasks that may still find peers.\<close>

primrec unsent :: "task \<Rightarrow> bool" where
  "unsent (Connecting p) = True"
| "unsent (Reporting p m) = True"
| "unsent (Discovering p) = False"
| "unsent (Filtering p ps) = False"
| "unsent (Finishing p r) = False"

primrec early :: "task \<Rightarrow> bool" where
  "early (Connecting p) = True"
| "early (Reporting p m) = True"
| "early (Discovering p) = True"
| "early (Filtering p ps) = True"
| "early (Finishing p r) = False"

text \<open>What the caller should hear of a peer, and the peers that testing it brings.\<close>

definition verdict :: "world \<Rightarrow> peer \<Rightarrow> crawler_message" where
  "verdict W p = (case connect_to W p of Some info \<Rightarrow> Listening info | None \<Rightarrow> NonListening p)"

definition found :: "world \<Rightarrow> peer \<Rightarrow> peer set" where
  "found W p =
     (case connect_to W p of
        None \<Rightarrow> {}
      | Some _ \<Rightarrow> (case known_to W p of Some ps \<Rightarrow> set ps | None \<Rightarrow> {}))"

text \<open>The specification of a crawl: the peers that can be reached from the seed.\<close>

inductive_set reach :: "world \<Rightarrow> peer \<Rightarrow> peer set" for W seed where
  seed: "seed \<in> reach W seed"
| found: "p \<in> reach W seed \<Longrightarrow> q \<in> found W p \<Longrightarrow> q \<in> reach W seed"

fun batch_rest :: "coordinator \<Rightarrow> peer set" where
  "batch_rest (Batch ps) = set ps"
| "batch_rest (Admit p ps) = set ps"
| "batch_rest _ = {}"

definition pending :: "session \<Rightarrow> peer set" where
  "pending s = \<Union> (set ` set (discovery s)) \<union> batch_rest (coord s)"

definition counts_inv :: "nat \<Rightarrow> session \<Rightarrow> bool" where
  "counts_inv cap s \<longleftrightarrow>
     active_tasks s \<le> cap \<and> size (tasks s) + length (task_done s) \<le> cap
     \<and> (coord s \<noteq> Stopped HungUp \<longrightarrow> active_tasks s = size (tasks s) + length (task_done s))
     \<and> (coord s = Stopped Exhausted \<longrightarrow> active_tasks s = 0)"

fun admitted :: "coordinator \<Rightarrow> peer set" where
  "admitted (Admit p ps) = {p}"
| "admitted _ = {}"

definition dedup_inv :: "session \<Rightarrow> bool" where
  "dedup_inv s \<longleftrightarrow>
     distinct (spawned s) \<and> admitted (coord s) \<inter> set (spawned s) = {}
     \<and> tested_peers s = set (spawned s) \<union> admitted (coord s)
     \<and> task_peer ` set_mset (tasks s) \<subseteq> set (spawned s)"

definition report_inv :: "session \<Rightarrow> bool" where
  "report_inv s \<longleftrightarrow>
     mset (spawned s) = image_mset task_peer (filter_mset unsent (tasks s))
       + mset (map fst (reports s)) + mset (unreported s)
     \<and> (unreported s \<noteq> [] \<longrightarrow> \<not> caller_listens s)"

primrec phase_ok :: "world \<Rightarrow> task \<Rightarrow> bool" where
  "phase_ok W (Connecting p) \<longleftrightarrow> True"
| "phase_ok W (Reporting p m) \<longleftrightarrow> m = verdict W p"
| "phase_ok W (Discovering p) \<longleftrightarrow> connect_to W p \<noteq> None"
| "phase_ok W (Filtering p ps) \<longleftrightarrow> connect_to W p \<noteq> None \<and> known_to W p = Some ps"
| "phase_ok W (Finishing p r) \<longleftrightarrow> True"

definition phase_inv :: "world \<Rightarrow> session \<Rightarrow> bool" where
  "phase_inv W s \<longleftrightarrow> (\<forall>a \<in># tasks s. phase_ok W a) \<and> (\<forall>(p, m) \<in> set (reports s). m = verdict W p)"

text \<open>The peers whose findings are still to come, or will not come.\<close>

definition early_peers :: "task multiset \<Rightarrow> peer set" where
  "early_peers M = task_peer ` {a \<in> set_mset M. early a}"

definition owed :: "session \<Rightarrow> peer set" where
  "owed s = early_peers (tasks s) \<union> set (unreported s)"

definition closure_inv :: "world \<Rightarrow> peer \<Rightarrow> session \<Rightarrow> bool" where
  "closure_inv W seed s \<longleftrightarrow> coord s \<noteq> Stopped HungUp \<longrightarrow>
     seed \<in> tested_peers s \<union> pending s
     \<and> (\<forall>p \<in> set (spawned s) - owed s. found W p \<subseteq> tested_peers s \<union> pending s)"

definition sound_inv :: "world \<Rightarrow> peer \<Rightarrow> session \<Rightarrow> bool" where
  "sound_inv W seed s \<longleftrightarrow> tested_peers s \<union> pending s \<subseteq> reach W seed"

definition crawl_inv :: "world \<Rightarrow> nat \<Rightarrow> peer \<Rightarrow> session \<Rightarrow> bool" where
  "crawl_inv W cap seed s \<longleftrightarrow>
     counts_inv cap s \<and> dedup_inv s \<and> report_inv s \<and> phase_inv W s \<and> closure_inv W seed s
     \<and> sound_inv W seed s"

section \<open>Every step keeps them\<close>

lemma coord_turn_cases [consumes 1]:
  assumes "coord_turn cap s = Some t"
  obtains
    (hung_up) "coord s = Top" "\<not> caller_listens s" "t = s\<lparr>coord := Stopped HungUp\<rparr>"
  | (look) "coord s = Top" "caller_listens s" "t = s\<lparr>coord := PollPeers\<rparr>"
  | (take_batch) peers rest where "coord s = PollPeers" "discovery s = peers # rest"
      "t = s\<lparr>discovery := rest, coord := Batch peers\<rparr>"
  | (no_batch) "coord s = PollPeers" "discovery s = []" "t = s\<lparr>coord := PollDone\<rparr>"
  | (exhausted) r rest where "coord s = PollDone" "task_done s = r # rest" "active_tasks s - 1 = 0"
      "t = s\<lparr>task_done := rest, active_tasks := 0, coord := Stopped Exhausted\<rparr>"
  | (one_done) r rest where "coord s = PollDone" "task_done s = r # rest" "active_tasks s - 1 \<noteq> 0"
      "t = s\<lparr>task_done := rest, active_tasks := active_tasks s - 1, coord := Top\<rparr>"
  | (park) "coord s = PollDone" "task_done s = []" "t = s\<lparr>coord := Parked\<rparr>"
  | (wake) "coord s = Parked" "discovery s \<noteq> [] \<or> task_done s \<noteq> []" "t = s\<lparr>coord := PollPeers\<rparr>"
  | (batch_end) "coord s = Batch []" "t = s\<lparr>coord := Top\<rparr>"
  | (duplicate) p ps where "coord s = Batch (p # ps)" "p \<in> tested_peers s" "t = s\<lparr>coord := Batch ps\<rparr>"
  | (new_peer) p ps where "coord s = Batch (p # ps)" "p \<notin> tested_peers s"
      "t = s\<lparr>tested_peers := insert p (tested_peers s), coord := Admit p ps\<rparr>"
  | (make_room) p ps r rest where "coord s = Admit p ps" "cap \<le> active_tasks s" "task_done s = r # rest"
      "t = s\<lparr>task_done := rest, active_tasks := active_tasks s - 1\<rparr>"
  | (spawn) p ps where "coord s = Admit p ps" "active_tasks s < cap"
      "t = s\<lparr>active_tasks := active_tasks s + 1, tasks := add_mset (Connecting p) (tasks s),
            spawned := spawned s @ [p], coord := Batch ps\<rparr>"
proof (cases "coord s")
  case Top
  with assms that(1,2) show ?thesis by (auto split: if_splits)
next
  case PollPeers
  with assms that(3,4) show ?thesis by (auto split: list.splits)
next
  case PollDone
  with assms that(5,6,7) show ?thesis by (auto simp: Let_def split: list.splits if_splits)
next
  case Parked
  with assms that(8) show ?thesis by (auto split: if_splits)
next
  case (Batch ps)
  with assms that(9,10,11) show ?thesis by (cases ps) (auto split: if_splits)
next
  case (Admit p ps)
  with assms that(12,13) show ?thesis by (auto split: list.splits if_splits)
next
  case (Stopped w)
  with assms show ?thesis by simp
qed

lemma task_turn_cases [consumes 1]:
  assumes "task_turn W cap s a = Some (s', a')"
  obtains
    (connect) p where "a = Connecting p" "s' = s" "a' = Some (Reporting p (verdict W p))"
  | (closed) p m where "a = Reporting p m" "\<not> caller_listens s"
      "s' = s\<lparr>unreported := unreported s @ [p]\<rparr>" "a' = Some (Finishing p ChannelClosed)"
  | (report) p m where "a = Reporting p m" "caller_listens s" "length (crawl_queue s) < CRAWL_CAPACITY"
      "s' = s\<lparr>crawl_queue := crawl_queue s @ [m], reports := reports s @ [(p, m)]\<rparr>"
      "a' = Some (case m of Listening _ \<Rightarrow> Discovering p | NonListening _ \<Rightarrow> Finishing p ConnectionFailed)"
  | (no_peers) p where "a = Discovering p" "known_to W p = None \<or> known_to W p = Some []"
      "s' = s" "a' = Some (Finishing p NoPeersFound)"
  | (some_peers) p ps where "a = Discovering p" "known_to W p = Some ps"
      "s' = s" "a' = Some (Filtering p ps)"
  | (all_tested) p ps r where "a = Filtering p ps" "set ps \<subseteq> tested_peers s \<or> stopped (coord s)"
      "s' = s" "a' = Some (Finishing p r)"
  | (publish) p ps where "a = Filtering p ps" "\<not> stopped (coord s)"
      "s' = s\<lparr>discovery := discovery s @ [filter (\<lambda>q. q \<notin> tested_peers s) ps]\<rparr>"
      "a' = Some (Finishing p FoundPeers)"
  | (panic) p r where "a = Finishing p r" "stopped (coord s)" "s' = s\<lparr>panicked := panicked s @ [p]\<rparr>" "a' = None"
  | (finish) p r where "a = Finishing p r" "\<not> stopped (coord s)" "length (task_done s) < cap"
      "s' = s\<lparr>task_done := task_done s @ [r]\<rparr>" "a' = None"
proof (cases a)
  case (Connecting p)
  with assms that(1) show ?thesis by (auto simp: verdict_def split: option.splits)
next
  case (Reporting p m)
  with assms that(2,3) show ?thesis by (auto split: if_splits)
next
  case (Discovering p)
  with assms that(4,5) show ?thesis by (auto split: option.splits if_splits)
next
  case (Filtering p ps)
  consider (tested) "filter (\<lambda>q. q \<notin> tested_peers s) ps = []" | (late) "stopped (coord s)"
    | (new) "filter (\<lambda>q. q \<notin> tested_peers s) ps \<noteq> []" "\<not> stopped (coord s)" by blast
  then show ?thesis
  proof cases
    case tested
    then have "(s', a') = (s, Some (Finishing p NoPeersFound))" using assms Filtering by (simp add: Let_def)
    moreover have "set ps \<subseteq> tested_peers s" using tested by (auto simp: filter_empty_conv)
    ultimately show ?thesis using Filtering that(6) by blast
  next
    case late
    then obtain r where "(s', a') = (s, Some (Finishing p r))"
      using assms Filtering by (simp only: task_turn.simps Let_def) (auto split: if_splits)
    then show ?thesis using Filtering that(6) late by blast
  next
    case new
    then show ?thesis using assms Filtering that(7) [of p ps] by (simp add: Let_def)
  qed
next
  case (Finishing p r)
  with assms that(8,9) show ?thesis by (auto split: if_splits)
qed

declare coord_turn.simps [simp del]

lemma coord_counts: "coord_turn cap s = Some t \<Longrightarrow> counts_inv cap s \<Longrightarrow> counts_inv cap t"
  by (erule coord_turn_cases) (auto simp: counts_inv_def)

lemma coord_dedup: "coord_turn cap s = Some t \<Longrightarrow> dedup_inv s \<Longrightarrow> dedup_inv t"
  by (erule coord_turn_cases) (auto simp: dedup_inv_def)

lemma coord_report: "coord_turn cap s = Some t \<Longrightarrow> report_inv s \<Longrightarrow> report_inv t"
  by (erule coord_turn_cases) (simp_all add: report_inv_def)

lemma coord_phase: "coord_turn cap s = Some t \<Longrightarrow> phase_inv W s \<Longrightarrow> phase_inv W t"
  by (erule coord_turn_cases) (simp_all add: phase_inv_def)

lemma coord_frontier:
  "coord_turn cap s = Some t \<Longrightarrow> tested_peers t \<union> pending t = tested_peers s \<union> pending s"
  by (erule coord_turn_cases) (auto simp: pending_def)

lemma coord_sound: "coord_turn cap s = Some t \<Longrightarrow> sound_inv W seed s \<Longrightarrow> sound_inv W seed t"
  unfolding sound_inv_def by (simp only: coord_frontier)

lemma early_peers_add [simp]:
  "early_peers (add_mset a M) = (if early a then insert (task_peer a) (early_peers M) else early_peers M)"
  by (auto simp: early_peers_def)

lemma coord_owed:
  "coord_turn cap s = Some t \<Longrightarrow> set (spawned t) - owed t \<subseteq> set (spawned s) - owed s"
  by (erule coord_turn_cases) (auto simp: owed_def)

lemma coord_closure:
  assumes "coord_turn cap s = Some t" and "closure_inv W seed s"
  shows "closure_inv W seed t"
proof -
  have "coord s \<noteq> Stopped HungUp" using assms(1) by (auto elim: coord_turn_cases)
  with assms(2) coord_owed [OF assms(1)] show ?thesis
    unfolding closure_inv_def coord_frontier [OF assms(1)] by blast
qed

text \<open>A turn of a task, with the task taken out of the session and put back.\<close>

definition task_moves :: "world \<Rightarrow> nat \<Rightarrow> session \<Rightarrow> session \<Rightarrow> bool" where
  "task_moves W cap s t \<longleftrightarrow> (\<exists>a M s' a'. tasks s = add_mset a M
     \<and> task_turn W cap (s\<lparr>tasks := M\<rparr>) a = Some (s', a') \<and> t = s'\<lparr>tasks := put_back a' M\<rparr>)"

lemma put_back_simps [simp]:
  "put_back None M = M" "put_back (Some a) M = add_mset a M"
  by (simp_all add: put_back_def)

lemma stopped_iff: "stopped c \<longleftrightarrow> c = Stopped Exhausted \<or> c = Stopped HungUp"
proof (cases c)
  case (Stopped w)
  then show ?thesis by (cases w) simp_all
qed simp_all

lemma task_moves_cases [consumes 1]:
  assumes "task_moves W cap s t"
  obtains
    (connect) p M where "tasks s = add_mset (Connecting p) M"
      "t = s\<lparr>tasks := add_mset (Reporting p (verdict W p)) M\<rparr>"
  | (closed) p m M where "tasks s = add_mset (Reporting p m) M" "\<not> caller_listens s"
      "t = s\<lparr>tasks := add_mset (Finishing p ChannelClosed) M, unreported := unreported s @ [p]\<rparr>"
  | (report) p m M where "tasks s = add_mset (Reporting p m) M" "caller_listens s"
      "t = s\<lparr>tasks := add_mset (case m of Listening _ \<Rightarrow> Discovering p
                                  | NonListening _ \<Rightarrow> Finishing p ConnectionFailed) M,
            crawl_queue := crawl_queue s @ [m], reports := reports s @ [(p, m)]\<rparr>"
  | (no_peers) p M where "tasks s = add_mset (Discovering p) M" "known_to W p = None \<or> known_to W p = Some []"
      "t = s\<lparr>tasks := add_mset (Finishing p NoPeersFound) M\<rparr>"
  | (some_peers) p ps M where "tasks s = add_mset (Discovering p) M" "known_to W p = Some ps"
      "t = s\<lparr>tasks := add_mset (Filtering p ps) M\<rparr>"
  | (all_tested) p ps r M where "tasks s = add_mset (Filtering p ps) M"
      "set ps \<subseteq> tested_peers s \<or> stopped (coord s)" "t = s\<lparr>tasks := add_mset (Finishing p r) M\<rparr>"
  | (publish) p ps M where "tasks s = add_mset (Filtering p ps) M" "\<not> stopped (coord s)"
      "t = s\<lparr>tasks := add_mset (Finishing p FoundPeers) M,
            discovery := discovery s @ [filter (\<lambda>q. q \<notin> tested_peers s) ps]\<rparr>"
  | (panic) p r M where "tasks s = add_mset (Finishing p r) M" "stopped (coord s)"
      "t = s\<lparr>tasks := M, panicked := panicked s @ [p]\<rparr>"
  | (finish) p r M where "tasks s = add_mset (Finishing p r) M" "\<not> stopped (coord s)"
      "length (task_done s) < cap" "t = s\<lparr>tasks := M, task_done := task_done s @ [r]\<rparr>"
proof -
  obtain a M s' a' where a: "tasks s = add_mset a M" and turn: "task_turn W cap (s\<lparr>tasks := M\<rparr>) a = Some (s', a')"
    and t: "t = s'\<lparr>tasks := put_back a' M\<rparr>"
    using assms unfolding task_moves_def by blast
  from turn show thesis
  proof (cases rule: task_turn_cases)
    case connect
    with a t that(1) show thesis by simp
  next
    case closed
    with a t that(2) show thesis by simp
  next
    case report
    with a t that(3) show thesis by simp
  next
    case no_peers
    with a t that(4) show thesis by simp
  next
    case some_peers
    with a t that(5) show thesis by simp
  next
    case (all_tested p ps r)
    with a t show thesis by (intro that(6) [of p ps M r]) simp_all
  next
    case publish
    with a t that(7) show thesis by simp
  next
    case panic
    with a t that(8) show thesis by simp
  next
    case finish
    with a t that(9) show thesis by simp
  qed
qed

lemma task_counts: "task_moves W cap s t \<Longrightarrow> counts_inv cap s \<Longrightarrow> counts_inv cap t"
  by (erule task_moves_cases) (auto simp: counts_inv_def stopped_iff)

lemma task_dedup: "task_moves W cap s t \<Longrightarrow> dedup_inv s \<Longrightarrow> dedup_inv t"
  by (erule task_moves_cases) (auto simp: dedup_inv_def split: crawler_message.splits)

lemma task_report: "task_moves W cap s t \<Longrightarrow> report_inv s \<Longrightarrow> report_inv t"
  by (erule task_moves_cases) (auto simp: report_inv_def split: crawler_message.splits)

lemma task_phase: "task_moves W cap s t \<Longrightarrow> phase_inv W s \<Longrightarrow> phase_inv W t"
  by (erule task_moves_cases)
    (auto simp: phase_inv_def verdict_def split: crawler_message.splits option.splits)

lemma task_frontier:
  assumes "task_moves W cap s t" and "phase_inv W s"
  shows "tested_peers t = tested_peers s" "pending s \<subseteq> pending t" "coord t = coord s"
    "spawned t = spawned s" "set (unreported s) \<subseteq> set (unreported t)"
    "pending t \<subseteq> pending s \<union> (\<Union>a \<in> set_mset (tasks s). found W (task_peer a))"
  using assms
  by (auto elim!: task_moves_cases simp: pending_def phase_inv_def found_def split: crawler_message.splits)

lemma found_reach: "p \<in> reach W seed \<Longrightarrow> found W p \<subseteq> reach W seed"
  by (auto intro: reach.found)

lemma task_sound:
  assumes "task_moves W cap s t" and "phase_inv W s" and "dedup_inv s" and "sound_inv W seed s"
  shows "sound_inv W seed t"
proof -
  have "task_peer a \<in> reach W seed" if "a \<in># tasks s" for a
    using assms(3,4) that unfolding dedup_inv_def sound_inv_def by blast
  then have "(\<Union>a \<in> set_mset (tasks s). found W (task_peer a)) \<subseteq> reach W seed"
    using found_reach by blast
  with task_frontier [OF assms(1,2)] assms(4) show ?thesis unfolding sound_inv_def by blast
qed

lemma task_owed:
  assumes "task_moves W cap s t" and "phase_inv W s" and "coord s \<noteq> Stopped HungUp" and "counts_inv cap s"
  shows "owed s \<subseteq> owed t \<or> (\<exists>p. owed s \<subseteq> insert p (owed t) \<and> found W p \<subseteq> tested_peers t \<union> pending t)"
  using assms(1)
proof (cases rule: task_moves_cases)
  case (report p m M)
  have "m = verdict W p" using assms(2) report(1) by (simp add: phase_inv_def)
  then have "found W p = {} \<or> (\<exists>info. m = Listening info)"
    by (auto simp: verdict_def found_def split: option.splits)
  then show ?thesis
  proof
    assume "found W p = {}"
    with report(1,3) show ?thesis
      by (intro disjI2 exI [of _ p]) (auto simp: owed_def split: crawler_message.splits)
  next
    assume "\<exists>info. m = Listening info"
    with report(1,3) show ?thesis by (auto simp: owed_def)
  qed
next
  case (no_peers p M)
  then have "found W p = {}" by (auto simp: found_def split: option.splits)
  with no_peers(1,3) show ?thesis by (intro disjI2 exI [of _ p]) (simp add: owed_def)
next
  case (all_tested p ps r M)
  have "found W p = set ps" using assms(2) all_tested(1) by (auto simp: phase_inv_def found_def)
  moreover have "\<not> stopped (coord s)" using assms(3,4) all_tested(1) by (auto simp: stopped_iff counts_inv_def)
  ultimately show ?thesis using all_tested by (intro disjI2 exI [of _ p]) (auto simp: owed_def)
next
  case (publish p ps M)
  have "found W p = set ps" using assms(2) publish(1) by (auto simp: phase_inv_def found_def)
  with publish show ?thesis by (intro disjI2 exI [of _ p]) (auto simp: owed_def pending_def)
next
  case (panic p r M)
  then show ?thesis using assms(3,4) by (auto simp: stopped_iff counts_inv_def)
qed (auto simp: owed_def)

lemma task_closure:
  assumes "task_moves W cap s t" and "phase_inv W s" and "counts_inv cap s" and "closure_inv W seed s"
  shows "closure_inv W seed t"
proof (cases "coord s = Stopped HungUp")
  case True
  then show ?thesis using task_frontier(3) [OF assms(1,2)] by (simp add: closure_inv_def)
next
  case False
  have ow: "q \<in> set (spawned s) - owed s \<or> found W q \<subseteq> tested_peers t \<union> pending t"
    if "q \<in> set (spawned t) - owed t" for q
    using that task_owed [OF assms(1,2) False assms(3)] task_frontier(4) [OF assms(1,2)] by auto
  have mono: "tested_peers s \<union> pending s \<subseteq> tested_peers t \<union> pending t"
    using task_frontier(1,2) [OF assms(1,2)] by auto
  have "seed \<in> tested_peers s \<union> pending s"
    "\<forall>q \<in> set (spawned s) - owed s. found W q \<subseteq> tested_peers s \<union> pending s"
    using False assms(4) unfolding closure_inv_def by auto
  then have "seed \<in> tested_peers t \<union> pending t"
    "\<forall>q \<in> set (spawned t) - owed t. found W q \<subseteq> tested_peers t \<union> pending t"
    using ow mono by (blast, meson subset_trans)
  then show ?thesis unfolding closure_inv_def by blast
qed

section \<open>Reachable sessions\<close>

definition crawl_start :: "session_config \<Rightarrow> peer \<Rightarrow> session \<Rightarrow> bool" where
  "crawl_start cfg seed s \<longleftrightarrow> coordinate_start cfg seed = Some s"

lemma start_inv: "crawl_start cfg seed s \<Longrightarrow> crawl_inv W cap seed s"
  by (auto simp: crawl_start_def coordinate_start_def crawl_inv_def counts_inv_def dedup_inv_def
      report_inv_def phase_inv_def closure_inv_def sound_inv_def pending_def owed_def reach.seed
      split: if_splits)

lemma caller_parts:
  "counts_inv cap (s\<lparr>caller_listens := b, crawl_queue := q\<rparr>) = counts_inv cap s"
  "dedup_inv (s\<lparr>caller_listens := b, crawl_queue := q\<rparr>) = dedup_inv s"
  "phase_inv W (s\<lparr>caller_listens := b, crawl_queue := q\<rparr>) = phase_inv W s"
  "closure_inv W seed (s\<lparr>caller_listens := b, crawl_queue := q\<rparr>) = closure_inv W seed s"
  "sound_inv W seed (s\<lparr>caller_listens := b, crawl_queue := q\<rparr>) = sound_inv W seed s"
  "report_inv s \<Longrightarrow> b \<longrightarrow> caller_listens s \<Longrightarrow> report_inv (s\<lparr>caller_listens := b, crawl_queue := q\<rparr>)"
  by (simp_all add: counts_inv_def dedup_inv_def phase_inv_def closure_inv_def sound_inv_def pending_def
      owed_def report_inv_def, blast)

lemma caller_inv:
  "crawl_inv W cap seed s \<Longrightarrow> b \<longrightarrow> caller_listens s
   \<Longrightarrow> crawl_inv W cap seed (s\<lparr>caller_listens := b, crawl_queue := q\<rparr>)"
  by (simp add: crawl_inv_def caller_parts)

lemma crawl_step_inv:
  assumes "crawl_step W cap parallel s t" and "crawl_inv W cap seed s"
  shows "crawl_inv W cap seed t"
  using assms(1)
proof (cases rule: crawl_step.cases)
  case coordinator
  from coord_counts [OF this] coord_dedup [OF this] coord_report [OF this] coord_phase [OF this]
    coord_closure [OF this] coord_sound [OF this] assms(2)
  show ?thesis unfolding crawl_inv_def by blast
next
  case (task a M s' a')
  then have "task_moves W cap s t" unfolding task_moves_def by blast
  from task_counts [OF this] task_dedup [OF this] task_report [OF this] task_phase [OF this]
    task_closure [OF this] task_sound [OF this] assms(2)
  show ?thesis unfolding crawl_inv_def by blast
next
  case (receive m q)
  then have "t = s\<lparr>caller_listens := True, crawl_queue := q\<rparr>" by (cases s) simp
  with assms(2) receive show ?thesis using caller_inv by simp
next
  case hang_up
  with assms(2) show ?thesis using caller_inv by simp
qed

interpretation crawl: inductive_invariant "crawl_start cfg seed" "crawl_step W cap parallel" "crawl_inv W cap seed"
  using start_inv crawl_step_inv by unfold_locales

end
