(* ===== verification/Session_Properties.thy ===== *)
theory Session_Properties
  imports Session_Invariants
begin

text \<open>
  What a crawl session guarantees: every peer is tested at most once and reported truthfully,
  the number of tasks is bounded, the session is never stuck, and on a single thread it ends
  only when everything that can be reached from the seed has been tested and reported. On
  several threads the last property fails, as a run shows: what is missing then is in batches
  that the coordinator has not read.
\<close>

section \<open>Sessions on one thread\<close>

definition serial_inv :: "session \<Rightarrow> bool" where
  "serial_inv s \<longleftrightarrow> coord s = PollDone \<or> coord s = Stopped Exhausted \<longrightarrow> discovery s = []"

lemma serial_step:
  assumes "crawl_step W cap False s t" and "crawl_inv W cap seed s" and "serial_inv s"
  shows "serial_inv t"
  using assms(1)
proof (cases rule: crawl_step.cases)
  case coordinator
  then show ?thesis using assms(3) by (elim coord_turn_cases) (simp_all add: serial_inv_def)
next
  case (task a M s' a')
  then have "task_moves W cap s t" unfolding task_moves_def by blast
  moreover have "coord s \<noteq> PollDone" using task by simp
  moreover have "coord s \<noteq> Stopped Exhausted"
    using assms(2) task(2) by (auto simp: crawl_inv_def counts_inv_def)
  ultimately show ?thesis by (elim task_moves_cases) (auto simp: serial_inv_def)
qed (use assms(3) in \<open>simp_all add: serial_inv_def\<close>)

interpretation serial: inductive_invariant "crawl_start cfg seed" "crawl_step W cap False"
  "\<lambda>s. crawl_inv W cap seed s \<and> serial_inv s"
proof
  show "crawl_inv W cap seed s \<and> serial_inv s" if "crawl_start cfg seed s" for s
    using start_inv that by (auto simp: serial_inv_def crawl_start_def coordinate_start_def split: if_splits)
  show "crawl_inv W cap seed t \<and> serial_inv t"
    if "crawl_inv W cap seed s \<and> serial_inv s" "crawl_step W cap False s t" for s t
    using crawl_step_inv serial_step that by blast
qed

section \<open>There is always a task to wait for\<close>

definition active_inv :: "peer \<Rightarrow> session \<Rightarrow> bool" where
  "active_inv seed s \<longleftrightarrow>
     (case coord s of
        Top \<Rightarrow> 0 < active_tasks s \<or> tested_peers s = {} \<and> discovery s = [[seed]]
      | PollPeers \<Rightarrow> 0 < active_tasks s \<or> tested_peers s = {} \<and> discovery s = [[seed]]
      | PollDone \<Rightarrow> 0 < active_tasks s
      | Parked \<Rightarrow> 0 < active_tasks s
      | Batch ps \<Rightarrow> 0 < active_tasks s \<or> tested_peers s = {} \<and> ps = [seed]
      | Admit p ps \<Rightarrow> True
      | Stopped w \<Rightarrow> True)"

lemma task_active: "task_moves W cap s t \<Longrightarrow> counts_inv cap s \<Longrightarrow> active_inv seed s \<Longrightarrow> active_inv seed t"
  by (erule task_moves_cases) (auto simp: active_inv_def counts_inv_def split: coordinator.splits)

lemma active_step:
  assumes "crawl_step W cap parallel s t" and "crawl_inv W cap seed s" and "active_inv seed s"
  shows "active_inv seed t"
  using assms(1)
proof (cases rule: crawl_step.cases)
  case coordinator
  then show ?thesis using assms(3) by (elim coord_turn_cases) (auto simp: active_inv_def)
next
  case (task a M s' a')
  then have "task_moves W cap s t" unfolding task_moves_def by blast
  with assms(2,3) task_active show ?thesis unfolding crawl_inv_def by blast
qed (use assms(3) in \<open>simp_all add: active_inv_def split: coordinator.splits\<close>)

interpretation lively: inductive_invariant "crawl_start cfg seed" "crawl_step W cap parallel"
  "\<lambda>s. crawl_inv W cap seed s \<and> active_inv seed s"
proof
  show "crawl_inv W cap seed s \<and> active_inv seed s" if "crawl_start cfg seed s" for s
    using start_inv that by (auto simp: active_inv_def crawl_start_def coordinate_start_def split: if_splits)
  show "crawl_inv W cap seed t \<and> active_inv seed t"
    if "crawl_inv W cap seed s \<and> active_inv seed s" "crawl_step W cap parallel s t" for s t
    using crawl_step_inv active_step that by blast
qed

text \<open>A task can move, unless it has to wait for the caller to take a result.\<close>

lemma task_can_move:
  assumes "counts_inv cap s" and "a \<in># tasks s" and "\<not> stopped (coord s)"
    and "length (crawl_queue s) < CRAWL_CAPACITY"
  shows "\<exists>t. task_moves W cap s t"
proof -
  obtain M where M: "tasks s = add_mset a M" using assms(2) by (metis multi_member_split)
  have "length (task_done s) < cap" using assms(1) M by (simp add: counts_inv_def)
  then have "\<exists>s' a'. task_turn W cap (s\<lparr>tasks := M\<rparr>) a = Some (s', a')"
    using assms(3,4) by (cases a) (simp_all add: Let_def split: option.splits)
  with M show ?thesis unfolding task_moves_def by blast
qed

lemma coordinator_waits:
  assumes "coord_turn cap s = None" and "\<not> stopped (coord s)" and "active_inv seed s" and "0 < cap"
  shows "0 < active_tasks s \<and> task_done s = [] \<and> coord s \<noteq> PollDone"
  using assms
  by (cases "coord s")
    (auto simp: coord_turn.simps active_inv_def Let_def split: list.splits if_splits)

text \<open>The seed is the first peer to be tested.\<close>

definition seed_inv :: "peer \<Rightarrow> session \<Rightarrow> bool" where
  "seed_inv seed s \<longleftrightarrow> seed \<in> tested_peers s
     \<or> tested_peers s = {} \<and> tasks s = {#} \<and> task_done s = []
       \<and> (coord s \<in> {Top, PollPeers} \<and> discovery s = [[seed]] \<or> coord s \<in> {Batch [seed], Stopped HungUp})"

lemma seed_step:
  assumes "crawl_step W cap parallel s t" and "seed_inv seed s"
  shows "seed_inv seed t"
  using assms(1)
proof (cases rule: crawl_step.cases)
  case coordinator
  then show ?thesis using assms(2) by (elim coord_turn_cases) (auto simp: seed_inv_def)
next
  case (task a M s' a')
  then have "task_moves W cap s t" "tasks s \<noteq> {#}" unfolding task_moves_def by auto
  then show ?thesis using assms(2) by (elim task_moves_cases) (auto simp: seed_inv_def)
qed (use assms(2) in \<open>simp_all add: seed_inv_def\<close>)

interpretation seeded: inductive_invariant "crawl_start cfg seed" "crawl_step W cap parallel" "seed_inv seed"
proof
  show "seed_inv seed s" if "crawl_start cfg seed s" for s
    using that by (auto simp: seed_inv_def crawl_start_def coordinate_start_def split: if_splits)
  show "seed_inv seed t" if "seed_inv seed s" "crawl_step W cap parallel s t" for s t
    using seed_step that by blast
qed

section \<open>Lemmas\<close>

lemma exhausted_no_tasks:
  "crawl_inv W cap seed s \<Longrightarrow> coord s = Stopped Exhausted \<Longrightarrow> tasks s = {#} \<and> task_done s = []"
  by (auto simp: crawl_inv_def counts_inv_def)

lemma exhausted_closed:
  assumes "crawl_inv W cap seed s" and "coord s = Stopped Exhausted" and "caller_listens s"
  shows "seed \<in> tested_peers s \<union> \<Union> (set ` set (discovery s))"
    and "p \<in> tested_peers s \<Longrightarrow> found W p \<subseteq> tested_peers s \<union> \<Union> (set ` set (discovery s))"
proof -
  have "pending s = \<Union> (set ` set (discovery s))" "owed s = {}" "set (spawned s) = tested_peers s"
    using assms exhausted_no_tasks [OF assms(1,2)]
    by (auto simp: pending_def owed_def early_peers_def crawl_inv_def report_inv_def dedup_inv_def)
  then show "seed \<in> tested_peers s \<union> \<Union> (set ` set (discovery s))"
    "p \<in> tested_peers s \<Longrightarrow> found W p \<subseteq> tested_peers s \<union> \<Union> (set ` set (discovery s))"
    using assms(1,2) by (auto simp: crawl_inv_def closure_inv_def)
qed

lemma exhausted_reach:
  assumes "crawl_inv W cap seed s" and "discovery s = []" and "coord s = Stopped Exhausted" and "caller_listens s"
  shows "tested_peers s = reach W seed"
proof
  show "tested_peers s \<subseteq> reach W seed"
    using assms(1) by (simp add: crawl_inv_def sound_inv_def)
  have "p \<in> tested_peers s" if "p \<in> reach W seed" for p
    using that by (induction rule: reach.induct) (use exhausted_closed [OF assms(1,3,4)] assms(2) in auto)
  then show "reach W seed \<subseteq> tested_peers s" by blast
qed

lemma reported_once:
  assumes "crawl_inv W cap seed s"
  shows "distinct (map fst (reports s))" and "set (map fst (reports s)) \<subseteq> set (spawned s)"
proof -
  have m: "mset (spawned s) = image_mset task_peer (filter_mset unsent (tasks s))
      + mset (map fst (reports s)) + mset (unreported s)" and "distinct (spawned s)"
    using assms by (auto simp: crawl_inv_def report_inv_def dedup_inv_def)
  obtain zs where "mset zs = image_mset task_peer (filter_mset unsent (tasks s)) + mset (unreported s)"
    using ex_mset by blast
  with m have e: "mset (map fst (reports s) @ zs) = mset (spawned s)" by simp
  from mset_eq_imp_distinct_iff [OF e] mset_eq_setD [OF e] \<open>distinct (spawned s)\<close>
  show "distinct (map fst (reports s))" "set (map fst (reports s)) \<subseteq> set (spawned s)" by auto
qed

lemma exhausted_reports:
  assumes "crawl_inv W cap seed s" and "coord s = Stopped Exhausted" and "caller_listens s"
  shows "set (map fst (reports s)) = tested_peers s"
proof -
  have "mset (spawned s) = mset (map fst (reports s))"
    using assms exhausted_no_tasks [OF assms(1,2)] by (simp add: crawl_inv_def report_inv_def)
  then have "set (spawned s) = set (map fst (reports s))" by (metis set_mset_mset)
  with assms show ?thesis by (simp add: crawl_inv_def dedup_inv_def)
qed

lemma exhausted_verdicts:
  assumes "crawl_inv W cap seed s" and "coord s = Stopped Exhausted" and "caller_listens s"
  shows "set (reports s) = {(p, verdict W p) | p. p \<in> tested_peers s}"
proof -
  have "\<forall>(p, m) \<in> set (reports s). m = verdict W p"
    using assms(1) by (simp add: crawl_inv_def phase_inv_def)
  moreover have "fst ` set (reports s) = tested_peers s" using exhausted_reports [OF assms] by simp
  ultimately show ?thesis by force
qed

lemma exhausted_complete:
  assumes inv: "crawl_inv W cap seed s" and ser: "serial_inv s" and ex: "coord s = Stopped Exhausted" "caller_listens s"
  shows "tested_peers s = reach W seed
    \<and> set (reports s) = {(p, verdict W p) | p. p \<in> reach W seed} \<and> distinct (map fst (reports s))
    \<and> tasks s = {#} \<and> discovery s = []"
proof -
  have "discovery s = []" using ser ex(1) by (simp add: serial_inv_def)
  with exhausted_reach [OF inv _ ex] exhausted_verdicts [OF inv ex] reported_once(1) [OF inv]
    exhausted_no_tasks [OF inv ex(1)] show ?thesis by simp
qed

lemma session_progress:
  assumes cnt: "counts_inv cap s" and act: "active_inv seed s" and cap: "0 < cap"
    and run: "\<not> stopped (coord s)" and room: "length (crawl_queue s) < CRAWL_CAPACITY"
    and wait: "coord_turn cap s = None"
  shows "coord s \<noteq> PollDone \<and> (\<exists>t. task_moves W cap s t)"
proof -
  have w: "0 < active_tasks s" "task_done s = []" "coord s \<noteq> PollDone"
    using coordinator_waits [OF wait run act cap] by auto
  then obtain a where "a \<in># tasks s"
    using cnt run by (cases "tasks s") (auto simp: counts_inv_def stopped_iff)
  from task_can_move [OF cnt this run room] w(3) show ?thesis by blast
qed

lemma crawl_start_capacity: "crawl_start cfg seed s \<Longrightarrow> 0 < max_concurrent_tasks cfg"
  by (auto simp: crawl_start_def coordinate_start_def split: if_splits)

section \<open>Tasks do what \<open>process\<close> does\<close>

text \<open>A task on its own, until it has its result.\<close>

fun run_task :: "world \<Rightarrow> nat \<Rightarrow> nat \<Rightarrow> session \<Rightarrow> task \<Rightarrow> session \<times> task" where
  "run_task W cap n s (Finishing p r) = (s, Finishing p r)"
| "run_task W cap 0 s a = (s, a)"
| "run_task W cap (Suc n) s a =
     (case task_turn W cap s a of Some (s', Some a') \<Rightarrow> run_task W cap n s' a' | _ \<Rightarrow> (s, a))"

text \<open>The network that a task's own connection shows it, and what it sees of the session.\<close>

definition task_world ::
  "('a) bitcoin_api_scheme \<Rightarrow> 'c peer_connection \<Rightarrow> 'c timer \<Rightarrow> nat \<Rightarrow> session_config
   \<Rightarrow> (connection_error + 'c) option \<Rightarrow> world" where
  "task_world B P T now cfg connected =
     \<lparr>connect_to = (\<lambda>_. case connected of Some (Inr c) \<Rightarrow> Some (pc_peer P c) | _ \<Rightarrow> None),
      known_to = (\<lambda>_. case connected of
          Some (Inr c) \<Rightarrow> (case get_peers B P T now (peer_timeout cfg) c of
                             Some (Ok ps, _) \<Rightarrow> Some ps | _ \<Rightarrow> None)
        | _ \<Rightarrow> None)\<rparr>"

definition view_of :: "session \<Rightarrow> session_view" where
  "view_of s = \<lparr>crawl_tx_closed = \<not> caller_listens s, tested_view = tested_peers s,
                discovery_closed = stopped (coord s)\<rparr>"

text \<open>
  The tasks of the step relation do what \<open>process\<close> does. A task that runs undisturbed,
  with room in the channel to the caller, ends with the result that \<open>process\<close> returns in
  the same situation, having sent the same messages to the caller and the same batches of
  peers to the coordinator.
\<close>

lemma process_refines_task:
  assumes "process B P T now cfg (view_of s) connected p = Some (result, messages, batches)"
    and "length (crawl_queue s) < CRAWL_CAPACITY"
  shows "\<exists>s'. run_task (task_world B P T now cfg connected) cap 4 s (Connecting p) = (s', Finishing p result)
    \<and> crawl_queue s' = crawl_queue s @ messages \<and> discovery s' = discovery s @ batches"
proof (cases "\<exists>c. connected = Some (Inr c)")
  case False
  then show ?thesis
    using assms by (auto simp: process_def view_of_def task_world_def eval_nat_numeral
        split: option.splits sum.splits if_splits)
next
  case True
  then obtain c where c: "connected = Some (Inr c)" by blast
  show ?thesis
    using assms c
    by (auto simp: process_def view_of_def task_world_def eval_nat_numeral Let_def
        split: option.splits outcome.splits if_splits)
qed

section \<open>An example network\<close>

definition peer_number :: "u32 \<Rightarrow> peer" where
  "peer_number n = peer_with_services (Ipv4 n) 8333 1"

text \<open>Peer 1 knows peers 2 and 3, peer 2 knows peer 1, peer 3 does not listen.\<close>

definition small_world :: world where
  "small_world =
     \<lparr>connect_to = (\<lambda>p. if p = peer_number 3 then None else Some p),
      known_to = (\<lambda>p. if p = peer_number 1 then Some [peer_number 2, peer_number 3]
                      else if p = peer_number 2 then Some [peer_number 1] else None)\<rparr>"

definition two_tasks :: session_config where
  "two_tasks = \<lparr>max_concurrent_tasks = 2, peer_timeout = from_secs 20\<rparr>"

definition start_session :: session where
  "start_session = the (coordinate_start two_tasks (peer_number 1))"

lemma start_session: "crawl_start two_tasks (peer_number 1) start_session"
  by (simp add: crawl_start_def start_session_def coordinate_start_def two_tasks_def)

lemma peer_number_eq [simp]: "peer_number m = peer_number n \<longleftrightarrow> m = n"
  by (simp add: peer_number_def peer_with_services_def)

text \<open>Schedules: who moves next.\<close>

datatype move = Coordinator | Run task | HangUp

fun apply_move :: "world \<Rightarrow> nat \<Rightarrow> bool \<Rightarrow> move \<Rightarrow> session \<Rightarrow> session option" where
  "apply_move W cap parallel Coordinator s = coord_turn cap s"
| "apply_move W cap parallel (Run a) s =
     (if a \<in># tasks s \<and> (coord s \<noteq> PollDone \<or> parallel) then
        (case task_turn W cap (s\<lparr>tasks := tasks s - {#a#}\<rparr>) a of
           Some (s', a') \<Rightarrow> Some (s'\<lparr>tasks := put_back a' (tasks s - {#a#})\<rparr>)
         | None \<Rightarrow> None)
      else None)"
| "apply_move W cap parallel HangUp s =
     (if caller_listens s then Some (s\<lparr>caller_listens := False, crawl_queue := []\<rparr>) else None)"

primrec apply_moves :: "world \<Rightarrow> nat \<Rightarrow> bool \<Rightarrow> move list \<Rightarrow> session \<Rightarrow> session option" where
  "apply_moves W cap parallel [] s = Some s"
| "apply_moves W cap parallel (m # ms) s =
     (case apply_move W cap parallel m s of Some t \<Rightarrow> apply_moves W cap parallel ms t | None \<Rightarrow> None)"

lemma apply_move_step: "apply_move W cap parallel m s = Some t \<Longrightarrow> crawl_step W cap parallel s t"
proof (cases m)
  case (Run a)
  assume "apply_move W cap parallel m s = Some t"
  with Run show ?thesis
    by (auto split: if_splits option.splits intro!: crawl_step.task [of s a "tasks s - {#a#}"])
qed (auto intro: crawl_step.coordinator crawl_step.hang_up split: if_splits)

lemma apply_moves_steps:
  "apply_moves W cap parallel ms s = Some t \<Longrightarrow> (crawl_step W cap parallel)\<^sup>*\<^sup>* s t"
  by (induction ms arbitrary: s)
    (auto split: option.splits intro: apply_move_step converse_rtranclp_into_rtranclp)

lemmas run_simps = coord_turn.simps start_session_def coordinate_start_def two_tasks_def small_world_def
  CRAWL_CAPACITY_def Let_def

text \<open>A complete crawl of the example network.\<close>

definition full_schedule :: "move list" where
  "full_schedule =
     [Coordinator, Coordinator, Coordinator, Coordinator, Coordinator,
      Run (Connecting (peer_number 1)), Run (Reporting (peer_number 1) (Listening (peer_number 1))),
      Run (Discovering (peer_number 1)),
      Run (Filtering (peer_number 1) [peer_number 2, peer_number 3]),
      Run (Finishing (peer_number 1) FoundPeers),
      Coordinator, Coordinator, Coordinator, Coordinator, Coordinator, Coordinator, Coordinator,
      Coordinator, Coordinator, Coordinator, Coordinator,
      Run (Connecting (peer_number 2)), Run (Reporting (peer_number 2) (Listening (peer_number 2))),
      Run (Discovering (peer_number 2)), Run (Filtering (peer_number 2) [peer_number 1]),
      Run (Connecting (peer_number 3)), Run (Reporting (peer_number 3) (NonListening (peer_number 3))),
      Run (Finishing (peer_number 3) ConnectionFailed), Run (Finishing (peer_number 2) NoPeersFound),
      Coordinator, Coordinator, Coordinator, Coordinator, Coordinator, Coordinator]"

lemma full_crawl:
  "map_option (\<lambda>s. (coord s, caller_listens s, spawned s))
     (apply_moves small_world 2 False full_schedule start_session)
   = Some (Stopped Exhausted, True, [peer_number 1, peer_number 2, peer_number 3])"
  unfolding full_schedule_def by (simp add: run_simps)

section \<open>Properties\<close>

text \<open>
  C9. Deduplication. At every moment of a crawl, on any number of threads, no peer has been
  given to a task twice, and no peer has been reported to the caller twice; only peers that
  can be reached from the seed are tested; and every report is true: a peer is reported as
  listening exactly when a connection to it was established.
\<close>

theorem crawl_tests_each_peer_once:
  assumes "crawl_start cfg seed s0" and "(crawl_step W (max_concurrent_tasks cfg) parallel)\<^sup>*\<^sup>* s0 s"
  shows "distinct (spawned s) \<and> set (spawned s) \<subseteq> tested_peers s \<and> tested_peers s \<subseteq> reach W seed
    \<and> distinct (map fst (reports s)) \<and> set (map fst (reports s)) \<subseteq> set (spawned s)
    \<and> (\<forall>(p, m) \<in> set (reports s). m = verdict W p)"
proof -
  have inv: "crawl_inv W (max_concurrent_tasks cfg) seed s"
    using crawl.reachable_inv [OF assms] .
  with reported_once [OF inv] show ?thesis
    by (auto simp: crawl_inv_def dedup_inv_def sound_inv_def phase_inv_def)
qed

theorem crawl_tests_each_peer_once_witness:
  "\<exists>s. (crawl_step small_world 2 False)\<^sup>*\<^sup>* start_session s
     \<and> spawned s = [peer_number 1, peer_number 2, peer_number 3]
     \<and> distinct (spawned s) \<and> tested_peers s \<subseteq> reach small_world (peer_number 1)"
proof -
  obtain s where s: "apply_moves small_world 2 False full_schedule start_session = Some s"
    "spawned s = [peer_number 1, peer_number 2, peer_number 3]"
    using full_crawl by auto
  from apply_moves_steps [OF s(1)] crawl_tests_each_peer_once [OF start_session, of small_world False s] s(2)
  show ?thesis by (auto simp: two_tasks_def)
qed

text \<open>
  C21. Bounded concurrency. At every moment at most \<open>max_concurrent_tasks\<close> tasks are running,
  the coordinator's count is the number of tasks that have not been seen to finish, so it
  never underflows, and the completion channel always has room for a task that finishes.
\<close>

theorem crawl_concurrency_bounded:
  assumes "crawl_start cfg seed s0" and "(crawl_step W (max_concurrent_tasks cfg) parallel)\<^sup>*\<^sup>* s0 s"
  shows "size (tasks s) \<le> max_concurrent_tasks cfg
    \<and> (coord s \<noteq> Stopped HungUp \<longrightarrow>
         active_tasks s = size (tasks s) + length (task_done s)
         \<and> (task_done s \<noteq> [] \<longrightarrow> 0 < active_tasks s))
    \<and> (tasks s \<noteq> {#} \<longrightarrow> length (task_done s) < max_concurrent_tasks cfg)"
proof -
  have "counts_inv (max_concurrent_tasks cfg) s"
    using crawl.reachable_inv [OF assms] by (simp add: crawl_inv_def)
  then show ?thesis
    by (cases "tasks s") (auto simp: counts_inv_def)
qed

theorem crawl_concurrency_bounded_witness:
  "\<exists>s. (crawl_step small_world 2 False)\<^sup>*\<^sup>* start_session s
     \<and> tasks s = {#Connecting (peer_number 2), Connecting (peer_number 3)#} \<and> active_tasks s = 2"
proof -
  have "map_option (\<lambda>s. (tasks s, task_done s, coord s)) (apply_moves small_world 2 False (take 17 full_schedule) start_session)
    = Some ({#Connecting (peer_number 2), Connecting (peer_number 3)#}, [], Batch [])"
    by (simp add: run_simps full_schedule_def)
  then obtain s where s: "apply_moves small_world 2 False (take 17 full_schedule) start_session = Some s"
    "tasks s = {#Connecting (peer_number 2), Connecting (peer_number 3)#}" "task_done s = []" "coord s = Batch []" by auto
  from apply_moves_steps [OF s(1)] crawl_concurrency_bounded [OF start_session, of small_world False s] s(2-4)
  show ?thesis by (auto simp: two_tasks_def)
qed

text \<open>
  The result of a crawl. On a single thread, a session that ends with all tasks finished
  while the caller was listening has tested exactly the peers that can be reached from the
  seed, and has reported each of them exactly once, truthfully; nothing is left to do.
\<close>

lemma crawl_complete:
  assumes "crawl_start cfg seed s0" and "(crawl_step W (max_concurrent_tasks cfg) False)\<^sup>*\<^sup>* s0 s"
    and "coord s = Stopped Exhausted" and "caller_listens s"
  shows "tested_peers s = reach W seed
    \<and> set (reports s) = {(p, verdict W p) | p. p \<in> reach W seed} \<and> distinct (map fst (reports s))
    \<and> tasks s = {#} \<and> discovery s = []"
  using exhausted_complete serial.reachable_inv [OF assms(1,2)] assms(3,4) by blast

text \<open>
  A crawl is never stuck. While it has not ended, the coordinator or a task can take a
  step, on one thread or on several, unless the channel to the caller is full and it is the
  caller's turn to take a result.
\<close>

lemma crawl_never_stuck:
  assumes "crawl_start cfg seed s0" and "(crawl_step W (max_concurrent_tasks cfg) parallel)\<^sup>*\<^sup>* s0 s"
    and "\<not> stopped (coord s)" and "length (crawl_queue s) < CRAWL_CAPACITY"
  shows "\<exists>t. crawl_step W (max_concurrent_tasks cfg) parallel s t
    \<and> (coord_turn (max_concurrent_tasks cfg) s = Some t
       \<or> coord_turn (max_concurrent_tasks cfg) s = None \<and> task_moves W (max_concurrent_tasks cfg) s t)"
proof (cases "coord_turn (max_concurrent_tasks cfg) s")
  case (Some t)
  then show ?thesis by (auto intro: crawl_step.coordinator)
next
  case None
  have "counts_inv (max_concurrent_tasks cfg) s" "active_inv seed s"
    using lively.reachable_inv [OF assms(1,2)] by (auto simp: crawl_inv_def)
  from session_progress [OF this crawl_start_capacity [OF assms(1)] assms(3,4) None, of W]
  obtain t where t: "task_moves W (max_concurrent_tasks cfg) s t" and "coord s \<noteq> PollDone" by blast
  then have "crawl_step W (max_concurrent_tasks cfg) parallel s t"
    unfolding task_moves_def by (auto intro: crawl_step.task)
  with t None show ?thesis by blast
qed

text \<open>
  C14. What the end of a crawl leaves out. A session that ends by itself has tested the seed
  and reported exactly the peers it has tested, once each and truthfully; and every peer that
  a tested peer has announced is tested too, or is in a batch that a task has published and the
  coordinator has not read. On one thread no such batch is left, and without one the crawl is
  complete. On several threads a batch can be left: the bias of the coordinator's
  \<^verbatim>\<open>select!\<close> is not enough there, for a task can publish its peers and finish between
  the two polls, and the coordinator then takes the completion, sees no active task and ends.
\<close>

theorem crawl_loses_only_unread_batches:
  assumes "crawl_start cfg seed s0" and "(crawl_step W (max_concurrent_tasks cfg) parallel)\<^sup>*\<^sup>* s0 s"
    and "coord s = Stopped Exhausted" and "caller_listens s"
  shows "seed \<in> tested_peers s
    \<and> set (reports s) = {(p, verdict W p) | p. p \<in> tested_peers s} \<and> distinct (map fst (reports s))
    \<and> (\<forall>p \<in> tested_peers s. found W p \<subseteq> tested_peers s \<union> \<Union> (set ` set (discovery s)))
    \<and> (discovery s = [] \<longrightarrow> tested_peers s = reach W seed) \<and> (\<not> parallel \<longrightarrow> discovery s = [])"
proof -
  note inv = crawl.reachable_inv [OF assms(1,2)]
  have "seed \<in> tested_peers s"
    using seeded.reachable_inv [OF assms(1,2)] assms(3) by (simp add: seed_inv_def)
  moreover have "discovery s = []" if "\<not> parallel"
    using serial.reachable_inv [OF assms(1), of W "max_concurrent_tasks cfg" s] assms(2,3) that by (simp add: serial_inv_def)
  ultimately show ?thesis
    using exhausted_verdicts [OF inv assms(3,4)] exhausted_closed(2) [OF inv assms(3,4)]
      exhausted_reach [OF inv _ assms(3,4)] reported_once(1) [OF inv] by blast
qed

theorem crawl_loses_only_unread_batches_witness:
  "\<exists>s. (crawl_step small_world 2 True)\<^sup>*\<^sup>* start_session s \<and> coord s = Stopped Exhausted
     \<and> discovery s = [[peer_number 2, peer_number 3]]
     \<and> peer_number 2 \<in> reach small_world (peer_number 1) - tested_peers s
     \<and> (\<forall>p \<in> tested_peers s. found small_world p \<subseteq> tested_peers s \<union> \<Union> (set ` set (discovery s)))"
proof -
  let ?ms = "[Coordinator, Coordinator, Coordinator, Coordinator, Coordinator, Coordinator,
      Run (Connecting (peer_number 1)), Run (Reporting (peer_number 1) (Listening (peer_number 1))),
      Run (Discovering (peer_number 1)), Coordinator,
      Run (Filtering (peer_number 1) [peer_number 2, peer_number 3]),
      Run (Finishing (peer_number 1) FoundPeers), Coordinator]"
  have "map_option (\<lambda>s. (coord s, caller_listens s, discovery s, tested_peers s))
      (apply_moves small_world 2 True ?ms start_session)
    = Some (Stopped Exhausted, True, [[peer_number 2, peer_number 3]], {peer_number 1})"
    by (simp add: run_simps)
  then obtain s where s: "apply_moves small_world 2 True ?ms start_session = Some s"
    "coord s = Stopped Exhausted" "caller_listens s" "discovery s = [[peer_number 2, peer_number 3]]"
    "tested_peers s = {peer_number 1}" by auto
  have "peer_number 2 \<in> found small_world (peer_number 1)"
    by (simp add: found_def small_world_def)
  then have "peer_number 2 \<in> reach small_world (peer_number 1)"
    by (rule reach.found [OF reach.seed])
  moreover have run: "(crawl_step small_world 2 True)\<^sup>*\<^sup>* start_session s" using s(1) by (rule apply_moves_steps)
  ultimately show ?thesis
    using crawl_loses_only_unread_batches [OF start_session, of small_world True s] s(2-5)
    by (intro exI [of _ s]) (simp add: two_tasks_def)
qed

text \<open>
  C36. Deduplication is by peer, with its services and version, and not by endpoint: on one
  thread a crawl that ends by itself has tested and reported an endpoint exactly as often as
  there are different descriptions of it among the reachable peers. An address that is
  announced with other services than the ones it was tested with is tested again.
\<close>

theorem endpoint_reported_per_description:
  assumes "crawl_start cfg seed s0" and "(crawl_step W (max_concurrent_tasks cfg) False)\<^sup>*\<^sup>* s0 s"
    and "coord s = Stopped Exhausted" and "caller_listens s"
  shows "length (filter (\<lambda>(p, m). endpoint p = e) (reports s)) = card {p \<in> reach W seed. endpoint p = e}
    \<and> length (filter (\<lambda>p. endpoint p = e) (spawned s)) = card {p \<in> reach W seed. endpoint p = e}"
proof -
  note inv = crawl.reachable_inv [OF assms(1,2)]
  have "tested_peers s = reach W seed" "set (reports s) = {(p, verdict W p) | p. p \<in> reach W seed}"
    "distinct (map fst (reports s))"
    using exhausted_complete serial.reachable_inv [OF assms(1,2)] assms(3,4) by blast+
  moreover have "distinct (spawned s)" "set (spawned s) = tested_peers s"
    using inv assms(3) by (simp_all add: crawl_inv_def dedup_inv_def)
  moreover have "length (filter (\<lambda>(p, m). endpoint p = e) rs) = length (filter (\<lambda>p. endpoint p = e) (map fst rs))"
    for rs :: "(peer \<times> crawler_message) list" by (induction rs) auto
  moreover have "fst ` {(p, verdict W p) | p. p \<in> reach W seed} = reach W seed" by force
  ultimately show ?thesis
    using distinct_card [OF distinct_filter, of "map fst (reports s)" "\<lambda>p. endpoint p = e"]
      distinct_card [OF distinct_filter, of "spawned s" "\<lambda>p. endpoint p = e"]
    by simp
qed

theorem endpoint_reported_per_description_witness:
  "\<exists>s0 s. crawl_start two_tasks (peer_new (Ipv4 1) 8333) s0
     \<and> (crawl_step \<lparr>connect_to = Some, known_to = (\<lambda>_. Some [peer_number 1])\<rparr> 2 False)\<^sup>*\<^sup>* s0 s
     \<and> spawned s = [peer_new (Ipv4 1) 8333, peer_number 1]
     \<and> card {p \<in> reach \<lparr>connect_to = Some, known_to = (\<lambda>_. Some [peer_number 1])\<rparr> (peer_new (Ipv4 1) 8333).
              endpoint p = endpoint (peer_number 1)} = 2"
proof -
  let ?p = "peer_new (Ipv4 1) 8333" and ?q = "peer_number 1"
  let ?W = "\<lparr>connect_to = Some, known_to = (\<lambda>_. Some [?q])\<rparr>"
  let ?task = "\<lambda>r found. [Run (Connecting r), Run (Reporting r (Listening r)), Run (Discovering r),
      Run (Filtering r [?q]), Run (Finishing r found)]"
  let ?ms = "replicate 5 Coordinator @ ?task ?p FoundPeers @ replicate 8 Coordinator @ ?task ?q NoPeersFound
    @ replicate 3 Coordinator"
  obtain s0 where s0: "coordinate_start two_tasks ?p = Some s0"
    by (simp add: coordinate_start_def two_tasks_def)
  have ne: "?q \<noteq> ?p" by (simp add: peer_number_def peer_with_services_def peer_new_def)
  have "map_option (\<lambda>s. (spawned s, coord s, caller_listens s)) (apply_moves ?W 2 False ?ms s0)
      = Some ([?p, ?q], Stopped Exhausted, True)"
    using s0 ne
    by (auto simp: coord_turn.simps coordinate_start_def two_tasks_def CRAWL_CAPACITY_def Let_def numeral_eq_Suc)
  then obtain s where s: "apply_moves ?W 2 False ?ms s0 = Some s" "spawned s = [?p, ?q]"
    "coord s = Stopped Exhausted" "caller_listens s" by auto
  have start: "crawl_start two_tasks ?p s0" using s0 by (simp add: crawl_start_def)
  have run: "(crawl_step ?W 2 False)\<^sup>*\<^sup>* s0 s" using s(1) by (rule apply_moves_steps)
  have "endpoint ?p = endpoint ?q"
    by (simp add: endpoint_def peer_number_def peer_with_services_def peer_new_def)
  then have "card {p \<in> reach ?W ?p. endpoint p = endpoint ?q} = 2"
    using endpoint_reported_per_description [OF start, of ?W s "endpoint ?q"] run s(2-4) by (simp add: two_tasks_def)
  with start run s(2) show ?thesis by blast
qed

end
