(* ===== verification/Session_Termination.thy ===== *)
theory Session_Termination
  imports Session_Properties
begin

text \<open>
  A crawl over finitely many peers ends: a measure of the work that is left, in tasks, in
  channels, at the coordinator and in peers that have not been tested, decreases with every
  step, on one thread or on several.
\<close>

section \<open>The work that is left\<close>

definition known_count :: "world \<Rightarrow> peer \<Rightarrow> nat" where
  "known_count W p = (case known_to W p of Some ps \<Rightarrow> length ps | None \<Rightarrow> 0)"

primrec task_work :: "world \<Rightarrow> task \<Rightarrow> nat" where
  "task_work W (Connecting p) = 2 * known_count W p + 23"
| "task_work W (Reporting p m) = 2 * known_count W p + 22"
| "task_work W (Discovering p) = 2 * known_count W p + 20"
| "task_work W (Filtering p ps) = 2 * length ps + 19"
| "task_work W (Finishing p r) = 9"

definition coord_work :: "world \<Rightarrow> session \<Rightarrow> nat" where
  "coord_work W s =
     (case coord s of
        Top \<Rightarrow> 4
      | PollPeers \<Rightarrow> 3
      | PollDone \<Rightarrow> if discovery s \<noteq> [] then 5 else 2
      | Parked \<Rightarrow> if discovery s \<noteq> [] \<or> task_done s \<noteq> [] then 4 else 1
      | Batch ps \<Rightarrow> 2 * length ps + 5
      | Admit p ps \<Rightarrow> 2 * length ps + 2 * known_count W p + 29
      | Stopped w \<Rightarrow> 0)"

definition work :: "world \<Rightarrow> peer \<Rightarrow> session \<Rightarrow> nat" where
  "work W seed s =
     (\<Sum>p \<in> reach W seed - tested_peers s. 2 * known_count W p + 23)
     + (\<Sum>a \<in># tasks s. task_work W a)
     + (\<Sum>b \<leftarrow> discovery s. 2 * length b + 6)
     + 5 * length (task_done s) + length (crawl_queue s) + (if caller_listens s then 1 else 0)
     + coord_work W s"

section \<open>Every step does some\<close>

lemma coord_decreases:
  assumes "finite (reach W seed)" and "crawl_inv W cap seed s" and "coord_turn cap s = Some t"
  shows "work W seed t < work W seed s"
  using assms(3)
proof (cases rule: coord_turn_cases)
  case (new_peer p ps)
  have "p \<in> reach W seed - tested_peers s"
    using assms(2) new_peer(1,2) by (auto simp: crawl_inv_def sound_inv_def pending_def)
  then have "(\<Sum>q \<in> reach W seed - tested_peers s. 2 * known_count W q + 23)
      = 2 * known_count W p + 23 + (\<Sum>q \<in> reach W seed - tested_peers s - {p}. 2 * known_count W q + 23)"
    using assms(1) by (intro sum.remove) auto
  moreover have "reach W seed - insert p (tested_peers s) = reach W seed - tested_peers s - {p}" by blast
  ultimately show ?thesis using new_peer by (simp add: work_def coord_work_def)
qed (auto simp: work_def coord_work_def)

lemma task_decreases:
  assumes "task_moves W cap s t" and "phase_inv W s"
  shows "work W seed t < work W seed s"
  using assms(1)
proof (cases rule: task_moves_cases)
  case (report p m M)
  then show ?thesis by (cases m) (auto simp: work_def coord_work_def split: coordinator.splits)
next
  case (some_peers p ps M)
  then show ?thesis by (auto simp: work_def coord_work_def known_count_def split: coordinator.splits)
next
  case (publish p ps M)
  obtain fs where fs: "filter (\<lambda>q. q \<notin> tested_peers s) ps = fs" "length fs \<le> length ps" by auto
  from publish show ?thesis unfolding fs(1)
    using fs(2) by (auto simp: work_def coord_work_def split: coordinator.splits)
qed (auto simp: work_def coord_work_def split: coordinator.splits)

lemma step_decreases:
  assumes "finite (reach W seed)" and "crawl_inv W cap seed s" and "crawl_step W cap parallel s t"
  shows "work W seed t < work W seed s"
  using assms(3)
proof (cases rule: crawl_step.cases)
  case coordinator
  then show ?thesis by (rule coord_decreases [OF assms(1,2)])
next
  case (task a M s' a')
  then have "task_moves W cap s t" unfolding task_moves_def by blast
  with assms(2) show ?thesis by (auto simp: crawl_inv_def intro: task_decreases)
next
  case (receive m q)
  then show ?thesis by (auto simp: work_def coord_work_def split: coordinator.splits)
next
  case hang_up
  then show ?thesis by (auto simp: work_def coord_work_def split: coordinator.splits)
qed

lemma steps_bounded:
  assumes "finite (reach W seed)" and "(crawl_step W cap parallel ^^ n) s t" and "crawl_inv W cap seed s"
  shows "n + work W seed t \<le> work W seed s"
  using assms(2,3)
proof (induction n arbitrary: s)
  case 0
  then show ?case by simp
next
  case (Suc n)
  then obtain u where u: "crawl_step W cap parallel s u" "(crawl_step W cap parallel ^^ n) u t"
    by (metis relpowp_Suc_D2)
  with step_decreases [OF assms(1) Suc.prems(2) u(1)] Suc.IH [OF u(2) crawl_step_inv [OF u(1) Suc.prems(2)]]
  show ?case by simp
qed

section \<open>Every run ends\<close>

text \<open>
  A crawl ends. If finitely many peers can be reached from the seed, there is a bound on
  the number of steps that any run of the session can take, whatever the schedule of its
  coordinator, tasks and caller.
\<close>

lemma crawl_terminates:
  assumes "finite (reach W seed)" and "crawl_start cfg seed s0"
  shows "\<exists>bound. \<forall>n s. (crawl_step W (max_concurrent_tasks cfg) parallel ^^ n) s0 s \<longrightarrow> n \<le> bound"
  using steps_bounded [OF assms(1) _ start_inv [OF assms(2)]] by (meson add_leD1)

text \<open>Runs of bounded length can be continued until nothing more can happen.\<close>

lemma bounded_runs_end:
  assumes "\<And>k y. (R ^^ k) x y \<Longrightarrow> k \<le> (b :: nat)"
  shows "\<exists>y. R\<^sup>*\<^sup>* x y \<and> (\<nexists>z. R y z)"
proof -
  let ?P = "\<lambda>k. \<exists>y. (R ^^ k) x y"
  define k where "k = (GREATEST k. ?P k)"
  have "?P k" unfolding k_def by (rule GreatestI_nat [of ?P 0 b]) (use assms in auto)
  then obtain y where y: "(R ^^ k) x y" by blast
  have "\<not> R y z" for z
  proof
    assume "R y z"
    with y have "?P (Suc k)" by (blast intro: relpowp_Suc_I)
    then have "Suc k \<le> k" unfolding k_def by (rule Greatest_le_nat [of ?P _ b]) (use assms in auto)
    then show False by simp
  qed
  with relpowp_imp_rtranclp [OF y] show ?thesis by blast
qed

text \<open>How much there is to do at the start, at most.\<close>

lemma start_work_sum:
  "crawl_start cfg seed s0 \<Longrightarrow> work W seed s0 \<le> (\<Sum>p \<in> reach W seed. 2 * known_count W p + 23) + 13"
  by (auto simp: work_def coord_work_def crawl_start_def coordinate_start_def split: if_splits)

lemma start_work:
  assumes "crawl_start cfg seed s0" and "finite F" and "reach W seed \<subseteq> F" and "\<And>p. known_count W p \<le> m"
  shows "work W seed s0 \<le> card F * (2 * m + 23) + 13"
proof -
  have "(\<Sum>p \<in> reach W seed. 2 * known_count W p + 23) \<le> (\<Sum>p \<in> F. 2 * known_count W p + 23)"
    using assms(2,3) by (rule sum_mono2) simp
  also have "\<dots> \<le> (\<Sum>p \<in> F. 2 * m + 23)" using assms(4) by (intro sum_mono) simp
  finally show ?thesis using start_work_sum [OF assms(1), of W] by simp
qed

end
