(* ===== verification/Session_Network.thy ===== *)
theory Session_Network
  imports Session_Termination
begin

text \<open>
  Crawl sessions over a network that need not answer the same question twice in the same way:
  \<^verbatim>\<open>CrawlSession\<close> of \<^verbatim>\<open>crawler/src/session.rs\<close> with its connector and its open
  connections as a part of the state that changes while the session runs. Since a session asks
  every peer at most once, each of its runs is a run over some fixed world, the one that gives
  the answers of that run; this carries the guarantees of \<^verbatim>\<open>Session_Properties\<close> over to
  every network, and with a bound on its steps when the network is finite. When the
  caller hangs up the session winds down. An answer may also never come: then the session never
  ends.
\<close>

section \<open>Model\<close>

text \<open>
  What the network may answer in a state, and the state after the answer: to
  \<^verbatim>\<open>timeout(peer_timeout, connector.connect(&peer))\<close> the peer that the connection
  describes, or \<open>None\<close> for an error or a timeout; to \<^verbatim>\<open>get_peers\<close> on that connection the
  peers, or \<open>None\<close> for an error. A call that never returns has no answer.
\<close>

record 'n live_network =
  live_connect :: "'n \<Rightarrow> peer \<Rightarrow> peer option \<Rightarrow> 'n \<Rightarrow> bool"
  live_ask :: "'n \<Rightarrow> peer \<Rightarrow> peer list option \<Rightarrow> 'n \<Rightarrow> bool"

text \<open>The network's part in a turn of a task, whose answer is that of the world \<open>W\<close>.\<close>

fun answers_task :: "'n live_network \<Rightarrow> 'n \<Rightarrow> task \<Rightarrow> world \<Rightarrow> 'n \<Rightarrow> bool" where
  "answers_task L n (Connecting p) W n' \<longleftrightarrow> live_connect L n p (connect_to W p) n'"
| "answers_task L n (Discovering p) W n' \<longleftrightarrow> live_ask L n p (known_to W p) n'"
| "answers_task L n (Reporting p m) W n' \<longleftrightarrow> n' = n"
| "answers_task L n (Filtering p ps) W n' \<longleftrightarrow> n' = n"
| "answers_task L n (Finishing p r) W n' \<longleftrightarrow> n' = n"

inductive live_step :: "'n live_network \<Rightarrow> nat \<Rightarrow> bool \<Rightarrow> session \<times> 'n \<Rightarrow> session \<times> 'n \<Rightarrow> bool"
  for L cap parallel where
  coordinator: "coord_turn cap s = Some t \<Longrightarrow> live_step L cap parallel (s, n) (t, n)"
| task: "tasks s = add_mset a M \<Longrightarrow> answers_task L n a W n'
    \<Longrightarrow> task_turn W cap (s\<lparr>tasks := M\<rparr>) a = Some (s', a') \<Longrightarrow> coord s \<noteq> PollDone \<or> parallel
    \<Longrightarrow> live_step L cap parallel (s, n) (s'\<lparr>tasks := put_back a' M\<rparr>, n')"
| receive: "caller_listens s \<Longrightarrow> crawl_queue s = m # q
    \<Longrightarrow> live_step L cap parallel (s, n) (s\<lparr>crawl_queue := q\<rparr>, n)"
| hang_up: "caller_listens s
    \<Longrightarrow> live_step L cap parallel (s, n) (s\<lparr>caller_listens := False, crawl_queue := []\<rparr>, n)"

section \<open>One task per peer\<close>

definition single_inv :: "session \<Rightarrow> bool" where
  "single_inv s \<longleftrightarrow> distinct (spawned s) \<and> image_mset task_peer (tasks s) \<subseteq># mset (spawned s)"

lemma coord_single:
  assumes "coord_turn cap s = Some t" and "dedup_inv s" and "single_inv s"
  shows "single_inv t"
  using assms by (cases rule: coord_turn_cases) (auto simp: single_inv_def dedup_inv_def)

lemma task_single:
  assumes "task_moves W cap s t" and "single_inv s"
  shows "single_inv t"
  using assms
  by (cases rule: task_moves_cases)
    (auto simp: single_inv_def insert_subset_eq_iff split: crawler_message.splits
      intro: subset_mset.order_trans [OF _ diff_subset_eq_self])

lemma single_step:
  assumes "crawl_step W cap parallel s t" and "crawl_inv W cap seed s" and "single_inv s"
  shows "single_inv t"
  using assms(1)
proof (cases rule: crawl_step.cases)
  case coordinator
  then show ?thesis using assms(2,3) by (auto simp: crawl_inv_def intro: coord_single)
next
  case (task a M s' a')
  then have "task_moves W cap s t" unfolding task_moves_def by blast
  with assms(3) show ?thesis by (rule task_single [rotated])
qed (use assms(3) in \<open>simp_all add: single_inv_def\<close>)

interpretation single: inductive_invariant "crawl_start cfg seed" "crawl_step W cap parallel"
  "\<lambda>s. crawl_inv W cap seed s \<and> single_inv s"
proof
  show "crawl_inv W cap seed s \<and> single_inv s" if "crawl_start cfg seed s" for s
    using start_inv that by (auto simp: single_inv_def crawl_start_def coordinate_start_def split: if_splits)
  show "crawl_inv W cap seed t \<and> single_inv t"
    if "crawl_inv W cap seed s \<and> single_inv s" "crawl_step W cap parallel s t" for s t
    using crawl_step_inv single_step that by blast
qed

lemma single_task:
  assumes "single_inv s" and "tasks s = add_mset a M"
  shows "task_peer a \<in> set (spawned s)" and "b \<in># M \<Longrightarrow> task_peer b \<noteq> task_peer a"
proof -
  have sub: "add_mset (task_peer a) (image_mset task_peer M) \<subseteq># mset (spawned s)"
    using assms by (simp add: single_inv_def)
  then show "task_peer a \<in> set (spawned s)" by (metis insert_subset_eq_iff set_mset_mset)
  have "count (mset (spawned s)) (task_peer a) \<le> 1"
    using assms(1) by (simp add: single_inv_def distinct_count_atmost_1)
  then have "count (image_mset task_peer M) (task_peer a) = 0"
    using mset_subset_eq_count [OF sub, of "task_peer a"] by simp
  then show "task_peer b \<noteq> task_peer a" if "b \<in># M"
    using that by (metis count_eq_zero_iff image_eqI set_image_mset)
qed

section \<open>The world of a run\<close>

text \<open>The answers of a run so far, and the worlds that give them.\<close>

definition agrees :: "world \<Rightarrow> (peer \<rightharpoonup> peer option) \<Rightarrow> (peer \<rightharpoonup> peer list option) \<Rightarrow> bool" where
  "agrees W C K \<longleftrightarrow>
     (\<forall>p r. C p = Some r \<longrightarrow> connect_to W p = r) \<and> (\<forall>p r. K p = Some r \<longrightarrow> known_to W p = r)"

definition answered_world :: "(peer \<rightharpoonup> peer option) \<Rightarrow> (peer \<rightharpoonup> peer list option) \<Rightarrow> world" where
  "answered_world C K = \<lparr>connect_to = (\<lambda>p. Option.bind (C p) id), known_to = (\<lambda>p. Option.bind (K p) id)\<rparr>"

lemma agrees_answered_world: "agrees (answered_world C K) C K"
  by (simp add: agrees_def answered_world_def)

text \<open>Answers that the network has given at some point of a run, to a task that asked for them.\<close>

definition gave_connection ::
  "'n live_network \<Rightarrow> nat \<Rightarrow> bool \<Rightarrow> session \<times> 'n \<Rightarrow> peer \<Rightarrow> peer option \<Rightarrow> bool" where
  "gave_connection L cap parallel x0 p r \<longleftrightarrow>
     (\<exists>s n n'. (live_step L cap parallel)\<^sup>*\<^sup>* x0 (s, n) \<and> Connecting p \<in># tasks s \<and> live_connect L n p r n')"

definition gave_peers ::
  "'n live_network \<Rightarrow> nat \<Rightarrow> bool \<Rightarrow> session \<times> 'n \<Rightarrow> peer \<Rightarrow> peer list option \<Rightarrow> bool" where
  "gave_peers L cap parallel x0 p r \<longleftrightarrow>
     (\<exists>s n n'. (live_step L cap parallel)\<^sup>*\<^sup>* x0 (s, n) \<and> Discovering p \<in># tasks s \<and> live_ask L n p r n')"

definition given ::
  "'n live_network \<Rightarrow> nat \<Rightarrow> bool \<Rightarrow> session \<times> 'n \<Rightarrow> (peer \<rightharpoonup> peer option) \<Rightarrow> (peer \<rightharpoonup> peer list option) \<Rightarrow> bool" where
  "given L cap parallel x0 C K \<longleftrightarrow>
     (\<forall>p r. C p = Some r \<longrightarrow> gave_connection L cap parallel x0 p r)
     \<and> (\<forall>p r. K p = Some r \<longrightarrow> gave_peers L cap parallel x0 p r)"

primrec unconnected :: "task \<Rightarrow> bool" where
  "unconnected (Connecting p) = True"
| "unconnected (Reporting p m) = False"
| "unconnected (Discovering p) = False"
| "unconnected (Filtering p ps) = False"
| "unconnected (Finishing p r) = False"

primrec unasked :: "task \<Rightarrow> bool" where
  "unasked (Connecting p) = True"
| "unasked (Reporting p m) = True"
| "unasked (Discovering p) = True"
| "unasked (Filtering p ps) = False"
| "unasked (Finishing p r) = False"

definition history_inv :: "session \<Rightarrow> (peer \<rightharpoonup> peer option) \<Rightarrow> (peer \<rightharpoonup> peer list option) \<Rightarrow> bool" where
  "history_inv s C K \<longleftrightarrow>
     dom C \<subseteq> set (spawned s) \<and> dom K \<subseteq> set (spawned s)
     \<and> (\<forall>a \<in># tasks s. (unconnected a \<longrightarrow> task_peer a \<notin> dom C) \<and> (unasked a \<longrightarrow> task_peer a \<notin> dom K))"

lemma coord_history:
  assumes "coord_turn cap s = Some t" and "dedup_inv s" and "history_inv s C K"
  shows "history_inv t C K"
  using assms by (cases rule: coord_turn_cases) (auto simp: history_inv_def dedup_inv_def)

text \<open>The answers after a turn of a task whose answer is that of \<open>W\<close>.\<close>

definition note_connect :: "task \<Rightarrow> world \<Rightarrow> (peer \<rightharpoonup> peer option) \<Rightarrow> peer \<rightharpoonup> peer option" where
  "note_connect a W C = (case a of Connecting p \<Rightarrow> C(p \<mapsto> connect_to W p) | _ \<Rightarrow> C)"

definition note_ask :: "task \<Rightarrow> world \<Rightarrow> (peer \<rightharpoonup> peer list option) \<Rightarrow> peer \<rightharpoonup> peer list option" where
  "note_ask a W K = (case a of Discovering p \<Rightarrow> K(p \<mapsto> known_to W p) | _ \<Rightarrow> K)"

lemma note_agrees:
  assumes "agrees V (note_connect a W C) (note_ask a W K)" and "history_inv s C K" and "a \<in># tasks s"
  shows "agrees V C K" and "task_turn V cap x a = task_turn W cap x a"
proof -
  have "task_peer a \<notin> dom C" if "unconnected a" using assms(2,3) that by (auto simp: history_inv_def)
  moreover have "task_peer a \<notin> dom K" if "unasked a" using assms(2,3) that by (auto simp: history_inv_def)
  ultimately show "agrees V C K"
    using assms(1)
    by (cases a) (auto simp: agrees_def note_connect_def note_ask_def domIff split: if_splits; metis option.distinct(1))+
  show "task_turn V cap x a = task_turn W cap x a"
    using assms(1) by (cases a) (auto simp: agrees_def note_connect_def note_ask_def)
qed

lemma task_turn_next:
  assumes "task_turn W cap s a = Some (s', a')"
  shows "spawned s' = spawned s"
    and "a' = Some b \<Longrightarrow> task_peer b = task_peer a \<and> \<not> unconnected b \<and> (unasked b \<longrightarrow> unasked a \<and> \<not> (\<exists>p. a = Discovering p))"
  using assms by (cases rule: task_turn_cases; force split: crawler_message.splits)+

lemma task_history:
  assumes inv: "history_inv s C K" "single_inv s" and a: "tasks s = add_mset a M"
    and turn: "task_turn W cap (s\<lparr>tasks := M\<rparr>) a = Some (s', a')"
  shows "history_inv (s'\<lparr>tasks := put_back a' M\<rparr>) (note_connect a W C) (note_ask a W K)"
proof -
  note peer = single_task [OF inv(2) a]
  have old: "(unconnected b \<longrightarrow> task_peer b \<notin> dom (note_connect a W C)) \<and> (unasked b \<longrightarrow> task_peer b \<notin> dom (note_ask a W K))"
    if "b \<in># M" for b
    using inv(1) a that peer(2) [OF that]
    by (cases a) (auto simp: history_inv_def note_connect_def note_ask_def)
  have new: "(unconnected b \<longrightarrow> task_peer b \<notin> dom (note_connect a W C)) \<and> (unasked b \<longrightarrow> task_peer b \<notin> dom (note_ask a W K))"
    if "a' = Some b" for b
    using inv(1) a task_turn_next(2) [OF turn that]
    by (cases a) (auto simp: history_inv_def note_connect_def note_ask_def)
  have "dom (note_connect a W C) \<subseteq> set (spawned s)" "dom (note_ask a W K) \<subseteq> set (spawned s)"
    using inv(1) peer(1) by (cases a; auto simp: history_inv_def note_connect_def note_ask_def)+
  with old new task_turn_next(1) [OF turn] show ?thesis
    by (cases a') (auto simp: history_inv_def)
qed

lemma note_given:
  assumes "given L cap parallel x0 C K" and "(live_step L cap parallel)\<^sup>*\<^sup>* x0 (s, n)"
    and "a \<in># tasks s" and "answers_task L n a W n'"
  shows "given L cap parallel x0 (note_connect a W C) (note_ask a W K)"
  using assms
  by (cases a) (auto simp: given_def gave_connection_def gave_peers_def note_connect_def note_ask_def split: if_splits)

text \<open>Whoever is past a question has its answer.\<close>

definition covered_inv :: "session \<Rightarrow> (peer \<rightharpoonup> peer option) \<Rightarrow> (peer \<rightharpoonup> peer list option) \<Rightarrow> bool" where
  "covered_inv s C K \<longleftrightarrow>
     (\<forall>p \<in> set (spawned s). p \<in> dom C \<or> Connecting p \<in># tasks s)
     \<and> (\<forall>p info. (p, Listening info) \<in> set (reports s) \<longrightarrow> p \<in> dom K \<or> Discovering p \<in># tasks s)"

lemma coord_covered:
  assumes "coord_turn cap s = Some t" and "covered_inv s C K"
  shows "covered_inv t C K"
  using assms by (cases rule: coord_turn_cases) (auto simp: covered_inv_def)

lemma task_covered:
  assumes inv: "covered_inv s C K" and a: "tasks s = add_mset a M"
    and turn: "task_turn W cap (s\<lparr>tasks := M\<rparr>) a = Some (s', a')"
  shows "covered_inv (s'\<lparr>tasks := put_back a' M\<rparr>) (note_connect a W C) (note_ask a W K)"
  using turn
  by (cases rule: task_turn_cases)
    (use inv a in \<open>auto simp: covered_inv_def note_connect_def note_ask_def split: crawler_message.splits\<close>)

lemma live_run_history:
  assumes start: "crawl_start cfg seed s0" and run: "(live_step L cap parallel ^^ k) (s0, n0) (s, n)"
  shows "\<exists>C K. (\<forall>W. agrees W C K \<longrightarrow> (crawl_step W cap parallel ^^ k) s0 s)
    \<and> given L cap parallel (s0, n0) C K \<and> history_inv s C K \<and> covered_inv s C K"
  using run
proof (induction k arbitrary: s n)
  case 0
  have "history_inv s0 Map.empty Map.empty" "covered_inv s0 Map.empty Map.empty"
    using start by (auto simp: history_inv_def covered_inv_def crawl_start_def coordinate_start_def split: if_splits)
  with 0 show ?case by (intro exI [of _ Map.empty]) (simp add: given_def)
next
  case (Suc k t m)
  then obtain s n where run: "(live_step L cap parallel ^^ k) (s0, n0) (s, n)" and step: "live_step L cap parallel (s, n) (t, m)"
    by (auto elim: relpowp_Suc_E)
  from Suc.IH [OF run] obtain C K where runs: "\<And>W. agrees W C K \<Longrightarrow> (crawl_step W cap parallel ^^ k) s0 s"
    and given: "given L cap parallel (s0, n0) C K" and hist: "history_inv s C K" and cov: "covered_inv s C K" by blast
  have inv: "dedup_inv s" "single_inv s"
    using single.reachable_inv [OF start relpowp_imp_rtranclp [OF runs [OF agrees_answered_world]]]
    by (auto simp: crawl_inv_def)
  have unchanged: ?case if "\<And>W. crawl_step W cap parallel s t" "history_inv t C K" "covered_inv t C K"
    using that runs given by (intro exI [of _ C] exI [of _ K]) (auto intro: relpowp_Suc_I)
  from step show ?case
  proof (cases rule: live_step.cases)
    case coordinator
    with coord_history [OF _ inv(1) hist] coord_covered [OF _ cov] show ?thesis
      by (intro unchanged) (auto intro: crawl_step.coordinator)
  next
    case (task a M W s' a')
    have "a \<in># tasks s" using task(2) by simp
    note agree = note_agrees [OF _ hist this]
      and given' = note_given [OF given relpowp_imp_rtranclp [OF run] this task(3)]
    have "(crawl_step V cap parallel ^^ Suc k) s0 t" if "agrees V (note_connect a W C) (note_ask a W K)" for V
      using runs [OF agree(1) [OF that]] crawl_step.task [OF task(2), of V cap s' a' parallel] task(1,4,5) agree(2) [OF that]
      by (metis relpowp_Suc_I)
    with given' task_history [OF hist inv(2) task(2,4)] task_covered [OF cov task(2,4)] task(1) show ?thesis by blast
  next
    case (receive msg q)
    with hist cov show ?thesis
      by (intro unchanged) (auto simp: history_inv_def covered_inv_def intro: crawl_step.receive)
  next
    case hang_up
    with hist cov show ?thesis
      by (intro unchanged) (auto simp: history_inv_def covered_inv_def intro: crawl_step.hang_up)
  qed
qed

text \<open>The same as a fact about sessions alone.\<close>

lemma live_run_world:
  assumes "crawl_start cfg seed s0" and "(live_step L cap parallel ^^ k) (s0, n0) (s, n)"
  shows "\<exists>W. (crawl_step W cap parallel ^^ k) s0 s
    \<and> (\<forall>p \<in> set (spawned s). Connecting p \<in># tasks s \<or> gave_connection L cap parallel (s0, n0) p (connect_to W p))
    \<and> (\<forall>p info. (p, Listening info) \<in> set (reports s) \<longrightarrow>
         Discovering p \<in># tasks s \<or> gave_peers L cap parallel (s0, n0) p (known_to W p))
    \<and> (\<forall>p. connect_to W p = None \<or> gave_connection L cap parallel (s0, n0) p (connect_to W p))
    \<and> (\<forall>p. known_to W p = None \<or> gave_peers L cap parallel (s0, n0) p (known_to W p))"
proof -
  obtain C K where runs: "\<And>W. agrees W C K \<Longrightarrow> (crawl_step W cap parallel ^^ k) s0 s"
    and given: "given L cap parallel (s0, n0) C K" and cov: "covered_inv s C K"
    using live_run_history [OF assms] by blast
  let ?W = "answered_world C K"
  have con: "gave_connection L cap parallel (s0, n0) p (connect_to ?W p)" if "p \<in> dom C" for p
    using given that by (auto simp: given_def answered_world_def)
  moreover have "connect_to ?W p = None \<or> gave_connection L cap parallel (s0, n0) p (connect_to ?W p)" for p
    using con [of p] by (cases "p \<in> dom C") (auto simp: answered_world_def)
  moreover have ask: "gave_peers L cap parallel (s0, n0) p (known_to ?W p)" if "p \<in> dom K" for p
    using given that by (auto simp: given_def answered_world_def)
  moreover have "known_to ?W p = None \<or> gave_peers L cap parallel (s0, n0) p (known_to ?W p)" for p
    using ask [of p] by (cases "p \<in> dom K") (auto simp: answered_world_def)
  ultimately show ?thesis
    using runs [OF agrees_answered_world] cov unfolding covered_inv_def by blast
qed

lemma live_reachable:
  assumes "crawl_start cfg seed s0" and "(live_step L cap parallel)\<^sup>*\<^sup>* (s0, n0) (s, n)"
  shows "\<exists>W. (crawl_step W cap parallel)\<^sup>*\<^sup>* s0 s"
  using live_run_world [OF assms(1)] rtranclp_imp_relpowp [OF assms(2)] relpowp_imp_rtranclp by metis

section \<open>The network of a connector\<close>

text \<open>
  The network behind a session: the state of its connector and the connection of each task.
  \<open>connect\<close> is \<^verbatim>\<open>timeout(peer_timeout, connector.connect(&peer))\<close>, with \<open>None\<close> for an
  elapsed timeout. \<open>get_peers\<close> starts at any time and may wait for ever.
\<close>

definition session_network ::
  "('a) bitcoin_api_scheme \<Rightarrow> 'c peer_connection \<Rightarrow> 'c timer \<Rightarrow> session_config
   \<Rightarrow> ('k \<Rightarrow> peer \<Rightarrow> (connection_error + 'c) option \<times> 'k) \<Rightarrow> ('k \<times> (peer \<rightharpoonup> 'c)) live_network" where
  "session_network B P T cfg connect =
     \<lparr>live_connect = (\<lambda>(k, conns) p r n'.
        case connect k p of
          (Some (Inr connection), k1) \<Rightarrow> r = Some (pc_peer P connection) \<and> n' = (k1, conns(p \<mapsto> connection))
        | (_, k1) \<Rightarrow> r = None \<and> n' = (k1, conns)),
      live_ask = (\<lambda>(k, conns) p r n'.
        \<exists>now connection res c1. conns p = Some connection
          \<and> get_peers B P T now (peer_timeout cfg) connection = Some (res, c1)
          \<and> res \<noteq> Pending \<and> r = (case res of Ok discovered_peers \<Rightarrow> Some discovered_peers | _ \<Rightarrow> None)
          \<and> n' = (k, conns(p \<mapsto> c1)))\<rparr>"

text \<open>Only the task of a peer changes the peer's connection.\<close>

lemma session_network_frame:
  assumes "answers_task (session_network B P T cfg connect) (k, conns) a W (k', conns')" and "p \<noteq> task_peer a"
  shows "conns' p = conns p"
  using assms
proof (cases a)
  case (Connecting q)
  then show ?thesis using assms by (auto simp: session_network_def split: prod.splits option.splits sum.splits)
qed (use assms in \<open>auto simp: session_network_def\<close>)

text \<open>
  Tasks that hold an open connection that was not asked yet. It is as the connector has
  returned it, so that what holds of every connection the connector returns holds of it.
\<close>

definition holds_connection :: "task \<Rightarrow> bool" where
  "holds_connection a =
     (case a of
        Discovering p \<Rightarrow> True
      | Reporting p m \<Rightarrow> (case m of Listening _ \<Rightarrow> True | NonListening _ \<Rightarrow> False)
      | _ \<Rightarrow> False)"

definition good_connector ::
  "('k \<Rightarrow> peer \<Rightarrow> (connection_error + 'c) option \<times> 'k) \<Rightarrow> ('k \<Rightarrow> bool) \<Rightarrow> (peer \<Rightarrow> 'c \<Rightarrow> bool) \<Rightarrow> bool" where
  "good_connector connect ready good \<longleftrightarrow>
     (\<forall>k p r k'. ready k \<and> connect k p = (r, k') \<longrightarrow> ready k' \<and> (\<forall>c. r = Some (Inr c) \<longrightarrow> good p c))"

definition opened_inv :: "('k \<Rightarrow> bool) \<Rightarrow> (peer \<Rightarrow> 'c \<Rightarrow> bool) \<Rightarrow> session \<Rightarrow> 'k \<times> (peer \<rightharpoonup> 'c) \<Rightarrow> bool" where
  "opened_inv ready good s n \<longleftrightarrow> ready (fst n)
     \<and> (\<forall>a \<in># tasks s. holds_connection a \<longrightarrow> (\<exists>c. snd n (task_peer a) = Some c \<and> good (task_peer a) c))"

lemma coord_opened:
  assumes "coord_turn cap s = Some t" and "opened_inv ready good s n"
  shows "opened_inv ready good t n"
  using assms by (cases rule: coord_turn_cases) (auto simp: opened_inv_def holds_connection_def)

lemma good_connects:
  assumes "good_connector connect ready good" and "ready k"
    and "live_connect (session_network B P T cfg connect) (k, conns) p r (k', conns')"
  shows "ready k' \<and> (\<forall>info. r = Some info \<longrightarrow> (\<exists>c. conns' p = Some c \<and> good p c \<and> info = pc_peer P c))"
proof -
  obtain res k1 where res: "connect k p = (res, k1)" by fastforce
  then have "ready k1" "\<And>c. res = Some (Inr c) \<Longrightarrow> good p c"
    using assms(1,2) unfolding good_connector_def by blast+
  with res assms(3) show ?thesis by (auto simp: session_network_def split: option.splits sum.splits)
qed

lemma task_ready:
  assumes "good_connector connect ready good" and "ready k"
    and "answers_task (session_network B P T cfg connect) (k, conns) a W (k', conns')"
  shows "ready k'"
  using assms good_connects [OF assms(1,2), of B P T cfg conns] by (cases a) (auto simp: session_network_def)

lemma task_opened:
  assumes con: "good_connector connect ready good"
    and inv: "opened_inv ready good s (k, conns)" "single_inv s" and a: "tasks s = add_mset a M"
    and ans: "answers_task (session_network B P T cfg connect) (k, conns) a W (k', conns')"
    and turn: "task_turn W cap (s\<lparr>tasks := M\<rparr>) a = Some (s', a')"
  shows "opened_inv ready good (s'\<lparr>tasks := put_back a' M\<rparr>) (k', conns')"
proof -
  have ready: "ready k" using inv(1) by (simp add: opened_inv_def)
  have others: "\<exists>c. conns' (task_peer b) = Some c \<and> good (task_peer b) c" if "b \<in># M" "holds_connection b" for b
    using inv(1) a that session_network_frame [OF ans single_task(2) [OF inv(2) a that(1)]]
    by (simp add: opened_inv_def)
  have next_task: "\<exists>c. conns' (task_peer b) = Some c \<and> good (task_peer b) c"
    if b: "a' = Some b" "holds_connection b" for b
    using turn
  proof (cases rule: task_turn_cases)
    case (connect p)
    then obtain info where "connect_to W p = Some info" "b = Reporting p (Listening info)"
      using b by (auto simp: verdict_def holds_connection_def split: option.splits)
    with connect ans good_connects [OF con ready, of B P T cfg conns p "Some info" k' conns'] show ?thesis by auto
  next
    case (report p m)
    then have "holds_connection a" "b = Discovering p" "conns' = conns"
      using b ans by (auto simp: holds_connection_def split: crawler_message.splits)
    with report inv(1) a show ?thesis by (auto simp: opened_inv_def)
  qed (use b in \<open>auto simp: holds_connection_def\<close>)
  from others next_task task_ready [OF con ready ans] show ?thesis
    by (cases a') (auto simp: opened_inv_def put_back_def)
qed

lemma network_opened:
  assumes start: "crawl_start cfg seed s0" and con: "good_connector connect ready good" and "ready (fst n0)"
    and "(live_step (session_network B P T cfg connect) cap parallel)\<^sup>*\<^sup>* (s0, n0) (s, n)"
  shows "opened_inv ready good s n"
  using assms(4)
proof (induction rule: rtranclp_induct2)
  case refl
  then show ?case using start assms(3)
    by (auto simp: opened_inv_def crawl_start_def coordinate_start_def split: if_splits)
next
  case (step s n t n')
  have single: "single_inv s"
    using live_reachable [OF start step(1)] single.reachable_inv [OF start] by blast
  from step(2) show ?case
  proof (cases rule: live_step.cases)
    case coordinator
    then show ?thesis using coord_opened [OF _ step(3)] by blast
  next
    case (task a M W s' a')
    obtain k conns k' conns' where n: "n = (k, conns)" "n' = (k', conns')" by (metis prod.exhaust)
    from task_opened [OF con step(3) [unfolded n] single task(2) task(3) [unfolded n] task(4)] task(1) show ?thesis
      by (simp add: n)
  qed (use step(3) in \<open>simp_all add: opened_inv_def\<close>)
qed

text \<open>A connection on which \<open>get_peers\<close> waits for ever, whenever it is called.\<close>

definition never_returns ::
  "('a) bitcoin_api_scheme \<Rightarrow> 'c peer_connection \<Rightarrow> 'c timer \<Rightarrow> nat \<Rightarrow> 'c \<Rightarrow> bool" where
  "never_returns B P T d c \<longleftrightarrow>
     (\<forall>now. case get_peers B P T now d c of Some (Pending, _) \<Rightarrow> True | None \<Rightarrow> True | _ \<Rightarrow> False)"

lemma never_returns_ask:
  assumes "never_returns B P T (peer_timeout cfg) c" and "conns p = Some c"
  shows "\<not> live_ask (session_network B P T cfg connect) (k, conns) p r n'"
proof
  assume "live_ask (session_network B P T cfg connect) (k, conns) p r n'"
  then obtain now res c1 where "get_peers B P T now (peer_timeout cfg) c = Some (res, c1)" "res \<noteq> Pending"
    using assms(2) by (auto simp: session_network_def)
  moreover have "case get_peers B P T now (peer_timeout cfg) c of Some (Pending, _) \<Rightarrow> True | None \<Rightarrow> True | _ \<Rightarrow> False"
    using assms(1) by (simp add: never_returns_def)
  ultimately show False by (cases res) simp_all
qed

lemma waiting_step:
  assumes "live_step (session_network B P T cfg connect) cap parallel (s, k, conns) (t, k', conns')"
    and "single_inv s" and "never_returns B P T (peer_timeout cfg) c"
    and "Discovering p \<in># tasks s" and "conns p = Some c"
  shows "Discovering p \<in># tasks t \<and> conns' p = Some c"
  using assms(1)
proof (cases rule: live_step.cases)
  case coordinator
  then show ?thesis using assms(4,5) by (elim coord_turn_cases) auto
next
  case (task a M W s' a')
  have "a \<noteq> Discovering p" using task(3) never_returns_ask [OF assms(3), of conns p connect] assms(5) by auto
  then have p: "Discovering p \<in># M" using assms(4) task(2) by simp
  then have "p \<noteq> task_peer a" using single_task(2) [OF assms(2) task(2)] by fastforce
  with p task(1) session_network_frame [OF task(3)] assms(5) show ?thesis by (cases a') auto
qed (use assms(4,5) in simp_all)

lemma waiting_steps:
  assumes start: "crawl_start cfg seed s0"
    and run: "(live_step (session_network B P T cfg connect) cap parallel)\<^sup>*\<^sup>* (s0, n0) (s, k, conns)"
    and wait: "Discovering p \<in># tasks s" "conns p = Some c" "never_returns B P T (peer_timeout cfg) c"
    and on: "(live_step (session_network B P T cfg connect) cap parallel)\<^sup>*\<^sup>* (s, k, conns) x"
  shows "Discovering p \<in># tasks (fst x) \<and> snd (snd x) p = Some c"
  using on
proof (induction rule: rtranclp_induct)
  case base
  then show ?case using wait by simp
next
  case (step y z)
  obtain t k1 c1 u k2 c2 where yz: "y = (t, k1, c1)" "z = (u, k2, c2)" by (metis prod_cases3)
  from live_reachable [OF start rtranclp_trans [OF run step(1), unfolded yz(1)]] have "single_inv t"
    using single.reachable_inv [OF start] by blast
  with waiting_step [OF step(2) [unfolded yz] _ wait(3)] step(3) show ?case unfolding yz by simp
qed

text \<open>A coordinator that waits for its only task waits as long as that task does.\<close>

lemma only_task_step:
  assumes "live_step (session_network B P T cfg connect) cap parallel (s, k, conns) (t, k', conns')"
    and "never_returns B P T (peer_timeout cfg) c" and "conns p = Some c"
    and "tasks s = {#Discovering p#}" "coord s = Parked" "discovery s = []" "task_done s = []"
  shows "conns' p = Some c \<and> tasks t = {#Discovering p#} \<and> coord t = Parked \<and> discovery t = [] \<and> task_done t = []"
  using assms(1)
proof (cases rule: live_step.cases)
  case coordinator
  then show ?thesis using assms(5-7) by (simp add: coord_turn.simps)
next
  case (task a M W s' a')
  then have "a = Discovering p" using assms(4) by (metis add_mset_eq_single)
  with task(3) never_returns_ask [OF assms(2), of conns p connect] assms(3) show ?thesis by simp
qed (use assms(3-) in simp_all)

lemma only_task_steps:
  assumes "(live_step (session_network B P T cfg connect) cap parallel)\<^sup>*\<^sup>* (s, k, conns) x"
    and "never_returns B P T (peer_timeout cfg) c" and "conns p = Some c"
    and "tasks s = {#Discovering p#}" "coord s = Parked" "discovery s = []" "task_done s = []"
  shows "snd (snd x) p = Some c \<and> tasks (fst x) = {#Discovering p#} \<and> coord (fst x) = Parked
    \<and> discovery (fst x) = [] \<and> task_done (fst x) = []"
  using assms(1)
proof (induction rule: rtranclp_induct)
  case base
  then show ?case using assms(3-) by simp
next
  case (step y z)
  obtain t k1 c1 u k2 c2 where yz: "y = (t, k1, c1)" "z = (u, k2, c2)" by (metis prod_cases3)
  from only_task_step [OF step(2) [unfolded yz] assms(2), of p] step(3) show ?case unfolding yz by simp
qed

text \<open>The number of steps over a finite network.\<close>

lemma live_run_bounded:
  assumes start: "crawl_start cfg seed s0" and F: "finite F" "seed \<in> F"
    and announced: "\<And>p ps. gave_peers L (max_concurrent_tasks cfg) parallel (s0, n0) p (Some ps)
      \<Longrightarrow> set ps \<subseteq> F \<and> length ps \<le> m"
    and run: "(live_step L (max_concurrent_tasks cfg) parallel ^^ k) (s0, n0) (s, n)"
  shows "k \<le> card F * (2 * m + 23) + 13"
proof -
  obtain W where W: "(crawl_step W (max_concurrent_tasks cfg) parallel ^^ k) s0 s"
    and ask: "\<And>p. known_to W p = None \<or> gave_peers L (max_concurrent_tasks cfg) parallel (s0, n0) p (known_to W p)"
    using live_run_world [OF start run] by blast
  have known: "set ps \<subseteq> F \<and> length ps \<le> m" if "known_to W p = Some ps" for p ps
    using ask [of p] announced that by auto
  have reach: "reach W seed \<subseteq> F"
  proof
    fix p assume "p \<in> reach W seed"
    then show "p \<in> F" by induction (use F known in \<open>auto simp: found_def split: option.splits\<close>)
  qed
  have "known_count W p \<le> m" for p using known by (auto simp: known_count_def split: option.splits)
  from start_work [OF start F(1) reach this] steps_bounded [OF finite_subset [OF reach F(1)] W start_inv [OF start]]
  show ?thesis by simp
qed

section \<open>Networks that answer\<close>

text \<open>A network that answers whatever a task of the session waits for.\<close>

definition responsive :: "'n live_network \<Rightarrow> nat \<Rightarrow> bool \<Rightarrow> session \<times> 'n \<Rightarrow> bool" where
  "responsive L cap parallel x0 \<longleftrightarrow>
     (\<forall>s n a. (live_step L cap parallel)\<^sup>*\<^sup>* x0 (s, n) \<longrightarrow> a \<in># tasks s \<longrightarrow> (\<exists>W n'. answers_task L n a W n'))"

lemma task_turn_blocked: "task_turn W cap s a = None \<longleftrightarrow> task_turn V cap s a = None"
  by (cases a) (auto simp: Let_def split: option.splits)

lemma coord_turn_listens: "coord_turn cap s = Some t \<Longrightarrow> caller_listens t = caller_listens s"
  by (elim coord_turn_cases) simp_all

lemma task_turn_listens: "task_turn W cap s a = Some (s', a') \<Longrightarrow> caller_listens s' = caller_listens s"
  by (elim task_turn_cases) simp_all

lemma live_progress:
  assumes start: "crawl_start cfg seed s0" and run: "(live_step L (max_concurrent_tasks cfg) parallel)\<^sup>*\<^sup>* (s0, n0) (s, n)"
    and resp: "responsive L (max_concurrent_tasks cfg) parallel (s0, n0)"
    and busy: "\<not> stopped (coord s)" "length (crawl_queue s) < CRAWL_CAPACITY"
  shows "\<exists>y. live_step L (max_concurrent_tasks cfg) parallel (s, n) y \<and> caller_listens (fst y) = caller_listens s"
proof (cases "coord_turn (max_concurrent_tasks cfg) s")
  case (Some t)
  then show ?thesis
    using live_step.coordinator [OF Some, of L parallel n] coord_turn_listens [OF Some] by (intro exI [of _ "(t, n)"]) simp
next
  case None
  let ?cap = "max_concurrent_tasks cfg"
  obtain W where W: "(crawl_step W ?cap parallel)\<^sup>*\<^sup>* s0 s" using live_reachable [OF start run] by blast
  have inv: "counts_inv ?cap s" "active_inv seed s"
    using lively.reachable_inv [OF start W] by (auto simp: crawl_inv_def)
  from session_progress [OF inv crawl_start_capacity [OF start] busy None, of W] obtain a M where
    a: "tasks s = add_mset a M" "task_turn W ?cap (s\<lparr>tasks := M\<rparr>) a \<noteq> None" and c: "coord s \<noteq> PollDone"
    by (auto simp: task_moves_def)
  obtain V n' where V: "answers_task L n a V n'" using resp run a(1) unfolding responsive_def by fastforce
  obtain s' a' where turn: "task_turn V ?cap (s\<lparr>tasks := M\<rparr>) a = Some (s', a')"
    using a(2) task_turn_blocked [of W ?cap "s\<lparr>tasks := M\<rparr>" a V] by auto
  from live_step.task [OF a(1) V turn, of parallel] c task_turn_listens [OF turn] show ?thesis
    by (intro exI [of _ "(s'\<lparr>tasks := put_back a' M\<rparr>, n')"]) simp
qed

lemma listening_not_hung_up:
  assumes "crawl_start cfg seed s0" and "(crawl_step W cap parallel)\<^sup>*\<^sup>* s0 s"
  shows "caller_listens s \<longrightarrow> coord s \<noteq> Stopped HungUp"
  using assms(2)
proof (induction rule: rtranclp_induct)
  case base
  then show ?case using assms(1) by (auto simp: crawl_start_def coordinate_start_def split: if_splits)
next
  case (step s t)
  from step(2) show ?case
  proof (cases rule: crawl_step.cases)
    case coordinator
    then show ?thesis using step(3) by (elim coord_turn_cases) auto
  next
    case (task a M s' a')
    then show ?thesis using step(3) by (elim task_turn_cases) auto
  qed (use step(3) in simp_all)
qed

lemma live_finished:
  assumes start: "crawl_start cfg seed s0" and run: "(live_step L (max_concurrent_tasks cfg) parallel)\<^sup>*\<^sup>* (s0, n0) (s, n)"
    and resp: "responsive L (max_concurrent_tasks cfg) parallel (s0, n0)" and on: "caller_listens s"
    and quiet: "\<nexists>y. live_step L (max_concurrent_tasks cfg) parallel (s, n) y \<and> caller_listens (fst y)"
  shows "coord s = Stopped Exhausted \<and> tasks s = {#} \<and> crawl_queue s = []"
proof -
  obtain W where W: "(crawl_step W (max_concurrent_tasks cfg) parallel)\<^sup>*\<^sup>* s0 s"
    using live_reachable [OF start run] by blast
  have queue: "crawl_queue s = []"
  proof (rule ccontr)
    assume "crawl_queue s \<noteq> []"
    then obtain m q where "crawl_queue s = m # q" by (meson neq_Nil_conv)
    from live_step.receive [OF on this, of L "max_concurrent_tasks cfg" parallel n] quiet on show False by fastforce
  qed
  then have "stopped (coord s)"
    using live_progress [OF start run resp] quiet on by (auto simp: CRAWL_CAPACITY_def)
  then have "coord s = Stopped Exhausted"
    using listening_not_hung_up [OF start W] on by (simp add: stopped_iff)
  with queue exhausted_no_tasks [OF crawl.reachable_inv [OF start W]] show ?thesis by simp
qed

lemma live_complete:
  assumes start: "crawl_start cfg seed s0" and run: "(live_step L (max_concurrent_tasks cfg) False)\<^sup>*\<^sup>* (s0, n0) (s, n)"
    and ended: "coord s = Stopped Exhausted" and on: "caller_listens s"
  shows "\<exists>W. tested_peers s = reach W seed \<and> set (reports s) = {(p, verdict W p) | p. p \<in> reach W seed}
    \<and> distinct (map fst (reports s))
    \<and> (\<forall>p \<in> reach W seed. gave_connection L (max_concurrent_tasks cfg) False (s0, n0) p (connect_to W p)
         \<and> (connect_to W p \<noteq> None \<longrightarrow> gave_peers L (max_concurrent_tasks cfg) False (s0, n0) p (known_to W p)))"
proof -
  let ?cap = "max_concurrent_tasks cfg"
  obtain k where "(live_step L ?cap False ^^ k) (s0, n0) (s, n)" using rtranclp_imp_relpowp [OF run] by blast
  from live_run_world [OF start this] obtain W where W: "(crawl_step W ?cap False)\<^sup>*\<^sup>* s0 s"
    and con: "\<And>p. p \<in> set (spawned s) \<Longrightarrow> Connecting p \<in># tasks s \<or> gave_connection L ?cap False (s0, n0) p (connect_to W p)"
    and ask: "\<And>p info. (p, Listening info) \<in> set (reports s) \<Longrightarrow>
      Discovering p \<in># tasks s \<or> gave_peers L ?cap False (s0, n0) p (known_to W p)"
    using relpowp_imp_rtranclp by metis
  note inv = serial.reachable_inv [OF start W]
  have full: "tested_peers s = reach W seed" "set (reports s) = {(p, verdict W p) | p. p \<in> reach W seed}"
    "distinct (map fst (reports s))" "tasks s = {#}"
    using exhausted_complete inv ended on by blast+
  have spawned: "set (map fst (reports s)) \<subseteq> set (spawned s)"
    using reported_once crawl.reachable_inv [OF start W] by (metis (no_types))
  have "gave_connection L ?cap False (s0, n0) p (connect_to W p)
      \<and> (connect_to W p \<noteq> None \<longrightarrow> gave_peers L ?cap False (s0, n0) p (known_to W p))" if p: "p \<in> reach W seed" for p
  proof -
    have rep: "(p, verdict W p) \<in> set (reports s)" using p full(2) by blast
    then have "p \<in> set (spawned s)" using spawned by force
    with con ask rep full(4) show ?thesis by (fastforce simp: verdict_def split: option.splits)
  qed
  with full(1-3) show ?thesis by blast
qed

section \<open>After the caller has hung up\<close>

lemma hung_up_queue:
  assumes "crawl_start cfg seed s0" and "(crawl_step W cap parallel)\<^sup>*\<^sup>* s0 s"
  shows "\<not> caller_listens s \<longrightarrow> crawl_queue s = []"
  using assms(2)
proof (induction rule: rtranclp_induct)
  case base
  then show ?case using assms(1) by (auto simp: crawl_start_def coordinate_start_def split: if_splits)
next
  case (step s t)
  from step(2) show ?case
  proof (cases rule: crawl_step.cases)
    case coordinator
    then show ?thesis using step(3) by (elim coord_turn_cases) auto
  next
    case (task a M s' a')
    then show ?thesis using step(3) by (elim task_turn_cases) auto
  qed (use step(3) in simp_all)
qed

text \<open>Once the coordinator has returned, no task waits for anything but the network.\<close>

lemma stopped_task_moves:
  assumes "stopped (coord s)" and "\<not> caller_listens s"
  shows "task_turn W cap s a \<noteq> None"
  using assms by (cases a) (auto simp: Let_def split: option.splits)

lemma hung_up_quiet:
  assumes start: "crawl_start cfg seed s0" and run: "(live_step L (max_concurrent_tasks cfg) parallel)\<^sup>*\<^sup>* (s0, n0) (s, n)"
    and resp: "responsive L (max_concurrent_tasks cfg) parallel (s0, n0)" and off: "\<not> caller_listens s"
    and quiet: "\<nexists>y. live_step L (max_concurrent_tasks cfg) parallel (s, n) y"
  shows "stopped (coord s)" and "tasks s = {#}"
proof -
  obtain W where W: "(crawl_step W (max_concurrent_tasks cfg) parallel)\<^sup>*\<^sup>* s0 s"
    using live_reachable [OF start run] by blast
  have "length (crawl_queue s) < CRAWL_CAPACITY" using hung_up_queue [OF start W] off by (simp add: CRAWL_CAPACITY_def)
  then show stop: "stopped (coord s)" using live_progress [OF start run resp] quiet by blast
  show "tasks s = {#}"
  proof (rule ccontr)
    assume "tasks s \<noteq> {#}"
    then obtain a M where a: "tasks s = add_mset a M" by (meson multiset_cases)
    obtain V n' where V: "answers_task L n a V n'" using resp run a unfolding responsive_def by fastforce
    have "task_turn V (max_concurrent_tasks cfg) (s\<lparr>tasks := M\<rparr>) a \<noteq> None"
      using stop off by (intro stopped_task_moves) simp_all
    then obtain s' a' where "task_turn V (max_concurrent_tasks cfg) (s\<lparr>tasks := M\<rparr>) a = Some (s', a')" by auto
    from live_step.task [OF a V this, of parallel] quiet stop show False by (cases "coord s") auto
  qed
qed

text \<open>The tasks that the coordinator leaves behind end in a panic, all of them.\<close>

lemma stopped_step:
  assumes "live_step L cap parallel (s, n) (t, n')" and "stopped (coord s)"
  shows "coord t = coord s \<and> mset (panicked t) + image_mset task_peer (tasks t)
    = mset (panicked s) + image_mset task_peer (tasks s)"
  using assms(1)
proof (cases rule: live_step.cases)
  case coordinator
  then show ?thesis using assms(2) by (cases "coord s") (simp_all add: coord_turn.simps)
next
  case (task a M W s' a')
  then show ?thesis using assms(2) by (elim task_turn_cases) (auto split: crawler_message.splits)
qed simp_all

lemma stopped_steps:
  assumes "(live_step L cap parallel)\<^sup>*\<^sup>* (s, n) (t, n')" and "stopped (coord s)"
  shows "coord t = coord s \<and> mset (panicked t) + image_mset task_peer (tasks t)
    = mset (panicked s) + image_mset task_peer (tasks s)"
  using assms(1)
proof (induction rule: rtranclp_induct2)
  case (step t m u m')
  then show ?case using stopped_step [OF step(2)] assms(2) by simp
qed simp

lemma hung_up_accounted:
  assumes "crawl_inv W cap seed s" and "tasks s = {#}"
  shows "mset (spawned s) = mset (map fst (reports s) @ unreported s)"
  using assms by (simp add: crawl_inv_def report_inv_def)

lemma live_step_listens:
  assumes "(live_step L cap parallel)\<^sup>*\<^sup>* (s, n) (t, n')" and "\<not> caller_listens s"
  shows "\<not> caller_listens t"
  using assms(1)
proof (induction rule: rtranclp_induct2)
  case refl
  then show ?case by (rule assms(2))
next
  case (step t m u m')
  from step(2) show ?case
  proof (cases rule: live_step.cases)
    case coordinator
    then show ?thesis using step(3) coord_turn_listens by blast
  next
    case (task a M W s' a')
    then show ?thesis using step(3) task_turn_listens [OF task(4)] by simp
  qed (use step(3) in simp_all)
qed

section \<open>Examples\<close>

lemma apply_moves_coordinator:
  "apply_moves W cap parallel (replicate k Coordinator) s = Some t \<Longrightarrow>
   (live_step L cap parallel)\<^sup>*\<^sup>* (s, n) (t, n)"
  by (induction k arbitrary: s)
    (auto split: option.splits intro: live_step.coordinator converse_rtranclp_into_rtranclp)

text \<open>A network that counts the questions and lets only the first connection succeed.\<close>

definition fickle_network :: "nat live_network" where
  "fickle_network =
     \<lparr>live_connect = (\<lambda>n p r n'. n' = Suc n \<and> r = (if n = 0 then Some p else None)),
      live_ask = (\<lambda>n p r n'. n' = Suc n \<and> r = Some [])\<rparr>"

definition first_task :: session where
  "first_task = start_session\<lparr>tested_peers := {peer_number 1}, discovery := [], coord := Batch [],
     active_tasks := 1, tasks := {#Connecting (peer_number 1)#}, spawned := [peer_number 1]\<rparr>"

lemma first_task_reached: "(live_step L 2 parallel)\<^sup>*\<^sup>* (start_session, n) (first_task, n)"
proof (rule apply_moves_coordinator [where k = 4])
  show "apply_moves small_world 2 parallel (replicate 4 Coordinator) start_session = Some first_task"
    by (simp add: run_simps numeral_eq_Suc first_task_def)
qed

lemma fickle_announces_nothing:
  "gave_peers fickle_network cap parallel x0 p (Some ps) \<Longrightarrow> ps = []"
  by (auto simp: gave_peers_def fickle_network_def)

lemma fickle_responsive: "responsive fickle_network cap parallel x0"
proof -
  have "\<exists>W n'. answers_task fickle_network n a W n'" for n a
    by (cases a)
      (auto simp: fickle_network_def
        intro!: exI [of _ "\<lparr>connect_to = (\<lambda>p. if n = 0 then Some p else None), known_to = (\<lambda>_. Some [])\<rparr>"])
  then show ?thesis by (simp add: responsive_def)
qed

text \<open>The same session when its first peer has been connected and reported.\<close>

definition first_report :: "peer \<Rightarrow> session" where
  "first_report info = first_task\<lparr>tasks := {#Discovering (peer_number 1)#},
     crawl_queue := [Listening info], reports := [(peer_number 1, Listening info)]\<rparr>"

lemma first_report_reached:
  assumes "live_connect L n (peer_number 1) (Some info) n'"
  shows "(live_step L 2 parallel)\<^sup>*\<^sup>* (start_session, n) (first_report info, n')"
proof -
  let ?m = "Listening info" and ?W = "\<lparr>connect_to = (\<lambda>_. Some info), known_to = (\<lambda>_. None)\<rparr>"
  let ?s = "first_task\<lparr>tasks := {#Reporting (peer_number 1) ?m#}\<rparr>"
  have "live_step L 2 parallel (first_task, n) (?s, n')"
    using live_step.task [of first_task "Connecting (peer_number 1)" "{#}" L n ?W n' 2
        "first_task\<lparr>tasks := {#}\<rparr>" "Some (Reporting (peer_number 1) ?m)" parallel] assms
    by (simp add: first_task_def)
  moreover have "live_step L 2 parallel (?s, n') (first_report info, n')"
    using live_step.task [of ?s "Reporting (peer_number 1) ?m" "{#}" L n' ?W n' 2
        "first_task\<lparr>tasks := {#}, crawl_queue := [?m], reports := [(peer_number 1, ?m)]\<rparr>"
        "Some (Discovering (peer_number 1))" parallel]
    by (simp add: first_task_def first_report_def run_simps)
  ultimately show ?thesis
    using first_task_reached [of L parallel n] by (meson rtranclp.rtrancl_into_rtrancl)
qed

text \<open>A session whose only peer is connected and then stops reading.\<close>

abbreviation stuck_peer :: "(u8 list, u8 list, u8 list list, u8 list list) connection" where
  "stuck_peer \<equiv> example_connection [[6, 9]]"

abbreviation stuck_network ::
  "(unit \<times> (peer \<rightharpoonup> (u8 list, u8 list, u8 list list, u8 list list) connection)) live_network" where
  "stuck_network \<equiv> session_network packet_env stuck_connections (example_timer stuck_connections) two_tasks
     (\<lambda>k p. (Some (Inr stuck_peer), k))"

lemma stuck_never_returns:
  "never_returns packet_env stuck_connections (example_timer stuck_connections) (from_secs 20) stuck_peer"
proof -
  obtain c1 c2 where "pc_write stuck_connections stuck_peer GetAddr = (Ok (), c1)"
    "pc_read stuck_connections c1 = (Ok (Ping 9), c2)" "pc_write stuck_connections c2 (Pong 9) = (Pending, c2)"
    using stuck_conversation by blast
  then have "get_peers packet_env stuck_connections (example_timer stuck_connections) now (from_secs 20) stuck_peer
      = Some (Pending, c2)" for now
    by (intro get_peers_pong_waits [OF example_timer_laws(1,3)]) (simp_all add: from_secs_def)
  then show ?thesis by (simp add: never_returns_def)
qed

definition parked_session :: session where
  "parked_session = first_task\<lparr>tasks := {#Discovering (peer_number 1)#}, coord := Parked,
     crawl_queue := [Listening (conn_peer stuck_peer)], reports := [(peer_number 1, Listening (conn_peer stuck_peer))]\<rparr>"

lemma parked_reached:
  "(live_step stuck_network 2 False)\<^sup>*\<^sup>* (start_session, (), Map.empty) (parked_session, (), [peer_number 1 \<mapsto> stuck_peer])"
proof -
  let ?info = "conn_peer stuck_peer" and ?conns = "[peer_number 1 \<mapsto> stuck_peer]"
  have "live_connect stuck_network ((), Map.empty) (peer_number 1) (Some ?info) ((), ?conns)"
    by (simp add: session_network_def connection_peer_connection_def)
  note reported = first_report_reached [OF this, of False]
  have "(live_step stuck_network 2 False)\<^sup>*\<^sup>* (first_report ?info, (), ?conns) (parked_session, (), ?conns)"
    by (rule apply_moves_coordinator [where k = 4 and W = small_world])
      (simp add: run_simps numeral_eq_Suc first_task_def first_report_def parked_session_def)
  with reported show ?thesis by (rule rtranclp_trans)
qed

section \<open>Properties\<close>

text \<open>
  C12. A session over any network is a session over some world. However the answers of the
  network change while the session runs, on one thread or on several, there is a fixed world
  over which the session could have taken the same number of steps to the same state; and its
  answers are the ones the network has given: every peer whose connection was tried has in
  that world the outcome of the attempt, every peer that was asked for addresses the answer it
  gave, and no peer accepts a connection or announces anything in that world which it was not
  seen to do.
\<close>

theorem any_network_crawl_has_world:
  assumes "crawl_start cfg seed s0" and "(live_step L cap parallel ^^ k) (s0, n0) (s, n)"
  shows "\<exists>W. (crawl_step W cap parallel ^^ k) s0 s
    \<and> (\<forall>p \<in> set (spawned s). Connecting p \<in># tasks s \<or> gave_connection L cap parallel (s0, n0) p (connect_to W p))
    \<and> (\<forall>p info. (p, Listening info) \<in> set (reports s) \<longrightarrow>
         Discovering p \<in># tasks s \<or> gave_peers L cap parallel (s0, n0) p (known_to W p))
    \<and> (\<forall>p. connect_to W p = None \<or> gave_connection L cap parallel (s0, n0) p (connect_to W p))
    \<and> (\<forall>p. known_to W p = None \<or> gave_peers L cap parallel (s0, n0) p (known_to W p))"
  by (rule live_run_world [OF assms])

theorem any_network_crawl_has_world_witness:
  "\<exists>s k W. (live_step fickle_network 2 True ^^ k) (start_session, 0) (s, 1)
     \<and> tasks s = {#Reporting (peer_number 1) (Listening (peer_number 1))#}
     \<and> (crawl_step W 2 True ^^ k) start_session s"
proof -
  let ?s = "first_task\<lparr>tasks := {#Reporting (peer_number 1) (Listening (peer_number 1))#}\<rparr>"
  have connect: "live_step fickle_network 2 True (first_task, 0) (?s, 1)"
    using live_step.task [of first_task "Connecting (peer_number 1)" "{#}" fickle_network 0 small_world 1 2
        "first_task\<lparr>tasks := {#}\<rparr>" "Some (Reporting (peer_number 1) (Listening (peer_number 1)))" True]
    by (simp add: first_task_def fickle_network_def small_world_def)
  obtain k where run: "(live_step fickle_network 2 True ^^ k) (start_session, 0) (?s, 1)"
    using rtranclp_imp_relpowp [OF rtranclp.rtrancl_into_rtrancl [OF first_task_reached connect]] by blast
  from any_network_crawl_has_world [OF start_session run] run show ?thesis
    by (intro exI [of _ ?s] exI [of _ k]) auto
qed

text \<open>
  C13. A crawl is complete. On one thread, over any network that answers, if the caller keeps
  taking results and nothing more can happen, the session has ended by itself, no task is
  left, and all results were taken; and it has tested and reported, each exactly once, the
  seed and every peer that a peer it could connect to has announced, and so on: the peers that
  can be reached in a world whose answers are those that the network has given.
\<close>

theorem any_network_crawl_completes:
  assumes "crawl_start cfg seed s0" and "(live_step L (max_concurrent_tasks cfg) False)\<^sup>*\<^sup>* (s0, n0) (s, n)"
    and "responsive L (max_concurrent_tasks cfg) False (s0, n0)" and "caller_listens s"
    and "\<nexists>y. live_step L (max_concurrent_tasks cfg) False (s, n) y \<and> caller_listens (fst y)"
  shows "coord s = Stopped Exhausted \<and> tasks s = {#} \<and> crawl_queue s = []
    \<and> (\<exists>W. tested_peers s = reach W seed \<and> set (reports s) = {(p, verdict W p) | p. p \<in> reach W seed}
         \<and> distinct (map fst (reports s))
         \<and> (\<forall>p \<in> reach W seed. gave_connection L (max_concurrent_tasks cfg) False (s0, n0) p (connect_to W p)
              \<and> (connect_to W p \<noteq> None \<longrightarrow>
                   gave_peers L (max_concurrent_tasks cfg) False (s0, n0) p (known_to W p))))"
  using live_finished [OF assms] live_complete [OF assms(1,2) _ assms(4)] by blast

theorem any_network_crawl_completes_witness:
  "\<exists>s n. (live_step fickle_network 2 False)\<^sup>*\<^sup>* (start_session, 0) (s, n)
     \<and> coord s = Stopped Exhausted \<and> tasks s = {#} \<and> peer_number 1 \<in> tested_peers s"
proof -
  let ?step = "\<lambda>x y. live_step fickle_network 2 False x y \<and> caller_listens (fst y)"
  have cap: "max_concurrent_tasks two_tasks = 2" by (simp add: two_tasks_def)
  have "k \<le> 36" if "(?step ^^ k) (start_session, 0) y" for k y
  proof -
    have "(live_step fickle_network 2 False ^^ k) (start_session, 0) (fst y, snd y)"
      using relpowp_mono [of ?step "live_step fickle_network 2 False" k "(start_session, 0)" y] that by simp
    from live_run_bounded [OF start_session, of "{peer_number 1}" fickle_network False 0 0, unfolded cap, OF _ _ _ this]
    show ?thesis using fickle_announces_nothing by fastforce
  qed
  then obtain y where y: "?step\<^sup>*\<^sup>* (start_session, 0) y" "\<nexists>z. ?step y z"
    using bounded_runs_end [of ?step "(start_session, 0)" 36] by blast
  have run: "(live_step fickle_network 2 False)\<^sup>*\<^sup>* (start_session, 0) (fst y, snd y)"
    using rtranclp_mono [of ?step "live_step fickle_network 2 False"] y(1) by auto
  have on: "caller_listens (fst y)"
    using y(1) by (cases rule: rtranclp.cases) (auto simp: start_session_def coordinate_start_def two_tasks_def)
  from any_network_crawl_completes [OF start_session, of fickle_network 0 "fst y" "snd y", unfolded cap,
      OF run fickle_responsive on] y(2) obtain W where
    "coord (fst y) = Stopped Exhausted" "tasks (fst y) = {#}" "tested_peers (fst y) = reach W (peer_number 1)" by auto
  with run show ?thesis using reach.seed by blast
qed

text \<open>
  C11. A crawl ends when the network is finite. If the peers that the network ever announces
  to the session, and the seed, are among finitely many, and no answer is longer than \<open>m\<close>,
  then no run of the session, whatever the schedule of its coordinator, its tasks and its
  caller, on one thread or on several, and however the answers change, takes more than
  \<open>2 * m + 23\<close> steps for each of these peers and \<open>13\<close> more.
\<close>

theorem any_network_crawl_terminates:
  assumes start: "crawl_start cfg seed s0" and F: "finite F" "seed \<in> F"
    and announced: "\<And>p ps. gave_peers L (max_concurrent_tasks cfg) parallel (s0, n0) p (Some ps)
      \<Longrightarrow> set ps \<subseteq> F \<and> length ps \<le> m"
    and run: "(live_step L (max_concurrent_tasks cfg) parallel ^^ k) (s0, n0) (s, n)"
  shows "k \<le> card F * (2 * m + 23) + 13"
  by (rule live_run_bounded [OF assms])

theorem any_network_crawl_terminates_witness:
  "\<exists>s k. (live_step fickle_network 2 True ^^ k) (start_session, 0) (s, 1)
     \<and> reports s = [(peer_number 1, Listening (peer_number 1))] \<and> k \<le> 36"
proof -
  have "live_connect fickle_network 0 (peer_number 1) (Some (peer_number 1)) 1" by (simp add: fickle_network_def)
  from first_report_reached [OF this, of True] obtain k where
    run: "(live_step fickle_network 2 True ^^ k) (start_session, 0) (first_report (peer_number 1), 1)"
    using rtranclp_imp_relpowp by metis
  have cap: "max_concurrent_tasks two_tasks = 2" by (simp add: two_tasks_def)
  have none: "set ps \<subseteq> {peer_number 1} \<and> length ps \<le> 0"
    if "gave_peers fickle_network (max_concurrent_tasks two_tasks) True (start_session, 0) p (Some ps)" for p ps
    using fickle_announces_nothing [OF that] by simp
  have "k \<le> card {peer_number 1} * (2 * 0 + 23) + 13"
    by (rule any_network_crawl_terminates [OF start_session _ _ none run [folded cap]]) simp_all
  then have "k \<le> 36" by simp
  moreover have "reports (first_report (peer_number 1)) = [(peer_number 1, Listening (peer_number 1))]"
    by (simp add: first_report_def)
  ultimately show ?thesis using run by blast
qed

text \<open>
  C24. One peer can keep a crawl from ever ending. If \<open>get_peers\<close> on the connection to a peer
  never returns, as when the peer sends a ping and stops reading, then from the moment a task
  asks that peer the session never ends naturally, whatever the other tasks, the connector and
  the caller do. Once the coordinator waits for that task alone, it waits for ever, even when
  the caller hangs up.
\<close>

theorem waiting_peer_blocks_crawl:
  assumes "crawl_start cfg seed s0"
    and "(live_step (session_network B P T cfg connect) (max_concurrent_tasks cfg) parallel)\<^sup>*\<^sup>* (s0, n0) (s, k, conns)"
    and "Discovering p \<in># tasks s" and "conns p = Some c" and "never_returns B P T (peer_timeout cfg) c"
    and "(live_step (session_network B P T cfg connect) (max_concurrent_tasks cfg) parallel)\<^sup>*\<^sup>* (s, k, conns) (t, n)"
  shows "Discovering p \<in># tasks t \<and> coord t \<noteq> Stopped Exhausted
    \<and> (tasks s = {#Discovering p#} \<and> coord s = Parked \<and> discovery s = [] \<and> task_done s = [] \<longrightarrow> coord t = Parked)"
proof (intro conjI impI)
  show task: "Discovering p \<in># tasks t" using waiting_steps [OF assms] by simp
  obtain W where "(crawl_step W (max_concurrent_tasks cfg) parallel)\<^sup>*\<^sup>* s0 t"
    using live_reachable [OF assms(1) rtranclp_trans [OF assms(2,6)]] by blast
  with task exhausted_no_tasks crawl.reachable_inv [OF assms(1)] show "coord t \<noteq> Stopped Exhausted" by fastforce
  assume "tasks s = {#Discovering p#} \<and> coord s = Parked \<and> discovery s = [] \<and> task_done s = []"
  with only_task_steps [OF assms(6,5,4)] show "coord t = Parked" by simp
qed

theorem waiting_peer_blocks_crawl_witness:
  "(live_step stuck_network 2 False)\<^sup>*\<^sup>* (start_session, (), Map.empty) (parked_session, (), [peer_number 1 \<mapsto> stuck_peer])
   \<and> coord (parked_session\<lparr>caller_listens := False, crawl_queue := []\<rparr>) = Parked"
proof -
  have "live_step stuck_network 2 False (parked_session, (), [peer_number 1 \<mapsto> stuck_peer])
      (parked_session\<lparr>caller_listens := False, crawl_queue := []\<rparr>, (), [peer_number 1 \<mapsto> stuck_peer])"
    by (rule live_step.hang_up) (simp add: parked_session_def first_task_def run_simps)
  with waiting_peer_blocks_crawl [OF start_session, of packet_env stuck_connections "example_timer stuck_connections"
      "\<lambda>k p. (Some (Inr stuck_peer), k)" False "((), Map.empty)" parked_session "()" "[peer_number 1 \<mapsto> stuck_peer]"
      "peer_number 1" stuck_peer "parked_session\<lparr>caller_listens := False, crawl_queue := []\<rparr>"
      "((), [peer_number 1 \<mapsto> stuck_peer])"] parked_reached stuck_never_returns
  show ?thesis by (auto simp: two_tasks_def parked_session_def first_task_def run_simps)
qed

text \<open>
  C15. A crawl winds down when the caller hangs up. Over a finite network that answers, from
  any state in which the caller has dropped its receiver, on one thread or on several, the
  session comes to rest; and whenever it is at rest, the coordinator has returned, no task is
  left, and every peer that was given to a task was reported before or counts as unreported.
  If the coordinator had already returned while tasks were running, then exactly these tasks
  do not end gracefully: each of them panics when it wants to hand in its result.
\<close>

theorem hung_up_crawl_winds_down:
  assumes start: "crawl_start cfg seed s0" and F: "finite F" "seed \<in> F"
    and announced: "\<And>p ps. gave_peers L (max_concurrent_tasks cfg) parallel (s0, n0) p (Some ps)
      \<Longrightarrow> set ps \<subseteq> F \<and> length ps \<le> m"
    and resp: "responsive L (max_concurrent_tasks cfg) parallel (s0, n0)"
    and run: "(live_step L (max_concurrent_tasks cfg) parallel)\<^sup>*\<^sup>* (s0, n0) (s, n)"
    and off: "\<not> caller_listens s"
  shows "(\<exists>y. (live_step L (max_concurrent_tasks cfg) parallel)\<^sup>*\<^sup>* (s, n) y
           \<and> (\<nexists>z. live_step L (max_concurrent_tasks cfg) parallel y z))
    \<and> (\<forall>t n'. (live_step L (max_concurrent_tasks cfg) parallel)\<^sup>*\<^sup>* (s, n) (t, n')
           \<and> (\<nexists>z. live_step L (max_concurrent_tasks cfg) parallel (t, n') z) \<longrightarrow>
         stopped (coord t) \<and> tasks t = {#}
         \<and> mset (spawned t) = mset (map fst (reports t) @ unreported t)
         \<and> (stopped (coord s) \<longrightarrow> mset (panicked t) = mset (panicked s) + image_mset task_peer (tasks s)))"
proof (intro conjI allI impI; (elim conjE)?)
  let ?step = "live_step L (max_concurrent_tasks cfg) parallel"
  obtain i where i: "(?step ^^ i) (s0, n0) (s, n)" using rtranclp_imp_relpowp [OF run] by blast
  have "k \<le> card F * (2 * m + 23) + 13" if k: "(?step ^^ k) (s, n) y" for k y
  proof -
    have ik: "(?step ^^ (i + k)) (s0, n0) (fst y, snd y)" using i k by (simp add: relpowp_add relcompp.relcompI)
    have "i + k \<le> card F * (2 * m + 23) + 13" by (rule live_run_bounded [OF start F announced ik])
    then show ?thesis by simp
  qed
  then show "\<exists>y. ?step\<^sup>*\<^sup>* (s, n) y \<and> (\<nexists>z. ?step y z)" by (rule bounded_runs_end)
  fix t n' assume on: "?step\<^sup>*\<^sup>* (s, n) (t, n')" and quiet: "\<nexists>z. ?step (t, n') z"
  have run': "?step\<^sup>*\<^sup>* (s0, n0) (t, n')" using run on by (rule rtranclp_trans)
  note rest = hung_up_quiet [OF start run' resp live_step_listens [OF on off] quiet]
  from rest show "stopped (coord t)" "tasks t = {#}" .
  obtain W where "(crawl_step W (max_concurrent_tasks cfg) parallel)\<^sup>*\<^sup>* s0 t"
    using live_reachable [OF start run'] by blast
  with hung_up_accounted [OF crawl.reachable_inv [OF start] rest(2)]
  show "mset (spawned t) = mset (map fst (reports t) @ unreported t)" by blast
  assume "stopped (coord s)"
  with stopped_steps [OF on] rest(2) show "mset (panicked t) = mset (panicked s) + image_mset task_peer (tasks s)" by simp
qed

theorem hung_up_crawl_winds_down_witness:
  "\<exists>t n'. (live_step fickle_network 2 False)\<^sup>*\<^sup>* (start_session, 0) (t, n')
     \<and> coord t = Stopped HungUp \<and> tasks t = {#} \<and> panicked t = [peer_number 1]"
proof -
  let ?step = "live_step fickle_network 2 False"
  let ?s = "first_task\<lparr>caller_listens := False, crawl_queue := [], coord := Stopped HungUp\<rparr>"
  have cap: "max_concurrent_tasks two_tasks = 2" by (simp add: two_tasks_def)
  have "?step (first_task, 0) (first_task\<lparr>caller_listens := False, crawl_queue := []\<rparr>, 0)"
    by (rule live_step.hang_up) (simp add: first_task_def run_simps)
  moreover have "?step\<^sup>*\<^sup>* (first_task\<lparr>caller_listens := False, crawl_queue := []\<rparr>, 0) (?s, 0)"
    by (rule apply_moves_coordinator [where k = 2 and W = small_world])
      (simp add: first_task_def run_simps numeral_eq_Suc)
  ultimately have run: "?step\<^sup>*\<^sup>* (start_session, 0) (?s, 0)"
    using first_task_reached [of fickle_network False 0] by (meson rtranclp.rtrancl_into_rtrancl rtranclp_trans)
  have none: "set ps \<subseteq> {peer_number 1} \<and> length ps \<le> 0"
    if "gave_peers fickle_network (max_concurrent_tasks two_tasks) False (start_session, 0) p (Some ps)" for p ps
    using fickle_announces_nothing [OF that] by simp
  have "(\<exists>y. ?step\<^sup>*\<^sup>* (?s, 0) y \<and> (\<nexists>z. ?step y z))
      \<and> (\<forall>t n'. ?step\<^sup>*\<^sup>* (?s, 0) (t, n') \<and> (\<nexists>z. ?step (t, n') z) \<longrightarrow> stopped (coord t) \<and> tasks t = {#}
           \<and> mset (spawned t) = mset (map fst (reports t) @ unreported t)
           \<and> (stopped (coord ?s) \<longrightarrow> mset (panicked t) = mset (panicked ?s) + image_mset task_peer (tasks ?s)))"
    by (rule hung_up_crawl_winds_down [OF start_session _ _ none fickle_responsive run [folded cap], unfolded cap]) simp_all
  note down = this
  then obtain t n' where t: "?step\<^sup>*\<^sup>* (?s, 0) (t, n')" "\<nexists>z. ?step (t, n') z" by auto
  then have "tasks t = {#}" "mset (panicked t) = {#peer_number 1#}"
    using down by (auto simp: first_task_def run_simps)
  moreover have "coord t = Stopped HungUp" using stopped_steps [OF t(1)] by simp
  ultimately show ?thesis using rtranclp_trans [OF run t(1)] by (auto simp: mset_single_iff)
qed

end
