(* ===== verification/Circular_Test.thy ===== *)
theory Circular_Test
  imports Crawler_Tests Session_Network
begin

text \<open>
  The test of \<^verbatim>\<open>crawler/src/session.rs\<close> that runs a whole session:
  \<^verbatim>\<open>test_coordinate_terminates_with_circular_references\<close>. Three peers announce each
  other; the crawl has to end and to report all of them. The network of the session is the
  mock connector, which hands out its connections in the order in which they are requested,
  whoever requests them, and then fails; the test passes under every schedule.
\<close>

section \<open>The test\<close>

abbreviation peer_a :: peer where "peer_a \<equiv> peer_new (Ipv4 0xC0A80101) 8333"

abbreviation peer_b :: peer where "peer_b \<equiv> peer_new (Ipv4 0xC0A80102) 8333"

abbreviation peer_c :: peer where "peer_c \<equiv> peer_new (Ipv4 0xC0A80103) 8333"

definition announcing ::
  "('a) bitcoin_api_scheme \<Rightarrow> u32 \<Rightarrow> service_flags \<Rightarrow> peer \<Rightarrow> peer list \<Rightarrow> mock_peer_connection option" where
  "announcing B timestamp N info ps =
     add_addr_message B timestamp (map (\<lambda>p. (address p, port p, N)) ps) (mock_new\<lparr>peer_info := info\<rparr>)"

definition circular_connector ::
  "('a) bitcoin_api_scheme \<Rightarrow> u32 \<Rightarrow> service_flags \<Rightarrow> mock_connector option" where
  "circular_connector B timestamp N =
     (case (announcing B timestamp N peer_a [peer_b, peer_c], announcing B timestamp N peer_b [peer_a, peer_c],
            announcing B timestamp N peer_c [peer_a, peer_b]) of
        (Some mock_conn_a, Some mock_conn_b, Some mock_conn_c) \<Rightarrow>
          Some (foldl add_connection (snd (snd create_test_session)) [mock_conn_a, mock_conn_b, mock_conn_c])
      | _ \<Rightarrow> None)"

definition mock_session_connect ::
  "mock_connector \<Rightarrow> peer \<Rightarrow> (connection_error + mock_peer_connection) option \<times> mock_connector" where
  "mock_session_connect k p =
     (case mock_connect k p of
        (Ok c, k') \<Rightarrow> (Some (Inr c), k')
      | (Err e, k') \<Rightarrow> (Some (Inl e), k')
      | (Pending, k') \<Rightarrow> (None, k'))"

abbreviation mock_network ::
  "('a) bitcoin_api_scheme \<Rightarrow> mock_peer_connection timer
   \<Rightarrow> (mock_connector \<times> (peer \<rightharpoonup> mock_peer_connection)) live_network" where
  "mock_network B T \<equiv> session_network B mock_peer_connection_impl T (fst create_test_session) mock_session_connect"

definition seen_peers :: "crawler_message list \<Rightarrow> (addr_v2 \<times> u16) set" where
  "seen_peers ms =
     set (List.map_filter (\<lambda>m. case m of Listening p \<Rightarrow> Some (address p, port p) | NonListening _ \<Rightarrow> None) ms)"

text \<open>
  The test's own loop takes messages until the channel is closed, which it is when the
  coordinator and all tasks have ended and no message is left; it never drops its receiver.
  The channel of the test has room for ten messages, more than are ever sent.
\<close>

definition test_coordinate_terminates_with_circular_references ::
  "('a) bitcoin_api_scheme \<Rightarrow> mock_peer_connection timer \<Rightarrow> u32 \<Rightarrow> service_flags \<Rightarrow> bool" where
  "test_coordinate_terminates_with_circular_references B T timestamp N \<longleftrightarrow>
     (case circular_connector B timestamp N of
        None \<Rightarrow> False
      | Some connector \<Rightarrow>
          let config = fst create_test_session;
              step = \<lambda>x y. live_step (mock_network B T) (max_concurrent_tasks config) False x y \<and> caller_listens (fst y)
          in (case coordinate_start config peer_a of
                None \<Rightarrow> False
              | Some s0 \<Rightarrow>
                  (\<exists>bound. \<forall>k x. (step ^^ k) (s0, connector, Map.empty) x \<longrightarrow> k \<le> bound)
                  \<and> (\<forall>s n. step\<^sup>*\<^sup>* (s0, connector, Map.empty) (s, n) \<and> (\<nexists>y. step (s, n) y) \<longrightarrow>
                       stopped (coord s) \<and> tasks s = {#} \<and> crawl_queue s = []
                       \<and> length (reports s) \<le> 10
                       \<and> seen_peers (map snd (reports s)) = (\<lambda>p. (address p, port p)) ` {peer_a, peer_b, peer_c}
                       \<and> card (seen_peers (map snd (reports s))) = 3)))"

section \<open>What the mocks announce\<close>

lemma announcing_addresses:
  assumes "ipv4_address_law B" and "list_all (\<lambda>p. \<exists>ip. address p = Ipv4 ip) ps"
  shows "\<exists>as. announcing B timestamp N info ps
      = Some (mock_new\<lparr>peer_info := info, incoming_messages := [Inr (Addr as)]\<rparr>)
    \<and> addr_peers B as = map (\<lambda>p. peer_with_services (address p) (port p) N) ps"
proof -
  let ?new = "\<lambda>p. (timestamp, address_new B \<lparr>sock_ip = (case address p of Ipv4 ip \<Rightarrow> V4 ip | _ \<Rightarrow> V4 0), sock_port = port p\<rparr> N)"
  have "those (map (\<lambda>(a, p, s). map_option (\<lambda>sa. (timestamp, address_new B sa s))
      (case a of Ipv4 ipv4 \<Rightarrow> Some \<lparr>sock_ip = V4 ipv4, sock_port = p\<rparr>
        | Ipv6 ipv6 \<Rightarrow> Some \<lparr>sock_ip = V6 ipv6, sock_port = p\<rparr> | _ \<Rightarrow> None))
      (map (\<lambda>p. (address p, port p, N)) ps)) = Some (map ?new ps)"
    using assms(2) by (induction ps) auto
  moreover have "addr_peers B (map ?new ps) = map (\<lambda>p. peer_with_services (address p) (port p) N) ps"
    using assms by (induction ps) (auto simp: addr_peers_def ipv4_address_law_def List.map_filter_def)
  ultimately show ?thesis
    by (auto simp: announcing_def add_addr_message_def add_incoming_message_def mock_new_def)
qed

lemma get_peers_announced:
  assumes "ipv4_address_law B" and "fast_clock T" and "list_all (\<lambda>p. \<exists>ip. address p = Ipv4 ip) ps" and "ps \<noteq> []"
  shows "\<exists>c c'. announcing B timestamp N info ps = Some c \<and> peer_info c = info
    \<and> get_peers B mock_peer_connection_impl T now (from_millis 50) c
        = Some (Ok (map (\<lambda>p. peer_with_services (address p) (port p) N) ps), c')"
proof -
  obtain as where as: "announcing B timestamp N info ps
      = Some (mock_new\<lparr>peer_info := info, incoming_messages := [Inr (Addr as)]\<rparr>)"
    "addr_peers B as = map (\<lambda>p. peer_with_services (address p) (port p) N) ps"
    using announcing_addresses [OF assms(1,3)] by blast
  from mock_get_peers_found [OF assms(2) as(2), of "from_millis 50" now info] assms(4) as(1) show ?thesis by simp
qed

lemma announced_distinct:
  "with_known_services p N \<noteq> peer_new a n" "peer_new a n \<noteq> with_known_services p N"
  "with_known_services (peer_new a n) N = with_known_services (peer_new a' n) N \<longleftrightarrow> a = a'"
  by (auto simp: peer_new_def with_known_services_def)

text \<open>A mock connection of the test: it announces two of the three peers.\<close>

definition circular_mock ::
  "('a) bitcoin_api_scheme \<Rightarrow> mock_peer_connection timer \<Rightarrow> service_flags \<Rightarrow> mock_peer_connection \<Rightarrow> bool" where
  "circular_mock B T N c \<longleftrightarrow>
     (\<exists>ps. length ps = 2 \<and> distinct ps \<and> set ps \<subseteq> (\<lambda>p. with_known_services p N) ` {peer_a, peer_b, peer_c}
        \<and> (\<forall>now. \<exists>c'. get_peers B mock_peer_connection_impl T now (peer_timeout (fst create_test_session)) c
             = Some (Ok ps, c')))"

lemma announcing_mock:
  assumes "ipv4_address_law B" and "fast_clock T" and "set [p, q] \<subseteq> {peer_a, peer_b, peer_c}" and "p \<noteq> q"
  shows "\<exists>c. announcing B timestamp N info [p, q] = Some c \<and> peer_info c = info \<and> circular_mock B T N c"
proof -
  have v4: "list_all (\<lambda>p. \<exists>ip. address p = Ipv4 ip) [p, q]"
    using assms(3) by (auto simp: peer_new_def)
  have known: "map (\<lambda>p. peer_with_services (address p) (port p) N) [p, q] = map (\<lambda>p. with_known_services p N) [p, q]"
    using assms(3) by (auto simp: peer_with_services_def peer_new_def with_known_services_def)
  note got = get_peers_announced [OF assms(1,2) v4, of timestamp N info, unfolded known, simplified]
  then obtain c where c: "announcing B timestamp N info [p, q] = Some c" "peer_info c = info" by blast
  have "\<exists>c'. get_peers B mock_peer_connection_impl T now (from_millis 50) c
      = Some (Ok [with_known_services p N, with_known_services q N], c')" for now
    using got [of now] c(1) by auto
  moreover have "with_known_services p N \<noteq> with_known_services q N"
    using assms(3,4) by (auto simp: announced_distinct)
  ultimately have "circular_mock B T N c"
    using assms(3) unfolding circular_mock_def
    by (intro exI [of _ "[with_known_services p N, with_known_services q N]"]) (auto simp: create_test_session_def)
  with c show ?thesis by blast
qed

lemma circular_mocks:
  assumes "ipv4_address_law B" and "fast_clock T"
  shows "\<exists>mocks. circular_connector B timestamp N = Some mocks \<and> map peer_info mocks = [peer_a, peer_b, peer_c]
    \<and> (\<forall>c \<in> set mocks. circular_mock B T N c)"
proof -
  have ne: "peer_a \<noteq> peer_b" "peer_a \<noteq> peer_c" "peer_b \<noteq> peer_c" by (simp_all add: peer_new_def)
  obtain ca cb cc where
    "announcing B timestamp N peer_a [peer_b, peer_c] = Some ca" "peer_info ca = peer_a" "circular_mock B T N ca"
    "announcing B timestamp N peer_b [peer_a, peer_c] = Some cb" "peer_info cb = peer_b" "circular_mock B T N cb"
    "announcing B timestamp N peer_c [peer_a, peer_b] = Some cc" "peer_info cc = peer_c" "circular_mock B T N cc"
    using announcing_mock [OF assms, of peer_b peer_c timestamp N peer_a] announcing_mock [OF assms, of peer_a peer_c timestamp N peer_b]
      announcing_mock [OF assms, of peer_a peer_b timestamp N peer_c] ne by auto
  then show ?thesis
    by (simp add: circular_connector_def create_test_session_def mock_connector_new_def add_connection_def)
qed

section \<open>Who gets a connection\<close>

primrec verdict_of :: "task \<Rightarrow> crawler_message multiset" where
  "verdict_of (Connecting p) = {#}"
| "verdict_of (Reporting p m) = {#m#}"
| "verdict_of (Discovering p) = {#}"
| "verdict_of (Filtering p ps) = {#}"
| "verdict_of (Finishing p r) = {#}"

definition verdicts :: "session \<Rightarrow> crawler_message multiset" where
  "verdicts s = mset (map snd (reports s)) + (\<Sum>a \<in># tasks s. verdict_of a)"

fun is_listening :: "crawler_message \<Rightarrow> bool" where
  "is_listening (Listening p) = True"
| "is_listening (NonListening p) = False"

text \<open>The connections that were handed out are those that were reported or are about to be.\<close>

definition handed_inv :: "mock_connector \<Rightarrow> session \<Rightarrow> mock_connector \<Rightarrow> bool" where
  "handed_inv mocks s k \<longleftrightarrow>
     (caller_listens s \<longrightarrow>
        filter_mset is_listening (verdicts s) + {#Listening (peer_info c). c \<in># mset k#} = {#Listening (peer_info c). c \<in># mset mocks#}
        \<and> (k \<noteq> [] \<longrightarrow> (\<forall>m \<in># verdicts s. is_listening m)))"

lemma coord_handed:
  assumes "coord_turn cap s = Some t" and "handed_inv mocks s k"
  shows "handed_inv mocks t k"
  using assms by (cases rule: coord_turn_cases) (auto simp: handed_inv_def verdicts_def)

lemma mock_answer:
  assumes "live_connect (mock_network B T) (k, conns) p r (k', conns')"
  shows "(case k of [] \<Rightarrow> r = None \<and> k' = [] | c # cs \<Rightarrow> r = Some (peer_info c) \<and> k' = cs)"
  using assms
  by (auto simp: session_network_def mock_session_connect_def mock_connect_def mock_peer_connection_impl_def
      split: list.splits)

lemma task_handed:
  assumes inv: "handed_inv mocks s k" and a: "tasks s = add_mset a M"
    and ans: "answers_task (mock_network B T) (k, conns) a W (k', conns')"
    and turn: "task_turn W cap (s\<lparr>tasks := M\<rparr>) a = Some (s', a')"
  shows "handed_inv mocks (s'\<lparr>tasks := put_back a' M\<rparr>) k'"
  using turn
proof (cases rule: task_turn_cases)
  case (connect p)
  from mock_answer [of B T k conns p "connect_to W p" k' conns'] ans connect(1)
  have "case k of [] \<Rightarrow> connect_to W p = None \<and> k' = [] | c # cs \<Rightarrow> connect_to W p = Some (peer_info c) \<and> k' = cs" by simp
  then show ?thesis
    using inv a connect by (cases k) (auto simp: handed_inv_def verdicts_def verdict_def put_back_def)
qed (use inv a ans in \<open>auto simp: handed_inv_def verdicts_def put_back_def session_network_def split: crawler_message.splits\<close>)

lemma mocks_handed:
  assumes "crawl_start cfg seed s0"
    and "(live_step (mock_network B T) cap parallel)\<^sup>*\<^sup>* (s0, mocks, Map.empty) (s, n)"
  shows "handed_inv mocks s (fst n)"
  using assms(2)
proof (induction rule: rtranclp_induct2)
  case refl
  then show ?case using assms(1)
    by (auto simp: handed_inv_def verdicts_def crawl_start_def coordinate_start_def split: if_splits)
next
  case (step s n t n')
  from step(2) show ?case
  proof (cases rule: live_step.cases)
    case coordinator
    then show ?thesis using coord_handed [OF _ step(3)] by blast
  next
    case (task a M W s' a')
    obtain k conns k' conns' where n: "n = (k, conns)" "n' = (k', conns')" by (metis prod.exhaust)
    from task_handed [OF step(3) [unfolded n fst_conv] task(2) task(3) [unfolded n] task(4)] task(1) show ?thesis
      by (simp add: n)
  qed (use step(3) in \<open>simp_all add: handed_inv_def verdicts_def\<close>)
qed

section \<open>It passes\<close>

abbreviation announced_peers :: "service_flags \<Rightarrow> peer set" where
  "announced_peers N \<equiv> (\<lambda>p. with_known_services p N) ` {peer_a, peer_b, peer_c}"

lemma mock_connector_good:
  "good_connector mock_session_connect (\<lambda>k. set k \<subseteq> set mocks) (\<lambda>p c. c \<in> set mocks)"
  by (auto simp: good_connector_def mock_session_connect_def mock_connect_def split: list.splits prod.splits)

lemma mock_asked:
  assumes start: "crawl_start cfg seed s0" and mocks: "\<forall>c \<in> set mocks. circular_mock B T N c"
    and run: "(live_step (mock_network B T) cap parallel)\<^sup>*\<^sup>* (s0, mocks, Map.empty) (s, k, conns)"
    and "Discovering p \<in># tasks s"
  shows "\<exists>ps. length ps = 2 \<and> distinct ps \<and> set ps \<subseteq> announced_peers N
    \<and> (\<exists>n'. live_ask (mock_network B T) (k, conns) p (Some ps) n')
    \<and> (\<forall>r n'. live_ask (mock_network B T) (k, conns) p r n' \<longrightarrow> r = Some ps)"
proof -
  have start': "crawl_start (fst create_test_session) seed s0"
    using start by (auto simp: crawl_start_def coordinate_start_def create_test_session_def split: if_splits)
  have "opened_inv (\<lambda>k. set k \<subseteq> set mocks) (\<lambda>p c. c \<in> set mocks) s (k, conns)"
    by (rule network_opened [OF start' mock_connector_good _ run]) simp
  then obtain c where c: "conns p = Some c" "c \<in> set mocks"
    using assms(4) by (fastforce simp: opened_inv_def holds_connection_def)
  then obtain ps where ps: "length ps = 2" "distinct ps" "set ps \<subseteq> announced_peers N"
    and got: "\<And>now. \<exists>c'. get_peers B mock_peer_connection_impl T now (peer_timeout (fst create_test_session)) c
      = Some (Ok ps, c')"
    using mocks unfolding circular_mock_def by blast
  obtain c' where "get_peers B mock_peer_connection_impl T 0 (peer_timeout (fst create_test_session)) c = Some (Ok ps, c')"
    using got by blast
  with c(1) have "live_ask (mock_network B T) (k, conns) p (Some ps) (k, conns(p \<mapsto> c'))"
    by (fastforce simp: session_network_def)
  moreover have "r = Some ps" if ask: "live_ask (mock_network B T) (k, conns) p r n'" for r n'
  proof -
    obtain now res c1 where "get_peers B mock_peer_connection_impl T now (peer_timeout (fst create_test_session)) c = Some (res, c1)"
      and "r = (case res of Ok ds \<Rightarrow> Some ds | _ \<Rightarrow> None)"
      using ask c(1) by (auto simp: session_network_def)
    with got [of now] show ?thesis by auto
  qed
  ultimately show ?thesis using ps by blast
qed

lemma mock_gave_peers:
  assumes "crawl_start cfg seed s0" and "\<forall>c \<in> set mocks. circular_mock B T N c"
    and "gave_peers (mock_network B T) cap parallel (s0, mocks, Map.empty) p r"
  shows "\<exists>ps. r = Some ps \<and> length ps = 2 \<and> distinct ps \<and> set ps \<subseteq> announced_peers N"
proof -
  obtain s k conns n' where "(live_step (mock_network B T) cap parallel)\<^sup>*\<^sup>* (s0, mocks, Map.empty) (s, k, conns)"
    "Discovering p \<in># tasks s" and ask: "live_ask (mock_network B T) (k, conns) p r n'"
    using assms(3) by (auto simp: gave_peers_def)
  from mock_asked [OF assms(1,2) this(1,2)] ask show ?thesis by blast
qed

lemma mock_responsive:
  assumes "crawl_start cfg seed s0" and "\<forall>c \<in> set mocks. circular_mock B T N c"
  shows "responsive (mock_network B T) cap parallel (s0, mocks, Map.empty)"
  unfolding responsive_def
proof (intro allI impI)
  fix s n a
  assume run: "(live_step (mock_network B T) cap parallel)\<^sup>*\<^sup>* (s0, mocks, Map.empty) (s, n)" and a: "a \<in># tasks s"
  obtain k conns where n: "n = (k, conns)" by (rule prod.exhaust)
  show "\<exists>W n'. answers_task (mock_network B T) n a W n'"
  proof (cases a)
    case (Connecting p)
    obtain r k' where "mock_session_connect k p = (r, k')" by (rule prod.exhaust)
    then obtain info n' where "live_connect (mock_network B T) n p info n'"
      by (cases r rule: option.exhaust; cases "the r") (auto simp: session_network_def n)
    then show ?thesis
      using Connecting by (intro exI [of _ "\<lparr>connect_to = (\<lambda>_. info), known_to = (\<lambda>_. None)\<rparr>"] exI [of _ n']) simp
  next
    case (Discovering p)
    with mock_asked [OF assms run [unfolded n]] a obtain ps n' where "live_ask (mock_network B T) n p (Some ps) n'"
      unfolding n by blast
    then show ?thesis
      using Discovering by (intro exI [of _ "\<lparr>connect_to = (\<lambda>_. None), known_to = (\<lambda>_. Some ps)\<rparr>"] exI [of _ n']) simp
  qed simp_all
qed

lemma seen_peers_listening: "seen_peers ms = (\<lambda>p. (address p, port p)) ` {p. Listening p \<in> set ms}"
  by (induction ms) (auto simp: seen_peers_def List.map_filter_simps split: crawler_message.splits)

lemma ended_circular:
  assumes start: "crawl_start (fst create_test_session) peer_a s0" and mocks: "\<forall>c \<in> set mocks. circular_mock B T N c"
    and run: "(live_step (mock_network B T) (max_concurrent_tasks (fst create_test_session)) False)\<^sup>*\<^sup>*
      (s0, mocks, Map.empty) (s, k, conns)"
    and ended: "coord s = Stopped Exhausted" "tasks s = {#}" "caller_listens s" and three: "length mocks = 3"
  shows "k = [] \<and> length (reports s) \<le> 4"
proof -
  let ?L = "mock_network B T" and ?cap = "max_concurrent_tasks (fst create_test_session)"
  let ?F = "insert peer_a (announced_peers N)"
  obtain W where rep: "set (reports s) = {(p, verdict W p) | p. p \<in> reach W peer_a}" "distinct (map fst (reports s))"
    and ask: "\<And>p. p \<in> reach W peer_a \<Longrightarrow> connect_to W p \<noteq> None \<Longrightarrow>
      gave_peers ?L ?cap False (s0, mocks, Map.empty) p (known_to W p)"
    using live_complete [OF start run ended(1,3)] by blast
  have known: "\<exists>ps. known_to W p = Some ps \<and> length ps = 2 \<and> distinct ps \<and> set ps \<subseteq> announced_peers N"
    if "p \<in> reach W peer_a" "connect_to W p \<noteq> None" for p
    using mock_gave_peers [OF start mocks ask [OF that]] .
  have "p \<in> ?F" if "p \<in> reach W peer_a" for p
    using that
  proof induction
    case (found p q)
    then show ?case using known [of p] by (auto simp: found_def split: option.splits)
  qed simp
  then have reach: "reach W peer_a \<subseteq> ?F" by blast
  have "fst ` set (reports s) = reach W peer_a" using rep(1) by force
  then have len: "length (reports s) = card (reach W peer_a)"
    using distinct_card [OF rep(2)] by simp
  also have "\<dots> \<le> card ?F" using reach by (intro card_mono) simp_all
  also have "card ?F \<le> 4" by (simp add: announced_distinct)
  finally have four: "length (reports s) \<le> 4" .
  have "k = []"
  proof (rule ccontr)
    assume "k \<noteq> []"
    with mocks_handed [OF start run] ended(2,3)
    have heard: "filter_mset is_listening (mset (map snd (reports s))) + {#Listening (peer_info c). c \<in># mset k#}
        = {#Listening (peer_info c). c \<in># mset mocks#}" "\<forall>m \<in> set (map snd (reports s)). is_listening m"
      by (auto simp: handed_inv_def verdicts_def)
    have seed: "peer_a \<in> reach W peer_a" by (rule reach.seed)
    then have "is_listening (verdict W peer_a)" using heard(2) rep(1) by force
    then have "connect_to W peer_a \<noteq> None" by (auto simp: verdict_def split: option.splits)
    with known [OF seed] obtain ps where ps: "known_to W peer_a = Some ps" "length ps = 2" "distinct ps"
      "set ps \<subseteq> announced_peers N" by blast
    have "set ps \<subseteq> reach W peer_a"
      using reach.found [OF seed] ps(1) \<open>connect_to W peer_a \<noteq> None\<close> by (auto simp: found_def)
    moreover have "peer_a \<notin> set ps" using ps(4) by (auto simp: announced_distinct)
    then have "card (insert peer_a (set ps)) = 3" using ps(2,3) by (simp add: distinct_card)
    ultimately have "3 \<le> card (reach W peer_a)"
      using seed card_mono [of "reach W peer_a" "insert peer_a (set ps)"] finite_subset [OF reach] by simp
    moreover have "filter_mset is_listening (mset (map snd (reports s))) = mset (map snd (reports s))"
      using heard(2) by (simp add: filter_mset_eq_conv)
    then have "length (reports s) + length k = 3" using arg_cong [OF heard(1), of size] three by simp
    ultimately show False using len \<open>k \<noteq> []\<close> by (cases k) simp_all
  qed
  with four show ?thesis by blast
qed

lemma circular_test_passes:
  assumes "ipv4_address_law B" and "fast_clock T"
  shows "test_coordinate_terminates_with_circular_references B T timestamp N"
proof -
  let ?cfg = "fst create_test_session"
  let ?live = "live_step (mock_network B T) (max_concurrent_tasks ?cfg) False"
  let ?step = "\<lambda>x y. ?live x y \<and> caller_listens (fst y)"
  obtain mocks where connector: "circular_connector B timestamp N = Some mocks"
    and infos: "map peer_info mocks = [peer_a, peer_b, peer_c]" and mocks: "\<forall>c \<in> set mocks. circular_mock B T N c"
    using circular_mocks [OF assms, of timestamp N] by auto
  have three: "length mocks = 3" using arg_cong [OF infos, of length] by simp
  obtain s0 where s0: "coordinate_start ?cfg peer_a = Some s0"
    by (simp add: coordinate_start_def create_test_session_def)
  then have start: "crawl_start ?cfg peer_a s0" by (simp add: crawl_start_def)
  let ?F = "insert peer_a (announced_peers N)" and ?x = "(s0, mocks, Map.empty)"
  have bound: "k \<le> card ?F * (2 * 2 + 23) + 13" if "(?step ^^ k) ?x y" for k y
  proof -
    obtain s n where y: "y = (s, n)" by (rule prod.exhaust)
    have "(?live ^^ k) ?x (s, n)" using relpowp_mono [of ?step ?live k ?x y] that y by simp
    from live_run_bounded [OF start _ _ _ this, of ?F 2] mock_gave_peers [OF start mocks] show ?thesis by fastforce
  qed
  have final: "stopped (coord s) \<and> tasks s = {#} \<and> crawl_queue s = [] \<and> length (reports s) \<le> 10
      \<and> seen_peers (map snd (reports s)) = (\<lambda>p. (address p, port p)) ` {peer_a, peer_b, peer_c}
      \<and> card (seen_peers (map snd (reports s))) = 3"
    if steps: "?step\<^sup>*\<^sup>* ?x (s, n)" and quiet: "\<nexists>y. ?step (s, n) y" for s n
  proof -
    obtain k conns where n: "n = (k, conns)" by (rule prod.exhaust)
    have run: "?live\<^sup>*\<^sup>* ?x (s, n)" using rtranclp_mono [of ?step ?live] steps by auto
    have on: "caller_listens s"
      using steps s0 by (cases rule: rtranclp.cases) (auto simp: coordinate_start_def split: if_splits)
    from live_finished [OF start run mock_responsive [OF start mocks] on quiet]
    have ended: "coord s = Stopped Exhausted" "tasks s = {#}" "crawl_queue s = []" by simp_all
    from ended_circular [OF start mocks run [unfolded n] ended(1,2) on three] have "k = []" "length (reports s) \<le> 4" by simp_all
    with mocks_handed [OF start run] on ended(2) n
    have "filter_mset is_listening (mset (map snd (reports s))) = {#Listening (peer_info c). c \<in># mset mocks#}"
      by (simp add: handed_inv_def verdicts_def)
    also have "\<dots> = mset (map Listening (map peer_info mocks))" by (simp add: multiset.map_comp comp_def)
    finally have "set_mset (filter_mset is_listening (mset (map snd (reports s)))) = {Listening peer_a, Listening peer_b, Listening peer_c}"
      unfolding infos by simp
    then have "{p. Listening p \<in> set (map snd (reports s))} = {peer_a, peer_b, peer_c}"
      by (fastforce simp: set_eq_iff)
    with ended \<open>length (reports s) \<le> 4\<close> show ?thesis
      by (simp add: seen_peers_listening) (simp add: peer_new_def)
  qed
  have bounded: "\<exists>bound. \<forall>k y. (?step ^^ k) ?x y \<longrightarrow> k \<le> bound" using bound by (intro exI allI impI)
  show ?thesis
    unfolding test_coordinate_terminates_with_circular_references_def connector s0 option.case Let_def
    by (rule conjI [OF bounded], intro allI impI, elim conjE, rule final)
qed

end
