(* ===== verification/Texts.thy ===== *)
theory Texts
  imports Connection
begin

text \<open>
  The texts that the connection crate prints: the \<^verbatim>\<open>Display\<close> implementations of
  \<^verbatim>\<open>peer.rs\<close>, \<^verbatim>\<open>configuration.rs\<close>, \<^verbatim>\<open>state.rs\<close>,
  \<^verbatim>\<open>error.rs\<close>, \<^verbatim>\<open>transport/mod.rs\<close> and \<^verbatim>\<open>futures.rs\<close>, with the
  derived \<^verbatim>\<open>Debug\<close> texts they embed, and the \<^verbatim>\<open>source\<close> of an error. How the
  \<^verbatim>\<open>bitcoin\<close> crate prints its own types is a parameter.
\<close>

section \<open>Model\<close>

record texts =
  addr_v2_debug :: "addr_v2 \<Rightarrow> string"
  service_flags_display :: "service_flags \<Rightarrow> string"
  encode_error_display :: "encode_error \<Rightarrow> string"

text \<open>The decimal text of an unsigned integer.\<close>

definition digit :: "nat \<Rightarrow> char" where
  "digit n = char_of (48 + n)"

fun decimal :: "nat \<Rightarrow> string" where
  "decimal n = (if n < 10 then [digit n] else decimal (n div 10) @ [digit (n mod 10)])"

declare decimal.simps [simp del]

definition bool_display :: "bool \<Rightarrow> string" where
  "bool_display b = (if b then ''true'' else ''false'')"

text \<open>
  \<^verbatim>\<open>f.debug_struct(name).field(..).finish()\<close> on one line, and the three
  \<^verbatim>\<open>Debug\<close> implementations of \<^verbatim>\<open>transport/v2.rs\<close>; the quoted texts hold
  nothing to be escaped.
\<close>

fun debug_fields :: "(string \<times> string) list \<Rightarrow> string" where
  "debug_fields [] = []"
| "debug_fields [(f, v)] = f @ '': '' @ v"
| "debug_fields ((f, v) # fs) = f @ '': '' @ v @ '', '' @ debug_fields fs"

definition debug_struct :: "string \<Rightarrow> (string \<times> string) list \<Rightarrow> string" where
  "debug_struct name fs = (if fs = [] then name else name @ '' { '' @ debug_fields fs @ '' }'')"

definition v2_reader_debug :: "'pr v2_reader \<Rightarrow> string" where
  "v2_reader_debug r = debug_struct ''AsyncV2TransportReader''
     [(''cipher'', [CHR 0x22] @ ''<bip324::futures::ProtocolReader>'' @ [CHR 0x22])]"

definition v2_writer_debug :: "'pw v2_writer \<Rightarrow> string" where
  "v2_writer_debug w = debug_struct ''AsyncV2TransportWriter''
     [(''cipher'', [CHR 0x22] @ ''<bip324::futures::ProtocolWriter>'' @ [CHR 0x22])]"

definition v2_transport_debug :: "('pr, 'pw) v2_transport \<Rightarrow> string" where
  "v2_transport_debug t = debug_struct ''AsyncV2Transport''
     [(''writer'', v2_writer_debug (v2t_writer t)), (''reader'', v2_reader_debug (v2t_reader t))]"

text \<open>\<open>Display\<close> and the derived \<open>Debug\<close> of a protocol version print the same.\<close>

fun peer_protocol_version_display :: "peer_protocol_version \<Rightarrow> string" where
  "peer_protocol_version_display (KnownVersion v) = ''Known('' @ decimal (unat v) @ '')''"
| "peer_protocol_version_display UnknownVersion = ''Unknown''"

definition peer_display :: "texts \<Rightarrow> peer \<Rightarrow> string" where
  "peer_display X p =
     addr_v2_debug X (address p) @ '':'' @ decimal (unat (port p)) @ '' ([peer] services: ''
     @ (case services p of KnownServices flags \<Rightarrow> service_flags_display X flags | UnknownServices \<Rightarrow> ''unknown'')
     @ '', version: ''
     @ (case version p of KnownVersion v \<Rightarrow> decimal (unat v) | UnknownVersion \<Rightarrow> ''unknown'')
     @ '')''"

definition connection_configuration_display :: "texts \<Rightarrow> connection_configuration \<Rightarrow> string" where
  "connection_configuration_display X cfg =
     (let ua = (case user_agent cfg of Some ua \<Rightarrow> user_agent_as_str ua | None \<Rightarrow> ''none'')
      in ''ConnectionConfiguration { protocol: '' @ peer_protocol_version_display (protocol_version cfg)
         @ '', user_agent: '' @ [CHR 0x22] @ ua @ [CHR 0x22]
         @ '', services: '' @ service_flags_display X (config_services cfg)
         @ '', transport: '' @ transport_policy_display (transport_policy cfg)
         @ '', features: ['' @ feature_preferences_display (feature_preferences cfg)
         @ ''], relay: '' @ bool_display (relay cfg) @ '' }'')"

fun addr_v2_state_debug :: "addr_v2_state \<Rightarrow> string" where
  "addr_v2_state_debug addr_v2_state.NotNegotiated = ''NotNegotiated''"
| "addr_v2_state_debug addr_v2_state.SentOnly = ''SentOnly''"
| "addr_v2_state_debug addr_v2_state.ReceivedOnly = ''ReceivedOnly''"
| "addr_v2_state_debug addr_v2_state.Enabled = ''Enabled''"

fun send_headers_state_debug :: "send_headers_state \<Rightarrow> string" where
  "send_headers_state_debug send_headers_state.NotNegotiated = ''NotNegotiated''"
| "send_headers_state_debug send_headers_state.SentOnly = ''SentOnly''"
| "send_headers_state_debug send_headers_state.ReceivedOnly = ''ReceivedOnly''"
| "send_headers_state_debug send_headers_state.Enabled = ''Enabled''"

fun wtxid_relay_state_debug :: "wtxid_relay_state \<Rightarrow> string" where
  "wtxid_relay_state_debug wtxid_relay_state.NotNegotiated = ''NotNegotiated''"
| "wtxid_relay_state_debug wtxid_relay_state.SentOnly = ''SentOnly''"
| "wtxid_relay_state_debug wtxid_relay_state.ReceivedOnly = ''ReceivedOnly''"
| "wtxid_relay_state_debug wtxid_relay_state.Enabled = ''Enabled''"

definition connection_state_display :: "connection_state \<Rightarrow> string" where
  "connection_state_display st =
     ''[connection state] protocol: '' @ peer_protocol_version_display (effective_protocol_version st)
     @ '', addrv2: '' @ addr_v2_state_debug (addr_v2 st)
     @ '', headers: '' @ send_headers_state_debug (send_headers st)
     @ '', wtxid: '' @ wtxid_relay_state_debug (wtxid_relay st)"

text \<open>An I/O error carries the text it prints.\<close>

fun io_error_display :: "io_error \<Rightarrow> string" where
  "io_error_display (IoError kind s) = s"

definition transport_error_display :: "texts \<Rightarrow> transport_error \<Rightarrow> string" where
  "transport_error_display X err =
     (case err of
        transport_error.Io e \<Rightarrow> ''IO error: '' @ io_error_display e
      | Deserialize e \<Rightarrow> ''Message deserialization error: '' @ encode_error_display X e
      | MagicMismatch \<Rightarrow> ''Network magic mismatch''
      | Encryption \<Rightarrow> ''BIP324 encryption/decryption error'')"

definition connection_error_display :: "texts \<Rightarrow> connection_error \<Rightarrow> string" where
  "connection_error_display X err =
     (case err of
        connection_error.Io e \<Rightarrow> ''Connection error: '' @ io_error_display e
      | TransportFailed e \<Rightarrow> ''Transport layer failed in peer connection: '' @ transport_error_display X e
      | ProtocolFailed \<Rightarrow> ''Protocol handling failed in peer communication''
      | UnsupportedAddressType \<Rightarrow> ''Unsupported address type''
      | ConnectionLoop \<Rightarrow> ''Detected connection to self (matching nonce)''
      | V2TransportRequired \<Rightarrow> ''V2 encrypted transport required but could not be established. ''
          @ ''To allow plaintext fallback, use TransportPolicy::V2Preferred'')"

text \<open>What \<^verbatim>\<open>Error::source\<close> points to: an I/O, a decoding or a transport error.\<close>

datatype error_source = IoSource io_error | EncodeSource encode_error | TransportSource transport_error

definition transport_error_source :: "transport_error \<Rightarrow> error_source option" where
  "transport_error_source err =
     (case err of
        transport_error.Io e \<Rightarrow> Some (IoSource e)
      | Deserialize e \<Rightarrow> Some (EncodeSource e)
      | MagicMismatch \<Rightarrow> None
      | Encryption \<Rightarrow> None)"

definition connection_error_source :: "connection_error \<Rightarrow> error_source option" where
  "connection_error_source err =
     (case err of
        connection_error.Io e \<Rightarrow> Some (IoSource e)
      | TransportFailed e \<Rightarrow> Some (TransportSource e)
      | ProtocolFailed \<Rightarrow> None
      | UnsupportedAddressType \<Rightarrow> None
      | ConnectionLoop \<Rightarrow> None
      | V2TransportRequired \<Rightarrow> None)"

fun reader_label :: "('r, 'pr) transport_reader \<Rightarrow> string" where
  "reader_label (ReaderV1 _) = ''V1''"
| "reader_label (ReaderV2 _) = ''V2''"

fun writer_label :: "('w, 'pw) transport_writer \<Rightarrow> string" where
  "writer_label (WriterV1 _) = ''V1''"
| "writer_label (WriterV2 _) = ''V2''"

text \<open>
  The texts of a connection and its halves try to lock the shared cells; the flags say
  whether somebody else holds the lock of the peer or of the state.
\<close>

definition peer_cell_text :: "texts \<Rightarrow> bool \<Rightarrow> peer \<Rightarrow> string" where
  "peer_cell_text X locked p = (if locked then ''<peer locked>'' else peer_display X p)"

definition state_cell_text :: "bool \<Rightarrow> connection_state \<Rightarrow> string" where
  "state_cell_text locked st =
     (if locked then '' (state: <locked>)'' else '' ('' @ connection_state_display st @ '')'')"

definition connection_writer_display ::
  "texts \<Rightarrow> bool \<Rightarrow> ('w, 'pw) connection_writer \<Rightarrow> string" where
  "connection_writer_display X peer_locked cw =
     ''TCP/'' @ writer_label (cw_writer cw) @ '' sender to '' @ peer_cell_text X peer_locked (cw_peer cw)"

definition connection_reader_display ::
  "texts \<Rightarrow> bool \<Rightarrow> bool \<Rightarrow> ('r, 'pr) connection_reader \<Rightarrow> string" where
  "connection_reader_display X peer_locked state_locked cr =
     ''TCP/'' @ reader_label (cr_reader cr) @ '' receiver to '' @ peer_cell_text X peer_locked (cr_peer cr)
     @ state_cell_text state_locked (cr_state cr)"

definition connection_display ::
  "texts \<Rightarrow> bool \<Rightarrow> bool \<Rightarrow> ('r, 'w, 'pr, 'pw) connection \<Rightarrow> string" where
  "connection_display X peer_locked state_locked c =
     ''TCP/'' @ reader_label (conn_reader c) @ '' connection to '' @ peer_cell_text X peer_locked (conn_peer c)
     @ state_cell_text state_locked (conn_state c)"

section \<open>Numbers\<close>

definition undigit :: "char \<Rightarrow> nat" where
  "undigit c = of_char c - 48"

definition undecimal :: "string \<Rightarrow> nat" where
  "undecimal = foldl (\<lambda>n c. 10 * n + undigit c) 0"

lemma undigit_digit [simp]: "n < 10 \<Longrightarrow> undigit (digit n) = n"
  by (simp add: undigit_def digit_def)

lemma undecimal_decimal [simp]: "undecimal (decimal n) = n"
proof (induction n rule: decimal.induct)
  case (1 n)
  then show ?case by (cases "n < 10") (simp_all add: decimal.simps [of n] undecimal_def)
qed

lemma decimal_inject [simp]: "decimal m = decimal n \<longleftrightarrow> m = n"
  by (metis undecimal_decimal)

lemma digit_range: "n < 10 \<Longrightarrow> of_char (digit n) \<in> {48 .. 57 :: nat}"
  by (simp add: digit_def)

lemma decimal_chars: "c \<in> set (decimal n) \<Longrightarrow> of_char c \<in> {48 .. 57 :: nat}"
proof (induction n rule: decimal.induct)
  case (1 n)
  then show ?case using digit_range [of n] digit_range [of "n mod 10"]
    by (cases "n < 10") (auto simp: decimal.simps [of n])
qed

lemma decimal_no_separator [simp]:
  "CHR '' '' \<notin> set (decimal n)" "CHR '':'' \<notin> set (decimal n)" "CHR '')'' \<notin> set (decimal n)"
  "CHR ''u'' \<notin> set (decimal n)"
  by (auto dest: decimal_chars)

lemma decimal_not_unknown [simp]: "decimal n \<noteq> ''unknown''" "''unknown'' \<noteq> decimal n"
  using decimal_no_separator(4) [of n] by (metis list.set_intros(1))+

section \<open>Texts identify what they print\<close>

lemma split_last:
  assumes "c \<notin> set y" and "c \<notin> set y'"
  shows "x @ c # y = x' @ c # y' \<longleftrightarrow> x = x' \<and> y = y'"
proof
  assume "x @ c # y = x' @ c # y'"
  then have "rev y @ c # rev x = rev y' @ c # rev x'" by (metis rev.simps(2) rev_append append.assoc append_Cons append_Nil)
  moreover from this have "takeWhile (\<lambda>d. d \<noteq> c) (rev y @ c # rev x) = takeWhile (\<lambda>d. d \<noteq> c) (rev y' @ c # rev x')"
    by (rule arg_cong)
  with assms have "rev y = rev y'" by (subst (asm) (1 2) takeWhile_append2) auto
  ultimately show "x = x' \<and> y = y'" by simp
qed simp

lemma debug_no_space [simp]:
  "CHR '' '' \<notin> set (peer_protocol_version_display v)"
  "CHR '' '' \<notin> set (addr_v2_state_debug a)"
  "CHR '' '' \<notin> set (send_headers_state_debug h)"
  "CHR '' '' \<notin> set (wtxid_relay_state_debug w)"
  subgoal by (cases v) simp_all
  subgoal by (cases a) simp_all
  subgoal by (cases h) simp_all
  subgoal by (cases w) simp_all
  done

lemma debug_inject [simp]:
  "peer_protocol_version_display v = peer_protocol_version_display v' \<longleftrightarrow> v = v'"
  "addr_v2_state_debug a = addr_v2_state_debug a' \<longleftrightarrow> a = a'"
  "send_headers_state_debug h = send_headers_state_debug h' \<longleftrightarrow> h = h'"
  "wtxid_relay_state_debug w = wtxid_relay_state_debug w' \<longleftrightarrow> w = w'"
  subgoal by (cases v; cases v') (auto simp: word_unat_eq_iff)
  subgoal by (cases a; cases a') simp_all
  subgoal by (cases h; cases h') simp_all
  subgoal by (cases w; cases w') simp_all
  done

text \<open>
  A text of labelled fields. Nothing is known of what stands before the fields, so they are
  split off from the end: the words that fill them contain no space.
\<close>

fun fields :: "(string \<times> string) list \<Rightarrow> string" where
  "fields [] = []"
| "fields ((label, word) # fs) = label @ '' '' @ word @ fields fs"

lemma fields_append [simp]: "fields (fs @ gs) = fields fs @ fields gs"
  by (induction fs rule: fields.induct) simp_all

lemma last_field_inject:
  assumes "CHR '' '' \<notin> set w" and "CHR '' '' \<notin> set w'" and "CHR '' '' \<notin> set sep"
  shows "x @ label @ '' '' @ w @ sep = x' @ label @ '' '' @ w' @ sep \<longleftrightarrow> x = x' \<and> w = w'"
  using split_last [of "CHR '' ''" "w @ sep" "w' @ sep" "x @ label" "x' @ label"] assms by simp

lemma fields_inject:
  assumes "map fst fs = map fst gs" and "\<forall>w \<in> snd ` set (fs @ gs). CHR '' '' \<notin> set w" and "CHR '' '' \<notin> set sep"
  shows "x @ fields fs @ sep = x' @ fields gs @ sep \<longleftrightarrow> x = x' \<and> fs = gs"
  using assms
proof (induction fs arbitrary: gs sep rule: rev_induct)
  case Nil
  then show ?case by simp
next
  case (snoc f fs)
  obtain label w where f: "f = (label, w)" by force
  with snoc.prems(1) obtain gs' w' where gs: "gs = gs' @ [(label, w')]" and labels: "map fst fs = map fst gs'"
    by (cases gs rule: rev_cases) auto
  have "x @ fields (fs @ [f]) @ sep = x' @ fields gs @ sep \<longleftrightarrow> x @ fields fs = x' @ fields gs' \<and> w = w'"
    using last_field_inject [of w w' sep "x @ fields fs" label "x' @ fields gs'"] snoc.prems(2,3) f gs by simp
  moreover have "x @ fields fs @ [] = x' @ fields gs' @ [] \<longleftrightarrow> x = x' \<and> fs = gs'"
    using snoc.IH [OF labels, of "[]"] snoc.prems(2) gs by auto
  ultimately show ?case using f gs by auto
qed

definition peer_fields :: "texts \<Rightarrow> peer \<Rightarrow> (string \<times> string) list" where
  "peer_fields X p =
     [('' ([peer] services:'',
       case services p of KnownServices flags \<Rightarrow> service_flags_display X flags | UnknownServices \<Rightarrow> ''unknown''),
      ('', version:'', case version p of KnownVersion v \<Rightarrow> decimal (unat v) | UnknownVersion \<Rightarrow> ''unknown'')]"

definition state_fields :: "string \<Rightarrow> connection_state \<Rightarrow> (string \<times> string) list" where
  "state_fields before st =
     [(before @ ''[connection state] protocol:'', peer_protocol_version_display (effective_protocol_version st)),
      ('', addrv2:'', addr_v2_state_debug (addr_v2 st)),
      ('', headers:'', send_headers_state_debug (send_headers st)),
      ('', wtxid:'', wtxid_relay_state_debug (wtxid_relay st))]"

lemma peer_display_fields:
  "peer_display X p = addr_v2_debug X (address p) @ '':'' @ decimal (unat (port p)) @ fields (peer_fields X p) @ '')''"
  by (simp add: peer_display_def peer_fields_def)

lemma connection_state_display_fields: "before @ connection_state_display st = fields (state_fields before st)"
  by (simp add: connection_state_display_def state_fields_def)

text \<open>How the \<^verbatim>\<open>bitcoin\<close> crate prints: different values differently, flags without spaces.\<close>

definition printing_law :: "texts \<Rightarrow> bool" where
  "printing_law X \<longleftrightarrow>
     (\<forall>a b. addr_v2_debug X a = addr_v2_debug X b \<longrightarrow> a = b)
     \<and> (\<forall>f g. service_flags_display X f = service_flags_display X g \<longrightarrow> f = g)
     \<and> (\<forall>f. CHR '' '' \<notin> set (service_flags_display X f) \<and> service_flags_display X f \<noteq> ''unknown'')"

lemma state_fields_inject: "state_fields b st = state_fields b st' \<longleftrightarrow> st = st'"
  by (cases st; cases st') (auto simp: state_fields_def)

lemma services_word_inject:
  assumes "printing_law X"
  shows "(case s of KnownServices flags \<Rightarrow> service_flags_display X flags | UnknownServices \<Rightarrow> ''unknown'')
    = (case s' of KnownServices flags \<Rightarrow> service_flags_display X flags | UnknownServices \<Rightarrow> ''unknown'') \<longleftrightarrow> s = s'"
proof -
  have "service_flags_display X f \<noteq> ''unknown''" "''unknown'' \<noteq> service_flags_display X f" for f
    using assms unfolding printing_law_def by metis+
  moreover have "service_flags_display X f = service_flags_display X g \<longleftrightarrow> f = g" for f g
    using assms unfolding printing_law_def by metis
  ultimately show ?thesis by (cases s; cases s') (simp_all del: decimal_not_unknown)
qed

lemma version_word_inject:
  "(case v of KnownVersion n \<Rightarrow> decimal (unat n) | UnknownVersion \<Rightarrow> ''unknown'')
    = (case v' of KnownVersion n \<Rightarrow> decimal (unat n) | UnknownVersion \<Rightarrow> ''unknown'') \<longleftrightarrow> v = v'"
  by (cases v; cases v') (simp_all add: word_unat_eq_iff)

lemma peer_fields_inject:
  assumes "printing_law X"
  shows "peer_fields X p = peer_fields X q \<longleftrightarrow> services p = services q \<and> version p = version q"
  unfolding peer_fields_def using services_word_inject [OF assms] version_word_inject by simp

lemma fields_no_space:
  "printing_law X \<Longrightarrow> \<forall>w \<in> snd ` set (peer_fields X p @ state_fields b st). CHR '' '' \<notin> set w"
  by (auto simp: peer_fields_def state_fields_def printing_law_def split: peer_services.splits peer_protocol_version.splits)

lemma connection_display_fields:
  "connection_display X False False c =
     (''TCP/'' @ reader_label (conn_reader c) @ '' connection to '' @ addr_v2_debug X (address (conn_peer c)) @ '':''
      @ decimal (unat (port (conn_peer c))))
     @ fields (peer_fields X (conn_peer c) @ state_fields '') ('' (conn_state c)) @ '')''"
  using connection_state_display_fields [of "'') (''" "conn_state c"]
  by (simp add: connection_display_def peer_cell_text_def state_cell_text_def peer_display_fields)

lemma reader_label_cases: "reader_label r = (if \<exists>t. r = ReaderV1 t then ''V1'' else ''V2'')"
  by (cases r) auto

text \<open>The text of every error that has a source ends with the text of that source.\<close>

fun error_source_display :: "texts \<Rightarrow> error_source \<Rightarrow> string" where
  "error_source_display X (IoSource e) = io_error_display e"
| "error_source_display X (EncodeSource e) = encode_error_display X e"
| "error_source_display X (TransportSource e) = transport_error_display X e"

lemma transport_error_text_ends_with_source:
  "transport_error_source e = Some src \<Longrightarrow>
     \<exists>before. before \<noteq> [] \<and> transport_error_display X e = before @ error_source_display X src"
  by (auto simp: transport_error_source_def transport_error_display_def split: transport_error.splits)

lemma connection_error_text_ends_with_source:
  "connection_error_source e = Some src \<Longrightarrow>
     \<exists>before. before \<noteq> [] \<and> connection_error_display X e = before @ error_source_display X src"
  by (auto simp: connection_error_source_def connection_error_display_def split: connection_error.splits)

text \<open>An example of the parameters: numbers in decimal, a letter for the kind of an address.\<close>

definition byte_char :: "u8 \<Rightarrow> char" where
  "byte_char b = char_of (unat b)"

definition example_texts :: texts where
  "example_texts =
     \<lparr>addr_v2_debug = (\<lambda>a. case a of
          Ipv4 n \<Rightarrow> CHR ''i'' # decimal (unat n)
        | Ipv6 n \<Rightarrow> CHR ''j'' # decimal (unat n)
        | AddrOther k bs \<Rightarrow> CHR ''k'' # byte_char k # map byte_char bs),
      service_flags_display = (\<lambda>f. decimal (unat f)),
      encode_error_display = id\<rparr>"

lemma byte_char_inject [simp]: "byte_char a = byte_char b \<longleftrightarrow> a = b"
proof
  assume "byte_char a = byte_char b"
  then have "of_char (char_of (unat a)) = (of_char (char_of (unat b)) :: nat)" by (simp add: byte_char_def)
  then show "a = b"
    using unat_byte_less [of a] unat_byte_less [of b] by (simp add: word_unat_eq_iff)
qed simp

lemma example_printing: "printing_law example_texts"
  unfolding printing_law_def
proof (intro conjI allI impI)
  fix a b
  assume "addr_v2_debug example_texts a = addr_v2_debug example_texts b"
  then show "a = b"
    by (cases a; cases b) (auto simp: example_texts_def word_unat_eq_iff inj_map_eq_map inj_def)
qed (simp_all add: example_texts_def word_unat_eq_iff)

section \<open>Secrets\<close>

text \<open>
  No text of an encrypted transport depends on its ciphers: whatever keys two sessions have,
  they print the same.
\<close>

lemma v2_debug_hides_ciphers:
  "v2_transport_debug t = v2_transport_debug t'"
  "v2_reader_debug r = v2_reader_debug r'" "v2_writer_debug w = v2_writer_debug w'"
  by (simp_all add: v2_transport_debug_def v2_reader_debug_def v2_writer_debug_def)

lemma v2_reader_debug_text:
  "v2_reader_debug r = ''AsyncV2TransportReader { cipher: '' @ [CHR 0x22]
     @ ''<bip324::futures::ProtocolReader>'' @ [CHR 0x22] @ '' }''"
  by (simp add: v2_reader_debug_def debug_struct_def)

section \<open>Properties\<close>

text \<open>
  C40. What a connection prints identifies it. As long as nobody holds its locks, two
  connections print the same text only if they use the same transport, are to the same peer,
  with its services and version, and have the same negotiation state.
\<close>

theorem connection_display_identifies:
  assumes "printing_law X" and "connection_display X False False c = connection_display X False False d"
  shows "((\<exists>t. conn_reader c = ReaderV1 t) \<longleftrightarrow> (\<exists>t. conn_reader d = ReaderV1 t))
    \<and> conn_peer c = conn_peer d \<and> conn_state c = conn_state d"
proof -
  let ?fs = "\<lambda>c. peer_fields X (conn_peer c) @ state_fields '') ('' (conn_state c)"
  let ?head = "\<lambda>c. ''TCP/'' @ reader_label (conn_reader c) @ '' connection to '' @ addr_v2_debug X (address (conn_peer c))"
  let ?front = "\<lambda>c. ?head c @ CHR '':'' # decimal (unat (port (conn_peer c)))"
  have "map fst (?fs c) = map fst (?fs d)" by (simp add: peer_fields_def state_fields_def)
  moreover have "\<forall>w \<in> snd ` set (?fs c @ ?fs d). CHR '' '' \<notin> set w"
    using fields_no_space [OF assms(1)] by auto
  moreover have "?front c @ fields (?fs c) @ '')'' = ?front d @ fields (?fs d) @ '')''"
    using assms(2) unfolding connection_display_fields by simp
  ultimately have front: "?front c = ?front d" and fs: "?fs c = ?fs d"
    using fields_inject [of "?fs c" "?fs d" "'')''" "?front c" "?front d"] by simp_all
  have "?head c = ?head d" and port: "port (conn_peer c) = port (conn_peer d)"
    using front by (simp_all only: split_last decimal_no_separator decimal_inject word_unat_eq_iff not_False_eq_True)
  then have "reader_label (conn_reader c) = reader_label (conn_reader d)"
    and "addr_v2_debug X (address (conn_peer c)) = addr_v2_debug X (address (conn_peer d))"
    by (auto simp: reader_label_cases split: if_splits)
  moreover have "services (conn_peer c) = services (conn_peer d)" "version (conn_peer c) = version (conn_peer d)"
    "conn_state c = conn_state d"
    using fs peer_fields_inject [OF assms(1)] state_fields_inject by (auto simp: peer_fields_def)
  ultimately show ?thesis
    using assms(1) port by (auto simp: printing_law_def reader_label_cases split: if_splits)
qed

definition printed_connection :: "bool \<Rightarrow> (u8 list, u8 list, unit, unit) connection" where
  "printed_connection wants_relay =
     \<lparr>configuration = \<lparr>protocol_version = UnknownVersion, user_agent = None, config_services = 0,
        sender_address = NON_LISTENING_ADDRESS, sender_port = 0, start_height = 0, relay = wants_relay,
        transport_policy = V2Preferred, feature_preferences = feature_preferences_default\<rparr>,
      conn_peer = peer_with_services (Ipv4 1) 8333 9, conn_state = connection_state_new,
      conn_reader = ReaderV1 (v1_reader_new [] []), conn_writer = WriterV1 (v1_writer_new [] [])\<rparr>"

theorem connection_display_identifies_witness:
  "printing_law example_texts
   \<and> connection_display example_texts False False (printed_connection True)
       = connection_display example_texts False False (printed_connection False)
   \<and> conn_peer (printed_connection True) = conn_peer (printed_connection False)"
proof -
  have "connection_display example_texts False False (printed_connection True)
      = connection_display example_texts False False (printed_connection False)"
    by (simp add: connection_display_def printed_connection_def)
  with connection_display_identifies [OF example_printing this] show ?thesis using example_printing by blast
qed

end
