(* ===== verification/Crawler.thy ===== *)
theory Crawler
  imports Session_Termination Texts
begin

text \<open>
  The crawler's entry points: \<^verbatim>\<open>crawler/src/builder.rs\<close> and
  \<^verbatim>\<open>crawler/src/crawler.rs\<close>.
\<close>

section \<open>Model\<close>

definition DEFAULT_PROTOCOL_VERSION :: peer_protocol_version where
  "DEFAULT_PROTOCOL_VERSION = KnownVersion 70016"

definition DEFAULT_MAX_CONCURRENT_TASKS :: nat where
  "DEFAULT_MAX_CONCURRENT_TASKS = 8"

definition DEFAULT_PEER_TIMEOUT :: nat where
  "DEFAULT_PEER_TIMEOUT = from_secs 20"

datatype crawler_builder_error = InvalidUserAgent user_agent_error

definition crawler_builder_error_display :: "crawler_builder_error \<Rightarrow> string" where
  "crawler_builder_error_display e =
     (case e of InvalidUserAgent err \<Rightarrow> ''Invalid user agent: '' @ user_agent_error_display err)"

definition crawler_builder_error_source :: "crawler_builder_error \<Rightarrow> user_agent_error option" where
  "crawler_builder_error_source e = (case e of InvalidUserAgent err \<Rightarrow> Some err)"

record crawler =
  crawler_network :: network
  crawler_user_agent :: "user_agent option"
  crawler_transport_policy :: transport_policy
  crawler_protocol_version :: peer_protocol_version
  crawler_max_concurrent_tasks :: nat
  crawler_peer_timeout :: nat

definition crawler_new ::
  "network \<Rightarrow> user_agent option \<Rightarrow> transport_policy \<Rightarrow> peer_protocol_version \<Rightarrow> nat \<Rightarrow> nat \<Rightarrow> crawler" where
  "crawler_new n ua tp pv mt pt =
     \<lparr>crawler_network = n, crawler_user_agent = ua, crawler_transport_policy = tp,
      crawler_protocol_version = pv, crawler_max_concurrent_tasks = mt, crawler_peer_timeout = pt\<rparr>"

record crawler_builder =
  cb_network :: network
  cb_user_agent :: "user_agent option"
  cb_transport_policy :: transport_policy
  cb_protocol_version :: peer_protocol_version
  cb_max_concurrent_tasks :: nat
  cb_peer_timeout :: nat

definition crawler_builder_new :: "network \<Rightarrow> crawler_builder" where
  "crawler_builder_new n =
     \<lparr>cb_network = n, cb_user_agent = None, cb_transport_policy = V2Preferred,
      cb_protocol_version = DEFAULT_PROTOCOL_VERSION,
      cb_max_concurrent_tasks = DEFAULT_MAX_CONCURRENT_TASKS,
      cb_peer_timeout = DEFAULT_PEER_TIMEOUT\<rparr>"

text \<open>The outer \<open>None\<close> is the panic that validating the user agent can end in.\<close>

definition with_user_agent ::
  "crawler_builder \<Rightarrow> string \<Rightarrow> (crawler_builder_error + crawler_builder) option" where
  "with_user_agent b s =
     map_option (map_sum InvalidUserAgent (\<lambda>ua. b\<lparr>cb_user_agent := Some ua\<rparr>)) (user_agent_new s)"

definition with_transport_policy :: "crawler_builder \<Rightarrow> transport_policy \<Rightarrow> crawler_builder" where
  "with_transport_policy b policy = b\<lparr>cb_transport_policy := policy\<rparr>"

definition with_protocol_version :: "crawler_builder \<Rightarrow> u32 \<Rightarrow> crawler_builder" where
  "with_protocol_version b v = b\<lparr>cb_protocol_version := KnownVersion v\<rparr>"

definition with_max_concurrent_tasks :: "crawler_builder \<Rightarrow> nat \<Rightarrow> crawler_builder" where
  "with_max_concurrent_tasks b n = b\<lparr>cb_max_concurrent_tasks := n\<rparr>"

definition with_peer_timeout :: "crawler_builder \<Rightarrow> nat \<Rightarrow> crawler_builder" where
  "with_peer_timeout b d = b\<lparr>cb_peer_timeout := d\<rparr>"

definition build :: "crawler_builder \<Rightarrow> crawler" where
  "build b = crawler_new (cb_network b) (cb_user_agent b) (cb_transport_policy b) (cb_protocol_version b)
     (cb_max_concurrent_tasks b) (cb_peer_timeout b)"

definition session_config_of :: "crawler \<Rightarrow> session_config" where
  "session_config_of c =
     \<lparr>max_concurrent_tasks = crawler_max_concurrent_tasks c, peer_timeout = crawler_peer_timeout c\<rparr>"

text \<open>
  \<open>crawl\<close> makes the connector and starts a session in the background, \<open>None\<close> if that
  panics; the caller has the receiver in either case.
\<close>

definition crawl ::
  "('a) bitcoin_api_scheme \<Rightarrow> crawler \<Rightarrow> peer \<Rightarrow> peer_connector \<times> session option" where
  "crawl B c seed =
     (let connection_config = non_listening B (crawler_protocol_version c) (crawler_transport_policy c)
            feature_preferences_default (crawler_user_agent c);
          connector = peer_connector_new (crawler_network c) connection_config
      in (connector, coordinate_start (session_config_of c) seed))"

definition crawler_message_display :: "texts \<Rightarrow> crawler_message \<Rightarrow> string" where
  "crawler_message_display X m =
     (case m of Listening p \<Rightarrow> ''Listening Peer: '' @ peer_display X p
              | NonListening p \<Rightarrow> ''Non-listening Peer: '' @ peer_display X p)"

text \<open>What a chain of builder calls can produce.\<close>

inductive built :: "crawler_builder \<Rightarrow> bool" where
  new: "built (crawler_builder_new n)"
| user_agent: "built b \<Longrightarrow> with_user_agent b s = Some (Inr b') \<Longrightarrow> built b'"
| policy: "built b \<Longrightarrow> built (with_transport_policy b tp)"
| version: "built b \<Longrightarrow> built (with_protocol_version b v)"
| max_tasks: "built b \<Longrightarrow> built (with_max_concurrent_tasks b n)"
| timeout: "built b \<Longrightarrow> built (with_peer_timeout b d)"

section \<open>Lemmas\<close>

lemma with_user_agent_valid:
  assumes "with_user_agent b s = Some (Inr b')"
  shows "\<exists>ua. cb_user_agent b' = Some ua \<and> user_agent_valid ua \<and> b' = b\<lparr>cb_user_agent := Some ua\<rparr>"
proof -
  obtain r where r: "user_agent_new s = Some r" "map_sum InvalidUserAgent (\<lambda>ua. b\<lparr>cb_user_agent := Some ua\<rparr>) r = Inr b'"
    using assms by (auto simp: with_user_agent_def)
  then obtain ua where ua: "r = Inr ua" "b' = b\<lparr>cb_user_agent := Some ua\<rparr>" by (cases r) auto
  obtain v where v: "validate_bitcoin_core_format s = Some v" "map_sum id (\<lambda>_. UserAgent s) v = Inr ua"
    using r(1) ua(1) by (auto simp: user_agent_new_def)
  then have "user_agent_valid ua" by (cases v) (auto simp: user_agent_valid_def)
  with ua(2) show ?thesis by simp
qed

lemma built_user_agent_valid: "built b \<Longrightarrow> cb_user_agent b = Some ua \<Longrightarrow> user_agent_valid ua"
proof (induction rule: built.induct)
  case (user_agent b s b')
  then show ?case using with_user_agent_valid by force
qed (simp_all add: crawler_builder_new_def with_transport_policy_def with_protocol_version_def
    with_max_concurrent_tasks_def with_peer_timeout_def)

section \<open>Properties\<close>

text \<open>
  C35. What a built crawler says of itself. However the builder was used, every connection
  of the crawler opens with a version message whose user agent the validator accepts, with
  the configured protocol version, and as a node that offers no services, has no blocks and
  wants no transactions.
\<close>

theorem built_crawler_version_message:
  assumes "built b"
  shows "\<exists>vm. create_version_message E K
        (connection_new p (pk_config (fst (crawl E (build b) seed))) t) nonce = Version vm
      \<and> validate_bitcoin_core_format (vm_user_agent vm) = Some (Inr ())
      \<and> vm_version vm = unwrap_or (cb_protocol_version b) MIN_PROTOCOL_VERSION
      \<and> vm_nonce vm = nonce \<and> vm_services vm = flag_NONE E \<and> vm_start_height vm = 0 \<and> \<not> vm_relay vm"
proof -
  have "user_agent_valid (case cb_user_agent b of Some ua \<Rightarrow> ua | None \<Rightarrow> default_user_agent)"
    using built_user_agent_valid [OF assms] default_user_agent_valid by (simp split: option.split)
  then show ?thesis
    by (auto simp: create_version_message_def connection_new_def crawl_def build_def crawler_new_def
        peer_connector_new_def non_listening_def user_agent_valid_def Let_def split: prod.splits option.splits)
qed

theorem built_crawler_version_message_witness:
  "\<exists>vm. create_version_message packet_env example_clock
        (connection_new (peer_number 1)
           (pk_config (fst (crawl packet_env (build (crawler_builder_new Bitcoin)) (peer_number 1))))
           (transport_v2 ([], []))) 5 = Version vm
      \<and> validate_bitcoin_core_format (vm_user_agent vm) = Some (Inr ()) \<and> vm_version vm = 70016"
  using built_crawler_version_message [OF built.new [of Bitcoin], of packet_env example_clock "peer_number 1"
      "peer_number 1" "transport_v2 ([], [])" 5]
  by (auto simp: crawler_builder_new_def DEFAULT_PROTOCOL_VERSION_def)

text \<open>
  The session of a built crawler starts unless the builder was given a maximum of zero
  concurrent tasks, which it accepts: the coordinator then panics in the background.
\<close>

lemma crawl_starts_iff:
  "snd (crawl B (build b) seed) = None \<longleftrightarrow> cb_max_concurrent_tasks b = 0"
  by (simp add: crawl_def build_def crawler_new_def session_config_of_def coordinate_start_def Let_def)

end
