(* ===== verification/Cli.thy ===== *)
theory Cli
  imports Configuration
begin

text \<open>
  What the two example programs, \<^verbatim>\<open>connection/examples/connection.rs\<close> and
  \<^verbatim>\<open>crawler/examples/crawler.rs\<close>, do with their arguments: names of networks and log
  levels, and IP addresses as \<^verbatim>\<open>std::net\<close> parses them. Arguments are split and
  defaulted by \<^verbatim>\<open>clap\<close> before they get here.
\<close>

section \<open>Names\<close>

text \<open>
  \<^verbatim>\<open>str::to_lowercase\<close> on the letters that matter: no character beyond ASCII has a
  lower case that is a letter of one of the names below.
\<close>

definition lower :: "char \<Rightarrow> char" where
  "lower c = (if 65 \<le> (of_char c :: int) \<and> (of_char c :: int) \<le> 90 then char_of (of_char c + 32 :: int) else c)"

definition to_lowercase :: "string \<Rightarrow> string" where
  "to_lowercase = map lower"

definition network_of_name :: "string \<Rightarrow> network option" where
  "network_of_name name =
     (let n = to_lowercase name
      in if n = ''bitcoin'' then Some Bitcoin
         else if n = ''testnet'' then Some Testnet
         else if n = ''regtest'' then Some Regtest
         else if n = ''signet'' then Some Signet
         else None)"

datatype level_filter = LevelError | LevelWarn | LevelInfo | LevelDebug | LevelTrace

definition log_level_of_name :: "string \<Rightarrow> level_filter" where
  "log_level_of_name name =
     (let n = to_lowercase name
      in if n = ''error'' then LevelError
         else if n = ''warn'' then LevelWarn
         else if n = ''info'' then LevelInfo
         else if n = ''debug'' then LevelDebug
         else if n = ''trace'' then LevelTrace
         else LevelInfo)"

section \<open>IP addresses\<close>

definition digit_value :: "int \<Rightarrow> char \<Rightarrow> int option" where
  "digit_value radix c =
     (let n = of_char c :: int;
          v = (if 48 \<le> n \<and> n \<le> 57 then n - 48
               else if 97 \<le> n \<and> n \<le> 122 then n - 87
               else if 65 \<le> n \<and> n \<le> 90 then n - 55
               else radix)
      in if v < radix then Some v else None)"

text \<open>
  A number of at most \<open>max_digits\<close> digits and at most \<open>max_value\<close>, with the rest of the text.
\<close>

definition read_number :: "int \<Rightarrow> nat \<Rightarrow> bool \<Rightarrow> int \<Rightarrow> string \<Rightarrow> (int \<times> string) option" where
  "read_number radix max_digits allow_zero_prefix max_value s =
     (let ds = takeWhile (\<lambda>c. digit_value radix c \<noteq> None) s;
          v = foldl (\<lambda>n c. radix * n + the (digit_value radix c)) 0 ds
      in if ds = [] \<or> max_digits < length ds \<or> max_value < v
            \<or> (\<not> allow_zero_prefix \<and> hd ds = CHR ''0'' \<and> 1 < length ds)
         then None else Some (v, drop (length ds) s))"

definition read_char :: "char \<Rightarrow> string \<Rightarrow> string option" where
  "read_char c s = (case s of x # xs \<Rightarrow> if x = c then Some xs else None | [] \<Rightarrow> None)"

definition read_octet :: "string \<Rightarrow> (int \<times> string) option" where
  "read_octet = read_number 10 3 False 255"

definition then_octet :: "(int \<times> string) option \<Rightarrow> (int \<times> string) option" where
  "then_octet r =
     Option.bind r (\<lambda>(n, s). Option.bind (read_char CHR ''.'' s)
       (\<lambda>s'. map_option (\<lambda>(d, rest). (256 * n + d, rest)) (read_octet s')))"

definition read_ipv4 :: "string \<Rightarrow> (int \<times> string) option" where
  "read_ipv4 s = then_octet (then_octet (then_octet (read_octet s)))"

definition after_separator :: "bool \<Rightarrow> (string \<Rightarrow> 'a option) \<Rightarrow> string \<Rightarrow> 'a option" where
  "after_separator first read s = (if first then read s else Option.bind (read_char CHR '':'' s) read)"

text \<open>At most \<open>n\<close> groups of an IPv6 address; the last two may be written as an IPv4 address.\<close>

fun read_groups :: "bool \<Rightarrow> nat \<Rightarrow> string \<Rightarrow> int list \<times> bool \<times> string" where
  "read_groups first 0 s = ([], False, s)"
| "read_groups first (Suc n) s =
     (case (if 0 < n then after_separator first read_ipv4 s else None) of
        Some (v4, rest) \<Rightarrow> ([v4 div 65536, v4 mod 65536], True, rest)
      | None \<Rightarrow>
          (case after_separator first (read_number 16 4 True 65535) s of
             Some (g, rest) \<Rightarrow> (let (gs, v4, r) = read_groups False n rest in (g # gs, v4, r))
           | None \<Rightarrow> ([], False, s)))"

definition groups_value :: "int list \<Rightarrow> int" where
  "groups_value = foldl (\<lambda>n g. 65536 * n + g) 0"

definition read_ipv6 :: "string \<Rightarrow> (int \<times> string) option" where
  "read_ipv6 s =
     (let (head, head_v4, r) = read_groups True 8 s
      in if length head = 8 then Some (groups_value head, r)
         else if head_v4 then None
         else Option.bind (Option.bind (read_char CHR '':'' r) (read_char CHR '':''))
           (\<lambda>r'. let (tail, _, rest) = read_groups True (8 - (length head + 1)) r'
                 in Some (groups_value (head @ replicate (8 - length head - length tail) 0 @ tail), rest)))"

definition parse_ip_addr :: "string \<Rightarrow> ip_addr option" where
  "parse_ip_addr s =
     (case read_ipv4 s of
        Some (n, rest) \<Rightarrow> if rest = [] then Some (V4 (word_of_int n)) else None
      | None \<Rightarrow>
          (case read_ipv6 s of
             Some (n, rest) \<Rightarrow> if rest = [] then Some (V6 (word_of_int n)) else None
           | None \<Rightarrow> None))"

text \<open>The address that both programs make of it.\<close>

definition addr_of_ip :: "ip_addr \<Rightarrow> addr_v2" where
  "addr_of_ip ip = (case ip of V4 ipv4 \<Rightarrow> Ipv4 ipv4 | V6 ipv6 \<Rightarrow> Ipv6 ipv6)"

section \<open>Lemmas\<close>

lemma parse_ip_addr_examples:
  "parse_ip_addr ''127.0.0.1'' = Some (V4 0x7F000001)"
  "parse_ip_addr ''127.0.0.01'' = None"
  "parse_ip_addr ''256.0.0.1'' = None"
  "parse_ip_addr ''::1'' = Some (V6 1)"
  "parse_ip_addr ''2001:db8::ff00:42:8329'' = Some (V6 0x20010db8000000000000ff0000428329)"
  "parse_ip_addr ''::ffff:10.0.0.1'' = Some (V6 0xffff0a000001)"
  "parse_ip_addr ''1:2:3:4:5:6:7:8:9'' = None"
  "parse_ip_addr ''seed.example'' = None"
  by code_simp+

lemma names_ignore_case:
  "network_of_name ''SigNet'' = Some Signet" "network_of_name ''mainnet'' = None"
  "log_level_of_name ''TRACE'' = LevelTrace" "log_level_of_name ''loud'' = LevelInfo"
  by code_simp+

end
