(* ===== verification/Crawler_Example.thy ===== *)
theory Crawler_Example
  imports Crawler Cli
begin

text \<open>
  The example program \<^verbatim>\<open>crawler/examples/crawler.rs\<close>: it builds a crawler from its
  arguments, starts a crawl and prints every message of it. The program is the caller of the
  session, so its steps are those of the session with the taking of results as printing.
\<close>

section \<open>Model\<close>




record crawler_app =
  app_session :: session
  printed :: "crawler_message list"


definition log_lines :: "texts \<Rightarrow> crawler_app \<Rightarrow> string list" where
  "log_lines X a = map (crawler_message_display X) (printed a)"



section \<open>Lemmas\<close>













section \<open>A run\<close>










section \<open>Properties\<close>



end
