(* ===== verification/Network_Crawl.thy ===== *)
theory Network_Crawl
  imports Session_Network Two_Peers
begin

text \<open>
  A crawl over the network, from the reports down to the handshakes: a session of
  \<^verbatim>\<open>session.rs\<close> whose connector is the \<^verbatim>\<open>PeerConnector\<close> of
  \<^verbatim>\<open>crawler/src/connection.rs\<close>, whose connections are those of \<^verbatim>\<open>futures.rs\<close>.
\<close>

section \<open>The connector of a crawl\<close>

text \<open>
  The calls of \<^verbatim>\<open>connect\<close> that a session makes: the state of the connector is the list of
  the peers it was called for, in order. The environment of a call is the clock it reads, the
  network it finds, and whether \<^verbatim>\<open>timeout(peer_timeout, _)\<close> elapses before it is done.
\<close>

definition real_connect ::
  "('net, 'st, 'r, 'w, 'pr, 'pw) runtime \<Rightarrow> peer_connector \<Rightarrow> (nat \<Rightarrow> clock \<times> 'net \<times> bool) \<Rightarrow> peer list \<Rightarrow> peer
   \<Rightarrow> (connection_error + ('r, 'w, 'pr, 'pw) connection) option \<times> peer list" where
  "real_connect E k environment calls p =
     (let (K, net, elapses) = environment (length calls)
      in (if elapses then None
          else case peer_connector_connect E K net k p of
                 Some (Ok c) \<Rightarrow> Some (Inr c)
               | Some (Err e) \<Rightarrow> Some (Inl e)
               | _ \<Rightarrow> None,
          calls @ [p]))"

section \<open>Where connections come from\<close>

text \<open>
  \<open>good k p c\<close> says of a connection \<open>c\<close> that a call of the connector for \<open>p\<close> has returned it,
  before the connector was in state \<open>k\<close>. What a session knows is traced to such connections:
  its reports, the connections that its tasks hold, and the peers that it has tested or is going
  to test.
\<close>

definition announced ::
  "('a) bitcoin_api_scheme \<Rightarrow> 'c peer_connection \<Rightarrow> 'c timer \<Rightarrow> session_config \<Rightarrow> ('k \<Rightarrow> peer \<Rightarrow> 'c \<Rightarrow> bool)
   \<Rightarrow> 'k \<Rightarrow> peer \<Rightarrow> bool" where
  "announced B P T cfg good k q \<longleftrightarrow>
     (\<exists>p c now ps c'. good k p c \<and> get_peers B P T now (peer_timeout cfg) c = Some (Ok ps, c') \<and> q \<in> set ps)"

definition traced_reports ::
  "'c peer_connection \<Rightarrow> ('k \<Rightarrow> peer \<Rightarrow> 'c \<Rightarrow> bool) \<Rightarrow> session \<Rightarrow> 'k \<Rightarrow> bool" where
  "traced_reports P good s k \<longleftrightarrow>
     (\<forall>p info. (p, Listening info) \<in> set (reports s) \<or> Reporting p (Listening info) \<in># tasks s
        \<longrightarrow> (\<exists>c. good k p c \<and> info = pc_peer P c))"

definition traced_open :: "('k \<Rightarrow> peer \<Rightarrow> 'c \<Rightarrow> bool) \<Rightarrow> session \<Rightarrow> 'k \<times> (peer \<rightharpoonup> 'c) \<Rightarrow> bool" where
  "traced_open good s n \<longleftrightarrow>
     (\<forall>a \<in># tasks s. holds_connection a \<longrightarrow> (\<exists>c. snd n (task_peer a) = Some c \<and> good (fst n) (task_peer a) c))"

definition traced_origin ::
  "('a) bitcoin_api_scheme \<Rightarrow> 'c peer_connection \<Rightarrow> 'c timer \<Rightarrow> session_config \<Rightarrow> ('k \<Rightarrow> peer \<Rightarrow> 'c \<Rightarrow> bool)
   \<Rightarrow> peer \<Rightarrow> session \<Rightarrow> 'k \<Rightarrow> bool" where
  "traced_origin B P T cfg good seed s k \<longleftrightarrow>
     (\<forall>q \<in> tested_peers s \<union> pending s. q = seed \<or> announced B P T cfg good k q)
     \<and> (\<forall>p ps q. Filtering p ps \<in># tasks s \<and> q \<in> set ps \<longrightarrow> announced B P T cfg good k q)"

locale traced_connector =
  fixes connect :: "'k \<Rightarrow> peer \<Rightarrow> (connection_error + 'c) option \<times> 'k"
    and good :: "'k \<Rightarrow> peer \<Rightarrow> 'c \<Rightarrow> bool"
  assumes kept: "good k q c \<Longrightarrow> good (snd (connect k p)) q c"
    and made: "connect k p = (Some (Inr c), k') \<Longrightarrow> good k' p c"
begin

lemma answer_keeps:
  assumes "answers_task (session_network B P T cfg connect) (k, conns) a W (k', conns')" and "good k q c"
  shows "good k' q c"
proof (cases a)
  case (Connecting p)
  then have "k' = snd (connect k p)"
    using assms(1) by (cases "connect k p") (auto simp: session_network_def split: option.splits sum.splits)
  then show ?thesis using kept [OF assms(2)] by simp
qed (use assms in \<open>auto simp: session_network_def\<close>)

lemma announced_keeps:
  assumes "answers_task (session_network B P T cfg connect) (k, conns) a W (k', conns')"
    and "announced B P T cfg good k q"
  shows "announced B P T cfg good k' q"
  using assms(2) answer_keeps [OF assms(1)] unfolding announced_def by blast

lemma connected:
  assumes "live_connect (session_network B P T cfg connect) (k, conns) p (Some info) (k', conns')"
  shows "\<exists>c. conns' p = Some c \<and> good k' p c \<and> info = pc_peer P c"
  using assms made
  by (cases "connect k p") (auto simp: session_network_def split: option.splits sum.splits)

lemma reports_task:
  assumes inv: "traced_reports P good s k" and a: "tasks s = add_mset a M"
    and ans: "answers_task (session_network B P T cfg connect) (k, conns) a W (k', conns')"
    and turn: "task_turn W cap (s\<lparr>tasks := M\<rparr>) a = Some (s', a')"
  shows "traced_reports P good (s'\<lparr>tasks := put_back a' M\<rparr>) k'"
proof -
  have old: "\<exists>c. good k' p c \<and> info = pc_peer P c"
    if "(p, Listening info) \<in> set (reports s) \<or> Reporting p (Listening info) \<in># tasks s" for p info
    using inv that answer_keeps [OF ans] unfolding traced_reports_def by blast
  from turn show ?thesis
  proof (cases rule: task_turn_cases)
    case (connect p)
    have "\<exists>c. good k' p c \<and> info = pc_peer P c" if "verdict W p = Listening info" for info
      using that connect(1) ans connected [of B P T cfg k conns p info k' conns']
      by (auto simp: verdict_def split: option.splits)
    with connect old a show ?thesis by (auto simp: traced_reports_def)
  next
    case (report p m)
    with old a show ?thesis by (auto simp: traced_reports_def split: crawler_message.splits)
  qed (use old a in \<open>auto simp: traced_reports_def\<close>)
qed

lemma open_task:
  assumes inv: "traced_open good s (k, conns)" "single_inv s" and a: "tasks s = add_mset a M"
    and ans: "answers_task (session_network B P T cfg connect) (k, conns) a W (k', conns')"
    and turn: "task_turn W cap (s\<lparr>tasks := M\<rparr>) a = Some (s', a')"
  shows "traced_open good (s'\<lparr>tasks := put_back a' M\<rparr>) (k', conns')"
proof -
  have others: "\<exists>c. conns' (task_peer b) = Some c \<and> good k' (task_peer b) c" if "b \<in># M" "holds_connection b" for b
    using inv(1) a that session_network_frame [OF ans single_task(2) [OF inv(2) a that(1)]] answer_keeps [OF ans]
    by (auto simp: traced_open_def)
  have next_task: "\<exists>c. conns' (task_peer b) = Some c \<and> good k' (task_peer b) c"
    if b: "a' = Some b" "holds_connection b" for b
    using turn
  proof (cases rule: task_turn_cases)
    case (connect p)
    then obtain info where "connect_to W p = Some info" "b = Reporting p (Listening info)"
      using b by (auto simp: verdict_def holds_connection_def split: option.splits)
    with connect ans connected [of B P T cfg k conns p info k' conns'] show ?thesis by auto
  next
    case (report p m)
    then have "holds_connection a" "b = Discovering p" "conns' = conns" "k' = k"
      using b ans by (auto simp: holds_connection_def split: crawler_message.splits)
    with report inv(1) a show ?thesis by (auto simp: traced_open_def)
  qed (use b in \<open>auto simp: holds_connection_def\<close>)
  from others next_task show ?thesis by (cases a') (auto simp: traced_open_def put_back_def)
qed

lemma origin_task:
  assumes inv: "traced_origin B P T cfg good seed s k" "traced_open good s (k, conns)" and a: "tasks s = add_mset a M"
    and ans: "answers_task (session_network B P T cfg connect) (k, conns) a W (k', conns')"
    and turn: "task_turn W cap (s\<lparr>tasks := M\<rparr>) a = Some (s', a')"
  shows "traced_origin B P T cfg good seed (s'\<lparr>tasks := put_back a' M\<rparr>) k'"
proof -
  let ?from = "announced B P T cfg good" and ?t = "s'\<lparr>tasks := put_back a' M\<rparr>"
  have old: "q = seed \<or> ?from k' q" if "q \<in> tested_peers s \<union> pending s" for q
    using inv(1) that announced_keeps [OF ans] unfolding traced_origin_def by blast
  have filtering: "?from k' q" if "Filtering p ps \<in># tasks s" "q \<in> set ps" for p ps q
    using inv(1) that announced_keeps [OF ans] unfolding traced_origin_def by blast
  have others: "?from k' q" if "Filtering r qs \<in># M" "q \<in> set qs" for r qs q
    using filtering [of r qs q] that a by simp
  from turn show ?thesis
  proof (cases rule: task_turn_cases)
    case (some_peers p ps)
    obtain c where c: "conns p = Some c" "good k p c"
      using inv(2) a some_peers(1) by (auto simp: traced_open_def holds_connection_def)
    have "live_ask (session_network B P T cfg connect) (k, conns) p (Some ps) (k', conns')"
      using ans some_peers by simp
    then obtain now res c1 where "get_peers B P T now (peer_timeout cfg) c = Some (res, c1)"
      "Some ps = (case res of Ok ds \<Rightarrow> Some ds | _ \<Rightarrow> None)" "k' = k"
      using c(1) by (auto simp: session_network_def)
    moreover from this(2) have "res = Ok ps" by (cases res) simp_all
    ultimately have "?from k' q" if "q \<in> set ps" for q
      using that c(2) unfolding announced_def by blast
    with some_peers old others show ?thesis by (auto simp: traced_origin_def pending_def)
  next
    case (publish p ps)
    have "?from k' q" if "q \<in> set ps" for q using filtering [of p ps q] that a publish(1) by simp
    moreover have "tested_peers ?t \<union> pending ?t \<subseteq> tested_peers s \<union> pending s \<union> set ps"
      "Filtering r qs \<in># tasks ?t \<longleftrightarrow> Filtering r qs \<in># M" for r qs
      using publish by (auto simp: pending_def)
    ultimately show ?thesis unfolding traced_origin_def using old others by blast
  qed (use old others in \<open>auto simp: traced_origin_def pending_def split: crawler_message.splits\<close>)
qed

lemma coord_traced:
  assumes "coord_turn cap s = Some t"
  shows "traced_reports P good s k \<Longrightarrow> traced_reports P good t k"
    and "traced_open good s n \<Longrightarrow> traced_open good t n"
    and "traced_origin B P T cfg good seed s k \<Longrightarrow> traced_origin B P T cfg good seed t k"
proof -
  show "traced_reports P good s k \<Longrightarrow> traced_reports P good t k"
    using assms by (elim coord_turn_cases) (auto simp: traced_reports_def)
  show "traced_open good s n \<Longrightarrow> traced_open good t n"
    using assms by (elim coord_turn_cases) (auto simp: traced_open_def holds_connection_def)
  have "{a \<in> set_mset (tasks t). \<exists>p ps. a = Filtering p ps} = {a \<in> set_mset (tasks s). \<exists>p ps. a = Filtering p ps}"
    using assms by (elim coord_turn_cases) auto
  then have "Filtering p ps \<in># tasks t \<longleftrightarrow> Filtering p ps \<in># tasks s" for p ps by blast
  with coord_frontier [OF assms]
  show "traced_origin B P T cfg good seed s k \<Longrightarrow> traced_origin B P T cfg good seed t k"
    by (simp add: traced_origin_def)
qed

lemma traced_steps:
  assumes start: "crawl_start cfg seed s0"
    and run: "(live_step (session_network B P T cfg connect) cap parallel)\<^sup>*\<^sup>* (s0, n0) (s, n)"
  shows "traced_reports P good s (fst n) \<and> traced_open good s n \<and> traced_origin B P T cfg good seed s (fst n)"
  using run
proof (induction rule: rtranclp_induct2)
  case refl
  then show ?case using start
    by (auto simp: traced_reports_def traced_open_def traced_origin_def pending_def crawl_start_def
        coordinate_start_def split: if_splits)
next
  case (step s n t n')
  have single: "single_inv s"
    using live_reachable [OF start step(1)] single.reachable_inv [OF start] by blast
  obtain k conns k' conns' where n: "n = (k, conns)" "n' = (k', conns')" by (metis prod.exhaust)
  from step(2) show ?case
  proof (cases rule: live_step.cases)
    case coordinator
    then show ?thesis using coord_traced step(3) by blast
  next
    case (task a M W s' a')
    note ans = task(3) [unfolded n]
    from step(3) have old: "traced_reports P good s k" "traced_open good s (k, conns)"
      "traced_origin B P T cfg good seed s k" by (simp_all add: n)
    from reports_task [OF old(1) task(2) ans task(4)] open_task [OF old(2) single task(2) ans task(4)]
      origin_task [OF old(3,2) task(2) ans task(4)] task(1) show ?thesis by (simp add: n)
  qed (use step(3) in \<open>simp_all add: traced_reports_def traced_open_def traced_origin_def pending_def\<close>)
qed

end

section \<open>From dialled streams to reports\<close>

text \<open>
  A stream that the operating system has connected to a socket address, and a transport over
  such a stream to the address and port of a peer. It is the first stream that is opened or,
  after an encrypted handshake that has failed, the second.
\<close>

definition dialled ::
  "('net, 'st, 'r, 'w, 'pr, 'pw) runtime \<Rightarrow> 'net \<Rightarrow> socket_addr \<Rightarrow> 'st \<Rightarrow> 'net \<Rightarrow> bool" where
  "dialled E net sock st net' \<longleftrightarrow>
     (\<exists>st0. tcp_connect E net sock = (Ok st0, net') \<and> tcp_set_nodelay E st0 True = Inr st)"

definition transport_to ::
  "('net, 'st, 'r, 'w, 'pr, 'pw) runtime \<Rightarrow> 'net \<Rightarrow> network \<Rightarrow> peer \<Rightarrow> ('r, 'w, 'pr, 'pw) transport \<Rightarrow> bool" where
  "transport_to E net network p t \<longleftrightarrow>
     (\<exists>sock st net1 net2 r w. socket_of p = Some sock
        \<and> (net1 = net \<or> (\<exists>st1. dialled E net sock st1 net1)) \<and> dialled E net1 sock st net2
        \<and> tcp_into_split E st = (r, w)
        \<and> (t = transport_v1 (network_magic E network) r w
           \<or> (\<exists>v2. protocol_new E network Initiator r w = Ok v2 \<and> t = transport_v2 v2)))"

lemma establish_dialled: "establish_tcp_connection E net sock = (Ok st, net') \<longleftrightarrow> dialled E net sock st net'"
proof (cases "tcp_connect E net sock")
  case (Pair r n)
  show ?thesis
  proof (cases r)
    case (Ok st0)
    with Pair show ?thesis
      by (cases "tcp_set_nodelay E st0 True")
        (auto simp: establish_tcp_connection_def configure_tcp_stream_def dialled_def)
  qed (use Pair in \<open>simp_all add: establish_tcp_connection_def dialled_def\<close>)
qed

lemma connect_transport_to:
  assumes "tcp_transport_connect E net p network policy = (Ok t, net')"
  shows "transport_to E net network p t"
proof -
  obtain sock where sock: "socket_of p = Some sock"
    and neg: "negotiate_outbound_transport E net sock network p policy = (Ok t, net')"
    using assms by (auto simp: tcp_connect_socket split: option.splits)
  show ?thesis
  proof (cases "may_support_v2 E p \<or> policy = V2Required")
    case False
    then have "policy = V2Preferred" "\<not> may_support_v2 E p" by (cases policy; simp)+
    with neg obtain st where "dialled E net sock st net'"
      "t = transport_v1 (network_magic E network) (fst (tcp_into_split E st)) (snd (tcp_into_split E st))"
      by (auto simp: negotiate_outbound_unsupported and_then_Ok_iff establish_dialled)
    with sock show ?thesis unfolding transport_to_def by (metis prod.collapse)
  next
    case True
    from neg [unfolded negotiate_outbound_Ok [OF True] establish_dialled] sock show ?thesis
      unfolding transport_to_def by (metis prod.collapse)
  qed
qed

text \<open>
  A connection to \<open>p\<close> whose handshake the remote side has completed, in a call of the connector
  for \<open>p\<close> that is one of \<open>calls\<close>: over a transport to the address and port of \<open>p\<close>, in the network
  and with the clock of that call.
\<close>

definition shook_hands ::
  "('net, 'st, 'r, 'w, 'pr, 'pw) runtime \<Rightarrow> peer_connector \<Rightarrow> (nat \<Rightarrow> clock \<times> 'net \<times> bool) \<Rightarrow> peer list \<Rightarrow> peer
   \<Rightarrow> ('r, 'w, 'pr, 'pw) connection \<Rightarrow> bool" where
  "shook_hands E k environment calls p c \<longleftrightarrow>
     (\<exists>i K net t ms vm. i < length calls \<and> calls ! i = p \<and> environment i = (K, net, False)
        \<and> transport_to E net (pk_network k) p t
        \<and> perform_handshake E K (connection_new p (pk_config k) t) = Some (Ok (), c)
        \<and> delivers E (fst (transport_into_split t)) ms (conn_reader c)
        \<and> Verack \<in> set ms \<and> first_version ms = Some vm \<and> no_own_nonce (generate_nonce K) ms
        \<and> conn_peer c = learn_peer p vm)"

lemma handshake_delivered:
  assumes "perform_handshake E K (connection_new p cfg t) = Some (Ok (), c)"
  shows "\<exists>ms vm. delivers E (fst (transport_into_split t)) ms (conn_reader c) \<and> Verack \<in> set ms
    \<and> first_version ms = Some vm \<and> no_own_nonce (generate_nonce K) ms \<and> conn_peer c = learn_peer p vm"
proof -
  have new: "conn_peer (connection_new p cfg t) = p" "conn_reader (connection_new p cfg t) = fst (transport_into_split t)"
    by (simp_all add: connection_new_def split: prod.splits)
  from handshake_sound [OF silent_writes_log(1) _ _ assms] show ?thesis
    unfolding new handshaken_def learn_peer_def handshake_exchange_def handshake_done_def by blast
qed

interpretation dialling: traced_connector "real_connect E k environment" "shook_hands E k environment"
proof
  fix calls p q c calls'
  show "shook_hands E k environment (snd (real_connect E k environment calls p)) q c"
    if "shook_hands E k environment calls q c"
    using that unfolding shook_hands_def real_connect_def
    by (fastforce simp: nth_append Let_def split: prod.splits)
  assume call: "real_connect E k environment calls p = (Some (Inr c), calls')"
  obtain K net b where env: "environment (length calls) = (K, net, b)" by (metis prod_cases3)
  with call have "\<not> b" "calls' = calls @ [p]" and con: "connection_connect E K net p (pk_network k) (pk_config k) = Some (Ok c)"
    by (auto simp: real_connect_def peer_connector_connect_def split: option.splits outcome.splits if_splits)
  from con obtain t net' where t: "tcp_transport_connect E net p (pk_network k) (transport_policy (pk_config k)) = (Ok t, net')"
    and hs: "perform_handshake E K (connection_new p (pk_config k) t) = Some (Ok (), c)"
    by (cases "tcp_transport_connect E net p (pk_network k) (transport_policy (pk_config k))")
      (auto simp: connection_connect_def finish_handshake_Ok split: outcome.splits)
  have "length calls < length calls'" "calls' ! length calls = p" "environment (length calls) = (K, net, False)"
    using env \<open>\<not> b\<close> \<open>calls' = calls @ [p]\<close> by simp_all
  with connect_transport_to [OF t] hs handshake_delivered [OF hs]
  show "shook_hands E k environment calls' p c" unfolding shook_hands_def by blast
qed

lemma shook_hands_endpoint: "shook_hands E k environment calls p c \<Longrightarrow> endpoint (conn_peer c) = endpoint p"
  by (auto simp: shook_hands_def learn_peer_def endpoint_def)

text \<open>
  C4. What a crawl reports is grounded in what was read from the network. At any moment of a
  crawl with the standard connector, on one thread or on several, whatever the network does: a
  peer was reported as listening only if in one of the calls that the session has made of the
  connector, made for that peer, the operating system connected a stream to the address and
  port of that peer, and the remote side completed a handshake over it, with a version message
  that did not carry the local nonce and a verack; the report has that address and port and the
  services and the version of that message. And every peer that was tested is the seed or was
  in an address message that was read, after the request for addresses, on a connection that
  such a call has returned.
\<close>

theorem crawl_grounded_in_handshakes:
  fixes E :: "('net, 'st, 'r, 'w, 'pr, 'pw) runtime"
  defines "P \<equiv> connection_peer_connection E"
  assumes start: "crawl_start cfg seed s0" and law: "timeout_law P T"
    and run: "(live_step (session_network B P T cfg (real_connect E k environment)) (max_concurrent_tasks cfg) parallel)\<^sup>*\<^sup>*
      (s0, [], conns0) (s, calls, conns)"
  shows "(\<forall>p info. (p, Listening info) \<in> set (reports s) \<longrightarrow>
        endpoint info = endpoint p \<and> (\<exists>c. shook_hands E k environment calls p c \<and> info = conn_peer c))
    \<and> (\<forall>q \<in> set (spawned s). q = seed \<or>
        (\<exists>p c c1 ms c' m. shook_hands E k environment calls p c \<and> connection_write E c GetAddr = (Ok (), c1)
           \<and> exchange P c1 ms c' \<and> m \<in> set ms \<and> q \<in> set (message_peers B m)))"
proof (intro conjI allI impI ballI)
  have traced: "traced_reports P (shook_hands E k environment) s calls"
    "traced_origin B P T cfg (shook_hands E k environment) seed s calls"
    using dialling.traced_steps [OF start run] by simp_all
  {
    fix p info assume "(p, Listening info) \<in> set (reports s)"
    with traced(1) obtain c where "shook_hands E k environment calls p c" "info = conn_peer c"
      unfolding traced_reports_def P_def connection_peer_connection_def by fastforce
    then show "endpoint info = endpoint p" "\<exists>c. shook_hands E k environment calls p c \<and> info = conn_peer c"
      using shook_hands_endpoint by blast+
  next
    fix q assume q: "q \<in> set (spawned s)"
    obtain W where "(crawl_step W (max_concurrent_tasks cfg) parallel)\<^sup>*\<^sup>* s0 s" using live_reachable [OF start run] by blast
    from crawl.reachable_inv [OF start this] q have "q \<in> tested_peers s" by (auto simp: crawl_inv_def dedup_inv_def)
    with traced(2) consider "q = seed" | "announced B P T cfg (shook_hands E k environment) calls q"
      unfolding traced_origin_def by blast
    then show "q = seed \<or> (\<exists>p c c1 ms c' m. shook_hands E k environment calls p c
        \<and> connection_write E c GetAddr = (Ok (), c1) \<and> exchange P c1 ms c' \<and> m \<in> set ms \<and> q \<in> set (message_peers B m))"
    proof cases
      case 2
      then obtain p c now ps c' where c: "shook_hands E k environment calls p c"
        and got: "get_peers B P T now (peer_timeout cfg) c = Some (Ok ps, c')" "q \<in> set ps"
        unfolding announced_def by blast
      from get_peers_Ok [OF law got(1)] obtain c1 ms where "pc_write P c GetAddr = (Ok (), c1)" "exchange P c1 ms c'"
        "ps = concat (map (message_peers B) ms)" by blast
      with c got(2) show ?thesis by (fastforce simp: P_def connection_peer_connection_def)
    qed simp
  }
qed

text \<open>A crawl that has reached its first peer over a plaintext connection.\<close>

abbreviation twin_environment :: "nat \<Rightarrow> clock \<times> u8 list list \<times> bool" where
  "twin_environment \<equiv> \<lambda>_. (example_clock, [v1_frames twin_env example_magic twin_answer], False)"

abbreviation twin_crawl ::
  "(peer list \<times> (peer \<rightharpoonup> (u8 list, u8 list, u8 list list, u8 list list) connection)) live_network" where
  "twin_crawl \<equiv> session_network twin_env (connection_peer_connection twin_env)
     (example_timer (connection_peer_connection twin_env)) two_tasks
     (real_connect twin_env (peer_connector_new Bitcoin example_config) twin_environment)"

theorem crawl_grounded_in_handshakes_witness:
  "\<exists>s conns c. (live_step twin_crawl 2 False)\<^sup>*\<^sup>* (start_session, [], Map.empty) (s, [twin_peer], conns)
     \<and> reports s = [(twin_peer, Listening (conn_peer c))]
     \<and> shook_hands twin_env (peer_connector_new Bitcoin example_config) twin_environment [twin_peer] twin_peer c
     \<and> endpoint (conn_peer c) = (Ipv4 1, 8333)"
proof -
  obtain c where c: "connection_connect twin_env example_clock [v1_frames twin_env example_magic twin_answer]
      twin_peer Bitcoin example_config = Some (Ok c)" using twin_connects by blast
  have peer: "peer_number 1 = twin_peer" by (simp add: peer_number_def twin_peer_def)
  have "live_connect twin_crawl ([], Map.empty) (peer_number 1) (Some (conn_peer c)) ([twin_peer], [twin_peer \<mapsto> c])"
    using c by (simp add: session_network_def real_connect_def peer_connector_connect_def peer_connector_new_def peer
        connection_peer_connection_def)
  note reached = first_report_reached [OF this, of False]
  have cap: "max_concurrent_tasks two_tasks = 2" by (simp add: two_tasks_def)
  have rep: "reports (first_report (conn_peer c)) = [(twin_peer, Listening (conn_peer c))]"
    by (simp add: first_report_def peer)
  from crawl_grounded_in_handshakes [OF start_session example_timer_laws(1) reached [folded cap]] rep obtain d where
    "shook_hands twin_env (peer_connector_new Bitcoin example_config) twin_environment [twin_peer] twin_peer d"
    "conn_peer c = conn_peer d" "endpoint (conn_peer c) = endpoint twin_peer" by auto
  with reached rep show ?thesis by (auto simp: endpoint_def twin_peer_def peer_with_services_def)
qed

end
