(* ===== verification/Peer_Task.thy ===== *)
theory Peer_Task
  imports Session_Properties Two_Peers
begin

text \<open>
  The task of one peer, from the bytes of its TCP stream to what the session sees of it:
  \<^verbatim>\<open>process\<close> of \<^verbatim>\<open>session.rs\<close> over a connection of \<^verbatim>\<open>futures.rs\<close>
  whose remote side greets, announces addresses, sends pings and falls silent.
\<close>

section \<open>A stream that stays open\<close>

text \<open>A connection that is up and has nothing to deliver: a read waits.\<close>

definition stays_open ::
  "('r \<Rightarrow> nat \<Rightarrow> (io_error, u8 list) outcome \<times> 'r) \<Rightarrow> ('r \<Rightarrow> u8 list) \<Rightarrow> bool" where
  "stays_open rd stream \<longleftrightarrow> (\<forall>r k. 0 < k \<and> stream r = [] \<longrightarrow> (\<exists>r'. rd r k = (Pending, r')))"

lemma v1_read_waits:
  assumes quiet: "stays_open (async_read E) stream" and wf: "v1_wf tr" and input: "v1_input stream tr = []"
  shows "\<exists>tr'. v1_reader_read E tr = (Pending, tr')"
proof (cases "receive_state tr")
  case (ReadingHeader h n)
  then have n: "length h = HEADER_SIZE" "n = 0" "stream (v1r_reader tr) = []"
    using wf input by (auto simp: v1_input_def HEADER_SIZE_def)
  then obtain r' where "async_read E (v1r_reader tr) (length h) = (Pending, r')"
    using quiet unfolding stays_open_def by (metis HEADER_SIZE_def zero_less_numeral)
  with n have "fill (async_read E) msg h n (v1r_reader tr) = (Pending, h, n, r')" for msg
    by (subst fill.simps) (simp add: HEADER_SIZE_def)
  with ReadingHeader show ?thesis by (simp add: v1_reader_read.simps [of E tr] v1_read_turn_def)
next
  case (ReadingPayload b n)
  with wf input show ?thesis by (auto simp: v1_input_def HEADER_SIZE_def)
qed

section \<open>A conversation over a connection\<close>

lemma connection_replies:
  assumes log: "writes_log E log enc up" and ok: "writes_succeed E up"
  shows "delivers E (conn_reader c) ms rd' \<Longrightarrow> up (conn_writer c)
    \<Longrightarrow> \<exists>c'. replies (connection_peer_connection E) c ms c' \<and> conn_reader c' = rd'
      \<and> log (conn_writer c') = log (conn_writer c) @ concat (map enc (concat (map answers ms)))"
proof (induction ms arbitrary: c)
  case Nil
  then show ?case by simp
next
  case (Cons m ms)
  then obtain rd1 where rd1: "transport_reader_read E (conn_reader c) = (Ok m, rd1)" "delivers E rd1 ms rd'"
    by (auto split: prod.splits outcome.splits)
  let ?P = "connection_peer_connection E"
  let ?c1 = "c\<lparr>conn_reader := rd1, conn_state := note_received (conn_state c) m\<rparr>"
  have read: "pc_read ?P c = (Ok m, ?c1)" using rd1(1) by (simp add: connection_peer_connection_def connection_read_eq)
  obtain c2 where c2: "write_list ?P (answers m) ?c1 = (Ok (), c2)" "conn_reader c2 = rd1" "up (conn_writer c2)"
    "log (conn_writer c2) = log (conn_writer c) @ concat (map enc (answers m))"
  proof (cases "answers m")
    case Nil
    with that [of ?c1] Cons.prems(2) show thesis by simp
  next
    case (Cons x xs)
    then have m: "answers m = [x]" by (cases m) auto
    obtain w where w: "transport_writer_write E (conn_writer c) x = (Ok (), w)"
      using writes_succeedD [OF ok Cons.prems(2)] by blast
    with writes_logD [OF log w Cons.prems(2)] m that [of "?c1\<lparr>conn_writer := w\<rparr>"] show thesis
      by (simp add: connection_peer_connection_def connection_write_eq)
  qed
  from Cons.IH [of c2] rd1(2) c2 obtain c' where "replies ?P c2 ms c'" "conn_reader c' = rd'"
    "log (conn_writer c') = log (conn_writer c2) @ concat (map enc (concat (map answers ms)))" by auto
  with read c2 show ?case by (intro exI [of _ c']) simp
qed

lemma connection_get_peers_prompt:
  assumes log: "writes_log E log enc up" and ok: "writes_succeed E up" and up: "up (conn_writer c)"
    and del: "delivers E (conn_reader c) ms rd" and quiet: "\<exists>rd'. transport_reader_read E rd = (Pending, rd')"
    and T: "timeout_law (connection_peer_connection E) T" "prompt (connection_peer_connection E) T delay"
      "clock_advances T" "(3 * length ms + 2) * delay < d"
    and some: "concat (map (message_peers B) ms) \<noteq> []"
  shows "\<exists>c'. get_peers B (connection_peer_connection E) T now d c = Some (Ok (concat (map (message_peers B) ms)), c')
    \<and> log (conn_writer c') = log (conn_writer c) @ concat (map enc (GetAddr # concat (map answers ms)))"
proof -
  let ?P = "connection_peer_connection E"
  obtain w where w: "transport_writer_write E (conn_writer c) GetAddr = (Ok (), w)"
    using writes_succeedD [OF ok up] by blast
  have w_log: "up w" "log w = log (conn_writer c) @ enc GetAddr" using writes_logD [OF log w up] by auto
  let ?c1 = "c\<lparr>conn_writer := w\<rparr>"
  have asked: "pc_write ?P c GetAddr = (Ok (), ?c1)"
    using w by (simp add: connection_peer_connection_def connection_write_eq)
  obtain c2 where c2: "replies ?P ?c1 ms c2" "conn_reader c2 = rd"
    "log (conn_writer c2) = log w @ concat (map enc (concat (map answers ms)))"
    using connection_replies [OF log ok, of ?c1 ms rd] del w_log(1) by auto
  obtain rd' where "transport_reader_read E rd = (Pending, rd')" using quiet by blast
  with c2(2) have "pc_read ?P c2 = (Pending, c2\<lparr>conn_reader := rd'\<rparr>)"
    by (simp add: connection_peer_connection_def connection_read_eq)
  from get_peers_loop_prompt [OF T(1-3) c2(1) this, of "[]" B "tick T now" "tick T now" d] some T(4)
  have "get_peers B ?P T now d c = Some (Ok (concat (map (message_peers B) ms)), c2\<lparr>conn_reader := rd'\<rparr>)"
    using asked by (simp add: get_peers_def Let_def)
  with c2(3) w_log(2) show ?thesis by (intro exI [of _ "c2\<lparr>conn_reader := rd'\<rparr>"]) simp
qed

section \<open>An example\<close>

text \<open>A reader that hands out at most seven bytes at a time and waits when it has none.\<close>

definition patient_read :: "u8 list \<Rightarrow> nat \<Rightarrow> (io_error, u8 list) outcome \<times> u8 list" where
  "patient_read bs k = (if bs = [] then (Pending, bs) else trickle_read bs k)"

lemma patient_laws:
  "byte_source patient_read (\<lambda>bs. bs)" "eventually_delivers patient_read (\<lambda>bs. bs) (\<lambda>_. 0)"
  "stays_open patient_read (\<lambda>bs. bs)"
  by (auto simp: byte_source_def eventually_delivers_def stays_open_def patient_read_def trickle_read_def min_def)

text \<open>A remote side that greets, sends a ping and announces two peers.\<close>

definition patient_greeting :: "network_message list" where
  "patient_greeting = [Version (example_version 70016 8 77), Verack]"

definition patient_talk :: "network_message list" where
  "patient_talk =
     [Ping 9, AddrV2 [\<lparr>av2_services = 1, av2_addr = Ipv4 1, av2_port = 8333\<rparr>,
                      \<lparr>av2_services = 1, av2_addr = Ipv4 2, av2_port = 8333\<rparr>]]"

definition patient_env :: "(u8 list list, u8 list, u8 list, u8 list, u8 list list, u8 list list) runtime" where
  "patient_env = packet_env\<lparr>raw_serialize := table_serialize (patient_greeting @ patient_talk),
                            raw_deserialize := table_deserialize (patient_greeting @ patient_talk),
                            async_read := patient_read\<rparr>"

lemma patient_env_sel [simp]:
  "raw_serialize patient_env = table_serialize (patient_greeting @ patient_talk)"
  "raw_deserialize patient_env = table_deserialize (patient_greeting @ patient_talk)"
  "async_read patient_env = patient_read" "network_magic patient_env network = example_magic"
  "write_all patient_env = (\<lambda>w bs. (Ok (), w @ bs))" "flush patient_env = (\<lambda>w. (Ok (), w))"
  "tcp_into_split patient_env = (\<lambda>st. (st, []))"
  "flags_has patient_env = flags_has packet_env" "flag_P2P_V2 patient_env = flag_P2P_V2 packet_env"
  by (simp_all add: patient_env_def example_env_def)

lemma patient_env_laws:
  "byte_sink (write_all patient_env) (flush patient_env) (\<lambda>w. w)"
  "\<forall>w bs. fst (write_all patient_env w bs) = Ok ()" "\<forall>w. fst (flush patient_env w) = Ok ()"
  "byte_source (async_read patient_env) (\<lambda>bs. bs)" "eventually_delivers (async_read patient_env) (\<lambda>bs. bs) (\<lambda>_. 0)"
  "stays_open (async_read patient_env) (\<lambda>bs. bs)"
  using patient_laws by (simp_all add: byte_sink_def)

lemma patient_frames: "\<forall>m \<in> set (patient_greeting @ patient_talk). well_framed patient_env (example_magic, m)"
  by (intro ballI table_well_framed [of _ "patient_greeting @ patient_talk"])
    (simp_all add: patient_greeting_def patient_talk_def example_magic_def)

lemma patient_route: "plaintext_route patient_env [r] Bitcoin twin_peer r [] []"
  by (auto simp: plaintext_route_def socket_of_def may_support_v2_def twin_peer_facts establish_tcp_connection_def
      configure_tcp_stream_def patient_env_def example_env_def)

lemma patient_exchange:
  "handshake_exchange (generate_nonce example_clock) patient_greeting"
  "first_version patient_greeting = Some (example_version 70016 8 77)"
  by (simp_all add: patient_greeting_def example_packets example_version_def)

lemma patient_peers:
  "concat (map (message_peers patient_env) patient_talk) = [peer_number 1, peer_number 2]"
  "concat (map answers patient_talk) = [Pong 9]"
  by (simp_all add: patient_talk_def message_peers_def addr_v2_peers_def peer_number_def)

section \<open>From the bytes to the session\<close>

text \<open>
  C26. What a peer's task does, from the bytes on its stream to the session. The peer is
  reached in plaintext, its bytes are the frames of a valid handshake and of further messages,
  however they are cut into reads, with some address among them, after which it is silent; it
  takes what is written to it, and the link is prompt enough for the timeout. The session goes
  on, and its caller listens and has room for a message. Then connecting succeeds and asking
  for addresses returns all that were announced. The bytes written are the frames of the local
  version message, of the features and the verack, of getaddr, and of one pong for each ping,
  with its nonce. \<open>process\<close>, and the task of the session when it runs undisturbed, sends the
  caller that the peer is listening, with the services and the version that it has stated, and
  nothing else; it sends the coordinator those announced peers that were not tested yet, in one
  batch and in order, if there are any; and its result says whether there are.
\<close>

theorem peer_task_from_bytes:
  fixes E :: "('net, 'st, 'r, 'w, 'pr, 'pw) runtime"
  defines "P \<equiv> connection_peer_connection E"
  assumes route: "plaintext_route E net (pk_network k) p r w net1" and policy: "transport_policy (pk_config k) = V2Preferred"
    and sink: "byte_sink (write_all E) (flush E) wire" "\<forall>w bs. fst (write_all E w bs) = Ok ()"
      "\<forall>w. fst (flush E w) = Ok ()" "wire w = []"
    and src: "byte_source (async_read E) stream" "eventually_delivers (async_read E) stream (\<lambda>_. 0)"
      "stays_open (async_read E) stream"
    and mg: "mg = network_magic E (pk_network k)"
    and frames: "\<forall>m \<in> set (ms @ ms'). well_framed E (mg, m)" "stream r = v1_frames E mg (ms @ ms')"
    and ex: "handshake_exchange (generate_nonce K) ms" "first_version ms = Some vm"
    and T: "timeout_law P T" "prompt P T delay" "clock_advances T" "(3 * length ms' + 2) * delay < peer_timeout cfg"
    and found: "found_peers = concat (map (message_peers E) ms')" "found_peers \<noteq> []"
    and new: "new_peers = filter (\<lambda>q. q \<notin> tested_peers s) found_peers"
    and session: "caller_listens s" "\<not> stopped (coord s)" "length (crawl_queue s) < CRAWL_CAPACITY"
  shows "\<exists>c c' s'. peer_connector_connect E K net k p = Some (Ok c)
    \<and> get_peers E P T now (peer_timeout cfg) c = Some (Ok found_peers, c')
    \<and> sent_bytes wire (conn_writer c') = v1_frames E mg
        (create_version_message E K (connection_new p (pk_config k) (transport_v1 mg r w)) (generate_nonce K)
         # version_reply (pk_config k) vm @ GetAddr # concat (map answers ms'))
    \<and> process E P T now cfg (view_of s) (Some (Inr c)) p
        = Some (if new_peers = [] then NoPeersFound else FoundPeers, [Listening (learn_peer p vm)],
                if new_peers = [] then [] else [new_peers])
    \<and> run_task (task_world E P T now cfg (Some (Inr c))) cap 4 s (Connecting p)
        = (s', Finishing p (if new_peers = [] then NoPeersFound else FoundPeers))
    \<and> crawl_queue s' = crawl_queue s @ [Listening (learn_peer p vm)]
    \<and> discovery s' = discovery s @ (if new_peers = [] then [] else [new_peers])"
proof -
  let ?result = "if new_peers = [] then NoPeersFound else FoundPeers"
  let ?batches = "if new_peers = [] then [] else [new_peers]"
  let ?enc = "\<lambda>m. raw_serialize E (mg, m)"
  have fr: "\<forall>m \<in> set ms. well_framed E (mg, m)" "\<forall>m \<in> set ms'. well_framed E (mg, m)"
    "stream r = v1_frames E mg ms @ v1_frames E mg ms'" using frames by auto
  obtain c tr where con: "connection_connect E K net p (pk_network k) (pk_config k) = Some (Ok c)"
    and hs: "handshaken E K (sent_bytes wire) ?enc (connection_new p (pk_config k) (transport_v1 mg r w)) ms vm c"
    and up: "writes_v1_for mg (conn_writer c)" and rd: "conn_reader c = ReaderV1 tr"
    and tr: "v1_input stream tr = v1_frames E mg ms'" "v1_wf tr" "v1r_magic tr = mg"
    using plaintext_connects [OF route policy sink src(1,2) fr(1,3) mg ex] by blast
  obtain tr' where del: "delivers E (ReaderV1 tr) ms' (ReaderV1 tr')" and tr': "v1_input stream tr' = []" "v1_wf tr'"
    using v1_delivers [OF src(1,2) tr(2), of ms' "[]"] fr(2) tr(1,3) by auto
  have quiet: "\<exists>rd'. transport_reader_read E (ReaderV1 tr') = (Pending, rd')"
    using v1_read_waits [OF src(3) tr'(2,1)] by auto
  obtain c' where got: "get_peers E P T now (peer_timeout cfg) c = Some (Ok found_peers, c')"
    and sent: "sent_bytes wire (conn_writer c')
      = sent_bytes wire (conn_writer c) @ concat (map ?enc (GetAddr # concat (map answers ms')))"
    using connection_get_peers_prompt [OF v1_writes_log [OF sink(1)] v1_writes_succeed [OF sink(2,3)] up,
        unfolded rd, OF del quiet T(1-3) [unfolded P_def] T(4) found(2) [unfolded found(1)]]
    unfolding P_def found(1) by blast
  have peer: "pc_peer P c = learn_peer p vm"
    using hs by (simp add: handshaken_def learn_peer_def P_def connection_peer_connection_def v1_connection_parts)
  have proc: "process E P T now cfg (view_of s) (Some (Inr c)) p = Some (?result, [Listening (learn_peer p vm)], ?batches)"
    using got found(2) new session(1,2) peer by (simp add: process_def view_of_def Let_def)
  obtain s' where "run_task (task_world E P T now cfg (Some (Inr c))) cap 4 s (Connecting p) = (s', Finishing p ?result)"
    "crawl_queue s' = crawl_queue s @ [Listening (learn_peer p vm)]" "discovery s' = discovery s @ ?batches"
    using process_refines_task [OF proc session(3), of cap] by blast
  moreover have "peer_connector_connect E K net k p = Some (Ok c)" using con by (simp add: peer_connector_connect_def)
  moreover have "sent_bytes wire (conn_writer c') = v1_frames E mg
      (create_version_message E K (connection_new p (pk_config k) (transport_v1 mg r w)) (generate_nonce K)
       # version_reply (pk_config k) vm @ GetAddr # concat (map answers ms'))"
    using sent hs by (simp add: handshaken_def v1_connection_parts)
  ultimately show ?thesis using got proc by blast
qed

text \<open>The seed of a crawl announces itself and one other peer, which is the one the task publishes.\<close>

theorem peer_task_from_bytes_witness:
  "\<exists>c s'. peer_connector_connect patient_env example_clock
        [v1_frames patient_env example_magic (patient_greeting @ patient_talk)]
        (peer_connector_new Bitcoin example_config) twin_peer = Some (Ok c)
    \<and> run_task (task_world patient_env (connection_peer_connection patient_env)
          (example_timer (connection_peer_connection patient_env)) 0 two_tasks (Some (Inr c))) 2 4
        (start_session\<lparr>tested_peers := {peer_number 1}\<rparr>) (Connecting twin_peer) = (s', Finishing twin_peer FoundPeers)
    \<and> crawl_queue s' = [Listening (learn_peer twin_peer (example_version 70016 8 77))]
    \<and> discovery s' = discovery start_session @ [[peer_number 2]]"
proof -
  let ?k = "peer_connector_new Bitcoin example_config" and ?P = "connection_peer_connection patient_env"
  let ?s = "start_session\<lparr>tested_peers := {peer_number 1}\<rparr>"
  let ?r = "v1_frames patient_env example_magic (patient_greeting @ patient_talk)"
  have k: "pk_network ?k = Bitcoin" "transport_policy (pk_config ?k) = V2Preferred"
    by (simp_all add: peer_connector_new_def twin_peer_facts)
  have time: "(3 * length patient_talk + 2) * 1 < peer_timeout two_tasks"
    by (simp add: patient_talk_def two_tasks_def from_secs_def)
  have s: "caller_listens ?s" "\<not> stopped (coord ?s)" "length (crawl_queue ?s) < CRAWL_CAPACITY" "crawl_queue ?s = []"
    by (simp_all add: run_simps)
  have new: "[peer_number 2] = filter (\<lambda>q. q \<notin> tested_peers ?s) [peer_number 1, peer_number 2]" by simp
  from peer_task_from_bytes [of patient_env "[?r]" ?k, unfolded k(1), OF patient_route k(2) patient_env_laws(1-3) refl
      patient_env_laws(4-6) _ patient_frames refl patient_exchange example_timer_laws(1,3,2) time
      patient_peers(1) [symmetric] _ new s(1-3)] s(4)
  show ?thesis by fastforce
qed

end
