(* ===== verification/Shared_Cells.thy ===== *)
theory Shared_Cells
  imports Connection_Properties
begin

text \<open>
  The cells of a connection as \<^verbatim>\<open>futures.rs\<close> has them: the peer and the connection state
  are behind \<^verbatim>\<open>Arc<Mutex<_>>\<close>, and the connection, its reader and its writer hold
  pointers to the same cells. Here a store holds the cells and the structs hold addresses;
  the connections of the theory \<^verbatim>\<open>Connection\<close>, which hold the values themselves, are
  shown to be what such a connection looks like. A lock is never held while a call waits, so
  that each access is one step.
\<close>

section \<open>Model\<close>

text \<open>An address is an index; \<^verbatim>\<open>Arc::new(Mutex::new(_))\<close> appends a cell.\<close>

record store =
  peer_cells :: "peer list"
  state_cells :: "connection_state list"

record ('w, 'pw) shared_writer =
  sw_peer :: nat
  sw_writer :: "('w, 'pw) transport_writer"

record ('r, 'pr) shared_reader =
  sr_peer :: nat
  sr_reader :: "('r, 'pr) transport_reader"
  sr_state :: nat

record ('r, 'w, 'pr, 'pw) shared_connection =
  sc_configuration :: connection_configuration
  sc_peer :: nat
  sc_state :: nat
  sc_reader :: "('r, 'pr) shared_reader"
  sc_writer :: "('w, 'pw) shared_writer"

definition shared_writer_new :: "nat \<Rightarrow> ('w, 'pw) transport_writer \<Rightarrow> ('w, 'pw) shared_writer" where
  "shared_writer_new p w = \<lparr>sw_peer = p, sw_writer = w\<rparr>"

definition shared_writer_peer :: "('w, 'pw) shared_writer \<Rightarrow> store \<Rightarrow> peer" where
  "shared_writer_peer sw h = peer_cells h ! sw_peer sw"

definition shared_writer_write ::
  "('net, 'st, 'r, 'w, 'pr, 'pw) runtime \<Rightarrow> ('w, 'pw) shared_writer \<times> store \<Rightarrow> network_message
   \<Rightarrow> (connection_error, unit) outcome \<times> ('w, 'pw) shared_writer \<times> store" where
  "shared_writer_write E s message =
     (let (sw, h) = s; (res, w) = transport_writer_write E (sw_writer sw) message
      in (map_err TransportFailed res, sw\<lparr>sw_writer := w\<rparr>, h))"

definition shared_reader_new ::
  "nat \<Rightarrow> ('r, 'pr) transport_reader \<Rightarrow> nat \<Rightarrow> ('r, 'pr) shared_reader" where
  "shared_reader_new p r st = \<lparr>sr_peer = p, sr_reader = r, sr_state = st\<rparr>"

definition shared_reader_peer :: "('r, 'pr) shared_reader \<Rightarrow> store \<Rightarrow> peer" where
  "shared_reader_peer sr h = peer_cells h ! sr_peer sr"

definition shared_reader_state :: "('r, 'pr) shared_reader \<Rightarrow> store \<Rightarrow> connection_state" where
  "shared_reader_state sr h = state_cells h ! sr_state sr"

definition update_peer :: "nat \<Rightarrow> (peer \<Rightarrow> peer) \<Rightarrow> store \<Rightarrow> store" where
  "update_peer a f h = h\<lparr>peer_cells := (peer_cells h)[a := f (peer_cells h ! a)]\<rparr>"

definition update_state :: "nat \<Rightarrow> (connection_state \<Rightarrow> connection_state) \<Rightarrow> store \<Rightarrow> store" where
  "update_state a f h = h\<lparr>state_cells := (state_cells h)[a := f (state_cells h ! a)]\<rparr>"

definition shared_reader_read ::
  "('net, 'st, 'r, 'w, 'pr, 'pw) runtime \<Rightarrow> ('r, 'pr) shared_reader \<times> store
   \<Rightarrow> (connection_error, network_message) outcome \<times> ('r, 'pr) shared_reader \<times> store" where
  "shared_reader_read E s =
     (let (sr, h) = s; (res, r) = transport_reader_read E (sr_reader sr)
      in and_then (map_err TransportFailed res, sr\<lparr>sr_reader := r\<rparr>, h)
           (\<lambda>message (sr, h).
              (Ok message, sr,
               case message of
                 SendAddrV2 \<Rightarrow>
                   update_state (sr_state sr) (\<lambda>st. st\<lparr>addr_v2 := addr_v2_on_receive (addr_v2 st)\<rparr>) h
               | SendHeaders \<Rightarrow>
                   update_state (sr_state sr) (\<lambda>st. st\<lparr>send_headers := send_headers_on_receive (send_headers st)\<rparr>) h
               | WtxidRelay \<Rightarrow>
                   update_state (sr_state sr) (\<lambda>st. st\<lparr>wtxid_relay := wtxid_relay_on_receive (wtxid_relay st)\<rparr>) h
               | _ \<Rightarrow> h)))"

definition shared_new ::
  "peer \<Rightarrow> connection_configuration \<Rightarrow> ('r, 'w, 'pr, 'pw) transport \<Rightarrow> store
   \<Rightarrow> ('r, 'w, 'pr, 'pw) shared_connection \<times> store" where
  "shared_new p cfg t h =
     (let (receiver, sender) = transport_into_split t;
          st = length (state_cells h); pc = length (peer_cells h);
          h' = h\<lparr>state_cells := state_cells h @ [connection_state_new], peer_cells := peer_cells h @ [p]\<rparr>
      in (\<lparr>sc_configuration = cfg, sc_peer = pc, sc_state = st,
           sc_reader = shared_reader_new pc receiver st, sc_writer = shared_writer_new pc sender\<rparr>, h'))"

definition shared_peer :: "('r, 'w, 'pr, 'pw) shared_connection \<Rightarrow> store \<Rightarrow> peer" where
  "shared_peer sc h = peer_cells h ! sc_peer sc"

definition shared_state :: "('r, 'w, 'pr, 'pw) shared_connection \<Rightarrow> store \<Rightarrow> connection_state" where
  "shared_state sc h = state_cells h ! sc_state sc"

definition shared_write ::
  "('net, 'st, 'r, 'w, 'pr, 'pw) runtime \<Rightarrow> ('r, 'w, 'pr, 'pw) shared_connection \<times> store \<Rightarrow> network_message
   \<Rightarrow> (connection_error, unit) outcome \<times> ('r, 'w, 'pr, 'pw) shared_connection \<times> store" where
  "shared_write E s message =
     (let (sc, h) = s; (res, sw, h') = shared_writer_write E (sc_writer sc, h) message
      in (res, sc\<lparr>sc_writer := sw\<rparr>, h'))"

definition shared_read ::
  "('net, 'st, 'r, 'w, 'pr, 'pw) runtime \<Rightarrow> ('r, 'w, 'pr, 'pw) shared_connection \<times> store
   \<Rightarrow> (connection_error, network_message) outcome \<times> ('r, 'w, 'pr, 'pw) shared_connection \<times> store" where
  "shared_read E s =
     (let (sc, h) = s; (res, sr, h') = shared_reader_read E (sc_reader sc, h)
      in (res, sc\<lparr>sc_reader := sr\<rparr>, h'))"

definition shared_into_split ::
  "('r, 'w, 'pr, 'pw) shared_connection \<Rightarrow> ('r, 'pr) shared_reader \<times> ('w, 'pw) shared_writer" where
  "shared_into_split sc = (sc_reader sc, sc_writer sc)"

definition shared_create_version_message ::
  "('net, 'st, 'r, 'w, 'pr, 'pw) runtime \<Rightarrow> clock \<Rightarrow> ('r, 'w, 'pr, 'pw) shared_connection \<Rightarrow> store \<Rightarrow> u64
   \<Rightarrow> network_message" where
  "shared_create_version_message E K sc h nonce =
     (let cfg = sc_configuration sc;
          peer_lock = peer_cells h ! sc_peer sc;
          receiver_services =
            (case services peer_lock of KnownServices flags \<Rightarrow> flags | UnknownServices \<Rightarrow> flag_NONE E);
          receiver_socket_addr = address_to_socket (address peer_lock) (port peer_lock);
          sender_socket_addr = address_to_socket (sender_address cfg) (sender_port cfg);
          user_agent_string =
            (case user_agent cfg of
               Some ua \<Rightarrow> user_agent_as_str ua
             | None \<Rightarrow> user_agent_as_str default_user_agent)
      in Version
           \<lparr>vm_version = unwrap_or (protocol_version cfg) MIN_PROTOCOL_VERSION,
            vm_services = config_services cfg,
            vm_timestamp = unix_timestamp K,
            vm_receiver = address_new E receiver_socket_addr receiver_services,
            vm_sender = address_new E sender_socket_addr (config_services cfg),
            vm_nonce = nonce,
            vm_user_agent = user_agent_string,
            vm_start_height = start_height cfg,
            vm_relay = relay cfg\<rparr>)"

text \<open>A write followed by an update of the state cell, if the feature is to be announced.\<close>

definition shared_send_feature ::
  "('net, 'st, 'r, 'w, 'pr, 'pw) runtime \<Rightarrow> bool \<Rightarrow> network_message \<Rightarrow> (connection_state \<Rightarrow> connection_state)
   \<Rightarrow> ('r, 'w, 'pr, 'pw) shared_connection \<times> store
   \<Rightarrow> (connection_error, unit) outcome \<times> ('r, 'w, 'pr, 'pw) shared_connection \<times> store" where
  "shared_send_feature E enabled message f s =
     (if enabled
      then and_then (shared_write E s message) (\<lambda>_ (sc, h). (Ok (), sc, update_state (sc_state sc) f h))
      else (Ok (), s))"

definition shared_send_negotiation_messages ::
  "('net, 'st, 'r, 'w, 'pr, 'pw) runtime \<Rightarrow> ('r, 'w, 'pr, 'pw) shared_connection \<times> store \<Rightarrow> u32
   \<Rightarrow> (connection_error, unit) outcome \<times> ('r, 'w, 'pr, 'pw) shared_connection \<times> store" where
  "shared_send_negotiation_messages E s effective_version =
     (let features = feature_preferences (sc_configuration (fst s))
      in and_then
           (shared_send_feature E
              (enable_addrv2 features \<and> ADDRV2_MIN_PROTOCOL_VERSION \<le> effective_version) SendAddrV2
              (\<lambda>st. st\<lparr>addr_v2 := addr_v2_on_send (addr_v2 st)\<rparr>) s)
           (\<lambda>_ s. and_then
              (shared_send_feature E
                 (enable_sendheaders features \<and> SENDHEADERS_MIN_PROTOCOL_VERSION \<le> effective_version) SendHeaders
                 (\<lambda>st. st\<lparr>send_headers := send_headers_on_send (send_headers st)\<rparr>) s)
              (\<lambda>_ s.
                 shared_send_feature E
                   (enable_wtxidrelay features \<and> WTXID_RELAY_MIN_PROTOCOL_VERSION \<le> effective_version) WtxidRelay
                   (\<lambda>st. st\<lparr>wtxid_relay := wtxid_relay_on_send (wtxid_relay st)\<rparr>) s)))"

definition shared_handle_version_message ::
  "('net, 'st, 'r, 'w, 'pr, 'pw) runtime \<Rightarrow> ('r, 'w, 'pr, 'pw) shared_connection \<times> store \<Rightarrow> version_message
   \<Rightarrow> u64 \<Rightarrow> handshake_state
   \<Rightarrow> (connection_error, handshake_state) outcome \<times> ('r, 'w, 'pr, 'pw) shared_connection \<times> store" where
  "shared_handle_version_message E s vm our_nonce state =
     (if vm_nonce vm = our_nonce then (Err ConnectionLoop, s)
      else if state = VersionSent \<or> state = VerackReceived then
        let (sc, h) = s;
            h1 = update_peer (sc_peer sc)
                   (\<lambda>p. p\<lparr>services := KnownServices (vm_services vm), version := KnownVersion (vm_version vm)\<rparr>) h;
            local_version = unwrap_or (protocol_version (sc_configuration sc)) MIN_PROTOCOL_VERSION;
            effective_version = min local_version (vm_version vm);
            h2 = update_state (sc_state sc)
                   (\<lambda>st. st\<lparr>effective_protocol_version := KnownVersion effective_version\<rparr>) h1
        in and_then (shared_send_negotiation_messages E (sc, h2) effective_version)
             (\<lambda>_ s. and_then (shared_write E s Verack)
                (\<lambda>_ s. (Ok (if state = VerackReceived then Complete else VersionReceived), s)))
      else (Ok state, s))"

definition shared_handshake_message ::
  "('net, 'st, 'r, 'w, 'pr, 'pw) runtime \<Rightarrow> u64 \<Rightarrow> handshake_state \<Rightarrow> network_message
   \<Rightarrow> ('r, 'w, 'pr, 'pw) shared_connection \<times> store
   \<Rightarrow> (connection_error, handshake_state) outcome \<times> ('r, 'w, 'pr, 'pw) shared_connection \<times> store" where
  "shared_handshake_message E nonce state message s =
     (case message of
        Version vm \<Rightarrow> shared_handle_version_message E s vm nonce state
      | Verack \<Rightarrow> (Ok (handle_verack_message state), s)
      | _ \<Rightarrow> (Ok state, s))"

partial_function (option) shared_handshake_loop ::
  "('net, 'st, 'r, 'w, 'pr, 'pw) runtime \<Rightarrow> u64 \<Rightarrow> handshake_state
   \<Rightarrow> ('r, 'w, 'pr, 'pw) shared_connection \<times> store
   \<Rightarrow> ((connection_error, unit) outcome \<times> ('r, 'w, 'pr, 'pw) shared_connection \<times> store) option" where
  "shared_handshake_loop E nonce state s =
     (if state = Complete then Some (Ok (), s)
      else (case shared_read E s of
              (Err e, s1) \<Rightarrow> Some (Err e, s1)
            | (Pending, s1) \<Rightarrow> Some (Pending, s1)
            | (Ok message, s1) \<Rightarrow>
                (case shared_handshake_message E nonce state message s1 of
                   (Err e, s2) \<Rightarrow> Some (Err e, s2)
                 | (Pending, s2) \<Rightarrow> Some (Pending, s2)
                 | (Ok state', s2) \<Rightarrow> shared_handshake_loop E nonce state' s2)))"

definition shared_perform_handshake ::
  "('net, 'st, 'r, 'w, 'pr, 'pw) runtime \<Rightarrow> clock \<Rightarrow> ('r, 'w, 'pr, 'pw) shared_connection \<times> store
   \<Rightarrow> ((connection_error, unit) outcome \<times> ('r, 'w, 'pr, 'pw) shared_connection \<times> store) option" where
  "shared_perform_handshake E K s =
     (let nonce = generate_nonce K
      in (case shared_write E s (shared_create_version_message E K (fst s) (snd s) nonce) of
            (Ok _, s1) \<Rightarrow> shared_handshake_loop E nonce VersionSent s1
          | (Err e, s1) \<Rightarrow> Some (Err e, s1)
          | (Pending, s1) \<Rightarrow> Some (Pending, s1)))"

text \<open>\<^verbatim>\<open>connect\<close> and \<^verbatim>\<open>accept\<close>; the store stays when the call fails.\<close>

definition shared_establish ::
  "('net, 'st, 'r, 'w, 'pr, 'pw) runtime \<Rightarrow> clock \<Rightarrow> connection_configuration \<Rightarrow> store
   \<Rightarrow> (connection_error, ('r, 'w, 'pr, 'pw) transport \<times> peer) outcome
   \<Rightarrow> ((connection_error, ('r, 'w, 'pr, 'pw) shared_connection) outcome \<times> store) option" where
  "shared_establish E K cfg h established =
     (case established of
        Ok (t, p) \<Rightarrow>
          map_option (\<lambda>(res, sc, h'). (case res of Ok _ \<Rightarrow> Ok sc | Err e \<Rightarrow> Err e | Pending \<Rightarrow> Pending, h'))
            (shared_perform_handshake E K (shared_new p cfg t h))
      | Err e \<Rightarrow> Some (Err e, h)
      | Pending \<Rightarrow> Some (Pending, h))"

definition shared_connect ::
  "('net, 'st, 'r, 'w, 'pr, 'pw) runtime \<Rightarrow> clock \<Rightarrow> 'net \<Rightarrow> peer \<Rightarrow> network \<Rightarrow> connection_configuration
   \<Rightarrow> store \<Rightarrow> ((connection_error, ('r, 'w, 'pr, 'pw) shared_connection) outcome \<times> store) option" where
  "shared_connect E K net p network cfg h =
     shared_establish E K cfg h
       (case fst (tcp_transport_connect E net p network (transport_policy cfg)) of
          Ok t \<Rightarrow> Ok (t, p) | Err e \<Rightarrow> Err e | Pending \<Rightarrow> Pending)"

definition shared_accept ::
  "('net, 'st, 'r, 'w, 'pr, 'pw) runtime \<Rightarrow> clock \<Rightarrow> 'st \<Rightarrow> network \<Rightarrow> connection_configuration
   \<Rightarrow> store \<Rightarrow> ((connection_error, ('r, 'w, 'pr, 'pw) shared_connection) outcome \<times> store) option" where
  "shared_accept E K st network cfg h =
     shared_establish E K cfg h (tcp_transport_accept E st network (transport_policy cfg))"

section \<open>What the connection looks like\<close>

text \<open>
  The pointers of a connection and of its halves go to the same cells; \<open>view\<close> reads the cells.
\<close>

fun aliased :: "('r, 'w, 'pr, 'pw) shared_connection \<times> store \<Rightarrow> bool" where
  "aliased (sc, h) \<longleftrightarrow>
     sc_peer sc < length (peer_cells h) \<and> sc_state sc < length (state_cells h)
     \<and> sr_peer (sc_reader sc) = sc_peer sc \<and> sw_peer (sc_writer sc) = sc_peer sc
     \<and> sr_state (sc_reader sc) = sc_state sc"

fun view :: "('r, 'w, 'pr, 'pw) shared_connection \<times> store \<Rightarrow> ('r, 'w, 'pr, 'pw) connection" where
  "view (sc, h) =
     \<lparr>configuration = sc_configuration sc, conn_peer = peer_cells h ! sc_peer sc,
      conn_state = state_cells h ! sc_state sc, conn_reader = sr_reader (sc_reader sc),
      conn_writer = sw_writer (sc_writer sc)\<rparr>"

text \<open>A step that changes no cell but those of its connection and moves no pointer.\<close>

fun confined ::
  "('r, 'w, 'pr, 'pw) shared_connection \<times> store \<Rightarrow> ('r, 'w, 'pr, 'pw) shared_connection \<times> store \<Rightarrow> bool" where
  "confined (sc, h) (sc', h') \<longleftrightarrow>
     sc_peer sc' = sc_peer sc \<and> sc_state sc' = sc_state sc
     \<and> (\<exists>p st. peer_cells h' = (peer_cells h)[sc_peer sc := p] \<and> state_cells h' = (state_cells h)[sc_state sc := st])"

definition refines ::
  "('r, 'w, 'pr, 'pw) shared_connection \<times> store
   \<Rightarrow> ('e, 'a) outcome \<times> ('r, 'w, 'pr, 'pw) shared_connection \<times> store
   \<Rightarrow> ('e, 'a) outcome \<times> ('r, 'w, 'pr, 'pw) connection \<Rightarrow> bool" where
  "refines s x y \<longleftrightarrow> fst x = fst y \<and> view (snd x) = snd y \<and> aliased (snd x) \<and> confined s (snd x)"

lemma confined_same_store:
  "sc_peer sc' = sc_peer sc \<Longrightarrow> sc_state sc' = sc_state sc \<Longrightarrow> confined (sc, h) (sc', h)"
  by (simp del: ex_simps) (metis list_update_id)

lemma confined_refl [simp]: "confined s s"
  by (cases s) (simp add: confined_same_store del: confined.simps)

lemma confined_trans: "confined s t \<Longrightarrow> confined t u \<Longrightarrow> confined s u"
  by (cases s; cases t; cases u) (metis confined.simps list_update_overwrite)

lemma refinesI: "res = res' \<Longrightarrow> view s' = c \<Longrightarrow> aliased s' \<Longrightarrow> confined s s' \<Longrightarrow> refines s (res, s') (res', c)"
  by (simp add: refines_def)

lemma refinesD:
  assumes "refines s (res, s') (res', c)"
  shows "view s' = c" "aliased s'" "confined s s'"
  using assms by (simp_all add: refines_def)

lemma refines_from: "refines t x y \<Longrightarrow> confined s t \<Longrightarrow> refines s x y"
  unfolding refines_def by (blast intro: confined_trans)

lemma refines_return: "aliased s \<Longrightarrow> refines s (res, s) (res, view s)"
  by (simp add: refines_def)

lemma refines_and_then:
  assumes "refines s x y"
    and "\<And>a s'. x = (Ok a, s') \<Longrightarrow> aliased s' \<Longrightarrow> confined s s' \<Longrightarrow> refines s' (f a s') (g a (view s'))"
  shows "refines s (and_then x f) (and_then y g)"
proof -
  obtain res s' where x: "x = (res, s')" and y: "y = (res, view s')" and ok: "aliased s'" "confined s s'"
    using assms(1) by (cases x; cases y) (auto simp: refines_def)
  show ?thesis
  proof (cases res)
    case (Ok a)
    then have "refines s' (f a s') (g a (view s'))" using assms(2) x ok by blast
    then show ?thesis using confined_trans [OF ok(2)] x y Ok by (auto simp: refines_def)
  qed (use x y ok in \<open>simp_all add: refines_def\<close>)
qed

section \<open>Each operation\<close>

lemma view_sel [simp]:
  "configuration (view s) = sc_configuration (fst s)" "conn_peer (view s) = shared_peer (fst s) (snd s)"
  "conn_state (view s) = shared_state (fst s) (snd s)"
  by (cases s; simp add: shared_peer_def shared_state_def)+

lemma update_state_refines:
  assumes "aliased (sc, h)"
  shows "refines (sc, h) (Ok (), sc, update_state (sc_state sc) f h)
     (Ok (), (view (sc, h))\<lparr>conn_state := f (conn_state (view (sc, h)))\<rparr>)"
  using assms by (intro refinesI) (auto simp: update_state_def shared_state_def intro: exI [of _ "peer_cells h ! sc_peer sc"])

lemma update_peer_refines:
  assumes "aliased (sc, h)"
  shows "refines (sc, h) (Ok (), sc, update_peer (sc_peer sc) f h)
     (Ok (), (view (sc, h))\<lparr>conn_peer := f (conn_peer (view (sc, h)))\<rparr>)"
  using assms by (intro refinesI) (auto simp: update_peer_def shared_peer_def intro: exI [of _ "state_cells h ! sc_state sc"])

lemma shared_write_refines:
  assumes "aliased s"
  shows "refines s (shared_write E s m) (connection_write E (view s) m)"
proof -
  obtain sc h where s: "s = (sc, h)" by (cases s)
  obtain res w where w: "transport_writer_write E (sw_writer (sc_writer sc)) m = (res, w)" by fastforce
  have "shared_write E s m = (map_err TransportFailed res, sc\<lparr>sc_writer := (sc_writer sc)\<lparr>sw_writer := w\<rparr>\<rparr>, h)"
    using w by (simp add: s shared_write_def shared_writer_write_def)
  moreover have "connection_write E (view s) m = (map_err TransportFailed res, (view s)\<lparr>conn_writer := w\<rparr>)"
    using w by (simp add: s connection_write_eq)
  ultimately show ?thesis
    using assms s by (simp add: refines_def confined_same_store del: confined.simps)
qed

lemma shared_read_note:
  "shared_reader_read E (sr, h) =
     (case transport_reader_read E (sr_reader sr) of
        (Ok m, rd) \<Rightarrow> (Ok m, sr\<lparr>sr_reader := rd\<rparr>, update_state (sr_state sr) (\<lambda>st. note_received st m) h)
      | (Err e, rd) \<Rightarrow> (Err (TransportFailed e), sr\<lparr>sr_reader := rd\<rparr>, h)
      | (Pending, rd) \<Rightarrow> (Pending, sr\<lparr>sr_reader := rd\<rparr>, h))"
  by (auto simp: shared_reader_read_def note_received_def update_state_def
      split: prod.splits outcome.splits network_message.splits)

lemma shared_read_refines:
  assumes "aliased s"
  shows "refines s (shared_read E s) (connection_read E (view s))"
proof -
  obtain sc h where s: "s = (sc, h)" by (cases s)
  obtain res rd where rd: "transport_reader_read E (sr_reader (sc_reader sc)) = (res, rd)" by fastforce
  let ?sc = "sc\<lparr>sc_reader := (sc_reader sc)\<lparr>sr_reader := rd\<rparr>\<rparr>"
  have al: "aliased (?sc, h)" and st: "sr_state (sc_reader sc) = sc_state sc" using assms s by simp_all
  have conf: "confined s (?sc, h)" unfolding s by (rule confined_same_store) simp_all
  have view: "view (?sc, h) = (view s)\<lparr>conn_reader := rd\<rparr>" using s by simp
  show ?thesis
  proof (cases res)
    case (Ok m)
    have "refines (?sc, h) (Ok (), ?sc, update_state (sc_state ?sc) (\<lambda>st. note_received st m) h)
        (Ok (), (view (?sc, h))\<lparr>conn_state := note_received (conn_state (view (?sc, h))) m\<rparr>)"
      by (rule update_state_refines [OF al])
    then show ?thesis
      using confined_trans [OF conf] st rd Ok
      by (auto simp: refines_def s shared_read_def shared_read_note connection_read_eq)
  qed (use al conf st rd in \<open>simp_all add: refines_def s shared_read_def shared_read_note connection_read_eq\<close>)
qed

lemma shared_send_feature_refines:
  assumes "aliased s"
  shows "refines s (shared_send_feature E b m f s)
    (if b then and_then (connection_write E (view s) m) (\<lambda>_ c. (Ok (), c\<lparr>conn_state := f (conn_state c)\<rparr>))
     else (Ok (), view s))"
  unfolding shared_send_feature_def
  using refines_return [OF assms]
  by (auto intro!: refines_and_then shared_write_refines [OF assms] update_state_refines simp del: aliased.simps view_sel)

lemma shared_version_message:
  "shared_create_version_message E K sc h n = create_version_message E K (view (sc, h)) n"
  by (simp add: shared_create_version_message_def create_version_message_def shared_peer_def Let_def)

lemma shared_negotiation_refines:
  assumes "aliased s"
  shows "refines s (shared_send_negotiation_messages E s v) (send_negotiation_messages E (view s) v)"
proof -
  have feature: "refines t (shared_send_feature E b m f t)
    (if b then and_then (connection_write E (view t) m) (\<lambda>_ c. (Ok (), c\<lparr>conn_state := f (conn_state c)\<rparr>))
     else (Ok (), view t))" if "aliased t" for b m f t
    by (rule shared_send_feature_refines [OF that])
  show ?thesis
    unfolding shared_send_negotiation_messages_def send_negotiation_messages_def Let_def view_sel(1)
    by (intro refines_and_then feature assms)
qed

lemma shared_handle_version_refines:
  assumes "aliased s"
  shows "refines s (shared_handle_version_message E s vm n state) (handle_version_message E (view s) vm n state)"
proof (cases "vm_nonce vm \<noteq> n \<and> (state = VersionSent \<or> state = VerackReceived)")
  case True
  obtain sc h where s: "s = (sc, h)" by (cases s)
  define v where "v = min (unwrap_or (protocol_version (sc_configuration sc)) MIN_PROTOCOL_VERSION) (vm_version vm)"
  let ?f = "\<lambda>p. p\<lparr>services := KnownServices (vm_services vm), version := KnownVersion (vm_version vm)\<rparr>"
  let ?g = "\<lambda>st. st\<lparr>effective_protocol_version := KnownVersion v\<rparr>"
  define h1 where "h1 = update_peer (sc_peer sc) ?f h"
  define h2 where "h2 = update_state (sc_state sc) ?g h1"
  have "refines (sc, h) (Ok (), sc, h1) (Ok (), (view (sc, h))\<lparr>conn_peer := ?f (conn_peer (view (sc, h)))\<rparr>)"
    unfolding h1_def by (rule update_peer_refines) (use assms s in simp)
  note 1 = refinesD [OF this]
  have "refines (sc, h1) (Ok (), sc, h2) (Ok (), (view (sc, h1))\<lparr>conn_state := ?g (conn_state (view (sc, h1)))\<rparr>)"
    unfolding h2_def by (rule update_state_refines [OF 1(2)])
  note 2 = refinesD [OF this]
  let ?rest = "\<lambda>s2. and_then (shared_send_negotiation_messages E s2 v)
      (\<lambda>_ s. and_then (shared_write E s Verack)
        (\<lambda>_ s. (Ok (if state = VerackReceived then Complete else VersionReceived), s)))"
  have "refines (sc, h2) (?rest (sc, h2)) (and_then (send_negotiation_messages E (view (sc, h2)) v)
      (\<lambda>_ c. and_then (connection_write E c Verack)
        (\<lambda>_ c. (Ok (if state = VerackReceived then Complete else VersionReceived), c))))"
    by (intro refines_and_then shared_negotiation_refines shared_write_refines refines_return 2(2))
  then have "refines s (?rest (sc, h2)) (and_then (send_negotiation_messages E (view (sc, h2)) v)
      (\<lambda>_ c. and_then (connection_write E c Verack)
        (\<lambda>_ c. (Ok (if state = VerackReceived then Complete else VersionReceived), c))))"
    unfolding s by (rule refines_from) (rule confined_trans [OF 1(3) 2(3)])
  moreover have "shared_handle_version_message E s vm n state = ?rest (sc, h2)"
    using True by (simp add: shared_handle_version_message_def s h2_def h1_def v_def Let_def)
  moreover have "handle_version_message E (view s) vm n state =
      and_then (send_negotiation_messages E (view (sc, h2)) v)
      (\<lambda>_ c. and_then (connection_write E c Verack)
        (\<lambda>_ c. (Ok (if state = VerackReceived then Complete else VersionReceived), c)))"
    using True unfolding 2(1) 1(1) by (simp add: handle_version_message_def v_def Let_def s)
  ultimately show ?thesis by (simp only:)
next
  case False
  then show ?thesis
    using refines_return [OF assms] by (auto simp: shared_handle_version_message_def handle_version_message_def)
qed

lemma shared_message_refines:
  assumes "aliased s"
  shows "refines s (shared_handshake_message E n state m s) (handshake_message E n state m (view s))"
  using shared_handle_version_refines [OF assms] refines_return [OF assms]
  by (cases m) (simp_all add: shared_handshake_message_def handshake_message_def)

section \<open>The handshake\<close>

declare aliased.simps [simp del] view.simps [simp del] confined.simps [simp del]

text \<open>One turn of the loops, side by side.\<close>

lemma shared_turn:
  assumes "aliased s" and "shared_read E s = (Ok m, s1)" and "shared_handshake_message E n state m s1 = (res, s2)"
  shows "connection_read E (view s) = (Ok m, view s1)"
    "handshake_message E n state m (view s1) = (res, view s2)" "aliased s2" "confined s s2"
proof -
  have "refines s (Ok m, s1) (connection_read E (view s))"
    using shared_read_refines [OF assms(1), of E] assms(2) by simp
  then have 1: "connection_read E (view s) = (Ok m, view s1)" "aliased s1" "confined s s1"
    by (auto simp: refines_def prod_eq_iff)
  have "refines s1 (res, s2) (handshake_message E n state m (view s1))"
    using shared_message_refines [OF 1(2), of E n state m] assms(3) by simp
  with 1 show "connection_read E (view s) = (Ok m, view s1)"
    "handshake_message E n state m (view s1) = (res, view s2)" "aliased s2" "confined s s2"
    using confined_trans [of s s1 s2] by (auto simp: refines_def prod_eq_iff)
qed

lemma shared_read_stops:
  assumes "aliased s" and "shared_read E s = (res, s1)"
  shows "connection_read E (view s) = (res, view s1)" "aliased s1" "confined s s1"
  using shared_read_refines [OF assms(1), of E] assms(2) by (auto simp: refines_def prod_eq_iff)

lemma shared_loop_sound:
  assumes "shared_handshake_loop E n state s = Some x"
  shows "aliased s \<longrightarrow> (\<exists>y. handshake_loop E n state (view s) = Some y \<and> refines s x y)"
  using assms
proof (induction rule: shared_handshake_loop.raw_induct [rotated 1, consumes 1])
  case (1 loop E n state s x)
  have "\<exists>y. handshake_loop E n state (view s) = Some y \<and> refines s x y" if al: "aliased s"
  proof (cases "state = Complete")
    case True
    with 1(2) al show ?thesis by (auto simp: handshake_loop.simps [of _ _ Complete] intro: refines_return)
  next
    case False
    obtain res s1 where rd: "shared_read E s = (res, s1)" by (rule prod.exhaust)
    note R = shared_read_stops [OF al rd]
    show ?thesis
    proof (cases "\<exists>m state' s2. res = Ok m \<and> shared_handshake_message E n state m s1 = (Ok state', s2)")
      case True
      then obtain m state' s2 where m: "res = Ok m" and hm: "shared_handshake_message E n state m s1 = (Ok state', s2)"
        by blast
      note T = shared_turn [OF al rd [unfolded m] hm]
      have "loop E n state' s2 = Some x" using 1(2) False rd m hm by simp
      with 1(1) T(3) obtain y where "handshake_loop E n state' (view s2) = Some y" "refines s2 x y" by blast
      with False T show ?thesis
        by (auto simp: handshake_loop.simps [of E n state] intro: refines_from)
    next
      case stop: False
      then show ?thesis
        using 1(2) False rd R shared_turn [OF al, of E _ s1 n state]
        by (subst handshake_loop.simps)
          (auto simp: refines_def split: outcome.splits prod.splits simp del: view.simps aliased.simps)
    qed
  qed
  then show ?case by blast
qed

lemma shared_loop_complete:
  assumes "handshake_loop E n state c = Some y"
  shows "\<forall>s. aliased s \<and> view s = c \<longrightarrow> shared_handshake_loop E n state s \<noteq> None"
  using assms
proof (induction rule: handshake_loop.raw_induct [rotated 1, consumes 1])
  case (1 loop E n state c y)
  have "shared_handshake_loop E n state s \<noteq> None" if al: "aliased s" and c: "view s = c" for s
  proof (cases "state = Complete")
    case True
    then show ?thesis by (simp add: shared_handshake_loop.simps [of _ _ Complete])
  next
    case False
    obtain res s1 where rd: "shared_read E s = (res, s1)" by (rule prod.exhaust)
    show ?thesis
    proof (cases "\<exists>m state' s2. res = Ok m \<and> shared_handshake_message E n state m s1 = (Ok state', s2)")
      case True
      then obtain m state' s2 where m: "res = Ok m" and hm: "shared_handshake_message E n state m s1 = (Ok state', s2)"
        by blast
      note T = shared_turn [OF al rd [unfolded m] hm]
      have "loop E n state' (view s2) = Some y" using 1(2) False T c by simp
      with 1(1) T(3) have "shared_handshake_loop E n state' s2 \<noteq> None" by blast
      with False rd m hm show ?thesis by (simp add: shared_handshake_loop.simps [of E n state])
    next
      case stop: False
      with False rd show ?thesis
        by (subst shared_handshake_loop.simps) (auto split: outcome.splits prod.splits)
    qed
  qed
  then show ?case by blast
qed

lemma shared_loop_refines:
  assumes "aliased s"
  shows "rel_option (refines s) (shared_handshake_loop E n state s) (handshake_loop E n state (view s))"
proof (cases "shared_handshake_loop E n state s")
  case None
  then have "handshake_loop E n state (view s) = None"
    using assms shared_loop_complete [of E n state "view s"] by (metis not_Some_eq)
  with None show ?thesis by simp
next
  case (Some x)
  with assms shared_loop_sound [OF Some] show ?thesis by auto
qed

lemma shared_handshake_refines:
  assumes "aliased s"
  shows "rel_option (refines s) (shared_perform_handshake E K s) (perform_handshake E K (view s))"
proof -
  obtain sc h where s: "s = (sc, h)" by (rule prod.exhaust)
  let ?m = "create_version_message E K (view s) (generate_nonce K)"
  obtain res s1 where w: "shared_write E s ?m = (res, s1)" by (rule prod.exhaust)
  have W: "connection_write E (view s) ?m = (res, view s1)" "aliased s1" "confined s s1"
    using shared_write_refines [OF assms, of E ?m] w by (auto simp: refines_def prod_eq_iff)
  have msg: "shared_create_version_message E K (fst s) (snd s) (generate_nonce K) = ?m"
    by (simp add: s shared_version_message)
  show ?thesis
  proof (cases res)
    case (Ok u)
    have "rel_option (refines s) (shared_handshake_loop E (generate_nonce K) VersionSent s1)
        (handshake_loop E (generate_nonce K) VersionSent (view s1))"
      by (rule option.rel_mono_strong [OF shared_loop_refines [OF W(2)]]) (rule refines_from [OF _ W(3)])
    with Ok w W msg show ?thesis by (simp add: shared_perform_handshake_def perform_handshake_def)
  qed (use w W msg in \<open>simp_all add: shared_perform_handshake_def perform_handshake_def refines_def\<close>)
qed

section \<open>Establishing a connection\<close>

text \<open>The cells that a store had are as they were, whatever was added.\<close>

definition extends :: "store \<Rightarrow> store \<Rightarrow> bool" where
  "extends h h' \<longleftrightarrow> take (length (peer_cells h)) (peer_cells h') = peer_cells h
     \<and> take (length (state_cells h)) (state_cells h') = state_cells h"

text \<open>
  What a program can see of a connection: through the connection itself and, when it is
  split, through each of its halves.
\<close>

definition implements :: "('r, 'w, 'pr, 'pw) shared_connection \<Rightarrow> store \<Rightarrow> ('r, 'w, 'pr, 'pw) connection \<Rightarrow> bool" where
  "implements sc h c \<longleftrightarrow>
     sc_configuration sc = configuration c \<and> shared_peer sc h = conn_peer c \<and> shared_state sc h = conn_state c
     \<and> (let (sr, sw) = shared_into_split sc
        in shared_reader_peer sr h = conn_peer c \<and> shared_reader_state sr h = conn_state c
           \<and> shared_writer_peer sw h = conn_peer c
           \<and> sr_reader sr = conn_reader c \<and> sw_writer sw = conn_writer c)"

lemma aliased_implements: "aliased (sc, h) \<Longrightarrow> implements sc h (view (sc, h))"
  by (simp add: aliased.simps view.simps implements_def shared_into_split_def shared_peer_def shared_state_def shared_reader_peer_def
      shared_reader_state_def shared_writer_peer_def)

lemma shared_new_view:
  "aliased (shared_new p cfg t h)" "view (shared_new p cfg t h) = connection_new p cfg t"
  by (auto simp: aliased.simps view.simps shared_new_def connection_new_def shared_reader_new_def shared_writer_new_def Let_def
      split: prod.splits)

lemma shared_new_extends:
  assumes "confined (shared_new p cfg t h) (sc, h')" shows "extends h h'"
  using assms by (auto simp: confined.simps shared_new_def Let_def extends_def split: prod.splits)

lemma shared_establish_refines:
  "rel_option (\<lambda>(res, h') res'. rel_outcome (=) (\<lambda>sc c. implements sc h' c \<and> aliased (sc, h')) res res' \<and> extends h h')
     (shared_establish E K cfg h est)
     (case est of Ok (t, p) \<Rightarrow> finish_handshake (perform_handshake E K (connection_new p cfg t))
      | Err e \<Rightarrow> Some (Err e) | Pending \<Rightarrow> Some Pending)"
proof (cases est)
  case (Ok tp)
  obtain t p where tp: "tp = (t, p)" by (rule prod.exhaust)
  let ?s = "shared_new p cfg t h"
  have "rel_option (refines ?s) (shared_perform_handshake E K ?s) (perform_handshake E K (connection_new p cfg t))"
    using shared_handshake_refines [OF shared_new_view(1)] shared_new_view(2) by metis
  moreover have "rel_outcome (=) (\<lambda>sc c. implements sc (snd (snd x)) c \<and> aliased (sc, snd (snd x)))
        (case fst x of Ok _ \<Rightarrow> Ok (fst (snd x)) | Err e \<Rightarrow> Err e | Pending \<Rightarrow> Pending)
        (case fst y of Ok _ \<Rightarrow> Ok (snd y) | Err e \<Rightarrow> Err e | Pending \<Rightarrow> Pending)
      \<and> extends h (snd (snd x))" if "refines ?s x y" for x y
    using that aliased_implements [of "fst (snd x)" "snd (snd x)"]
      shared_new_extends [of p cfg t h "fst (snd x)" "snd (snd x)"]
    by (auto simp: refines_def split: outcome.splits)
  ultimately show ?thesis
    by (simp add: Ok tp shared_establish_def finish_handshake_def option.rel_map case_prod_unfold)
      (blast intro: option.rel_mono_strong)
qed (simp_all add: shared_establish_def extends_def)

text \<open>
  C6. The shared cells are an implementation of connections that hold their peer and state.
  Whatever the remote side does, \<open>connect\<close> and \<open>accept\<close> over the store return, or do not
  return, with the result they have without it. The peer and the state that the handshake
  has learned are seen through the connection and, after \<open>into_split\<close>, through the reader and
  the writer alike, and the cells of all other connections are untouched, also when the
  handshake fails.
\<close>

theorem shared_connections_refine:
  "rel_option (\<lambda>(res, h') res'. rel_outcome (=) (\<lambda>sc c. implements sc h' c) res res' \<and> extends h h')
     (shared_connect E K net p network cfg h) (connection_connect E K net p network cfg)
   \<and> rel_option (\<lambda>(res, h') res'. rel_outcome (=) (\<lambda>sc c. implements sc h' c) res res' \<and> extends h h')
     (shared_accept E K st network cfg h) (connection_accept E K st network cfg)"
proof -
  have weaken: "rel_option (\<lambda>(res, h') res'. rel_outcome (=) (\<lambda>sc c. implements sc h' c) res res' \<and> extends h h') x y"
    if "rel_option (\<lambda>(res, h') res'. rel_outcome (=) (\<lambda>sc c. implements sc h' c \<and> aliased (sc, h')) res res' \<and> extends h h') x y"
    for x y
    using that by (rule option.rel_mono_strong) (auto elim: outcome.rel_mono_strong)
  show ?thesis
    using weaken [OF shared_establish_refines [of h E K cfg
        "case fst (tcp_transport_connect E net p network (transport_policy cfg)) of
           Ok t \<Rightarrow> Ok (t, p) | Err e \<Rightarrow> Err e | Pending \<Rightarrow> Pending"]]
      weaken [OF shared_establish_refines [of h E K cfg "tcp_transport_accept E st network (transport_policy cfg)"]]
    by (auto simp: shared_connect_def shared_accept_def connection_connect_def connection_accept_def
        split: outcome.splits)
qed

section \<open>The halves at work\<close>

text \<open>
  What the two tasks that own the halves do, in the order in which it happens; any task may
  look at the peer or the state in between. The same on a connection that was not split.
\<close>

datatype half_call = CallRead | CallWrite network_message | AskReaderPeer | AskReaderState | AskWriterPeer

datatype half_answer =
    Received "(connection_error, network_message) outcome"
  | Written "(connection_error, unit) outcome"
  | IsPeer peer
  | IsState connection_state

fun shared_halves_run ::
  "('net, 'st, 'r, 'w, 'pr, 'pw) runtime \<Rightarrow> ('r, 'pr) shared_reader \<Rightarrow> ('w, 'pw) shared_writer \<Rightarrow> store
   \<Rightarrow> half_call list \<Rightarrow> half_answer list \<times> ('r, 'pr) shared_reader \<times> ('w, 'pw) shared_writer \<times> store" where
  "shared_halves_run E sr sw h [] = ([], sr, sw, h)"
| "shared_halves_run E sr sw h (CallRead # cs) =
     (let (res, sr', h') = shared_reader_read E (sr, h)
      in map_prod ((#) (Received res)) id (shared_halves_run E sr' sw h' cs))"
| "shared_halves_run E sr sw h (CallWrite m # cs) =
     (let (res, sw', h') = shared_writer_write E (sw, h) m
      in map_prod ((#) (Written res)) id (shared_halves_run E sr sw' h' cs))"
| "shared_halves_run E sr sw h (AskReaderPeer # cs) =
     map_prod ((#) (IsPeer (shared_reader_peer sr h))) id (shared_halves_run E sr sw h cs)"
| "shared_halves_run E sr sw h (AskReaderState # cs) =
     map_prod ((#) (IsState (shared_reader_state sr h))) id (shared_halves_run E sr sw h cs)"
| "shared_halves_run E sr sw h (AskWriterPeer # cs) =
     map_prod ((#) (IsPeer (shared_writer_peer sw h))) id (shared_halves_run E sr sw h cs)"

fun whole_run ::
  "('net, 'st, 'r, 'w, 'pr, 'pw) runtime \<Rightarrow> ('r, 'w, 'pr, 'pw) connection \<Rightarrow> half_call list
   \<Rightarrow> half_answer list \<times> ('r, 'w, 'pr, 'pw) connection" where
  "whole_run E c [] = ([], c)"
| "whole_run E c (CallRead # cs) =
     (let (res, c') = connection_read E c in map_prod ((#) (Received res)) id (whole_run E c' cs))"
| "whole_run E c (CallWrite m # cs) =
     (let (res, c') = connection_write E c m in map_prod ((#) (Written res)) id (whole_run E c' cs))"
| "whole_run E c (AskReaderPeer # cs) = map_prod ((#) (IsPeer (conn_peer c))) id (whole_run E c cs)"
| "whole_run E c (AskReaderState # cs) = map_prod ((#) (IsState (conn_state c))) id (whole_run E c cs)"
| "whole_run E c (AskWriterPeer # cs) = map_prod ((#) (IsPeer (conn_peer c))) id (whole_run E c cs)"

text \<open>The connection that two halves were made from, for the proof.\<close>

definition reunite ::
  "('r, 'w, 'pr, 'pw) shared_connection \<Rightarrow> ('r, 'pr) shared_reader \<Rightarrow> ('w, 'pw) shared_writer
   \<Rightarrow> ('r, 'w, 'pr, 'pw) shared_connection" where
  "reunite sc sr sw = sc\<lparr>sc_reader := sr, sc_writer := sw\<rparr>"

lemma reunite_read:
  "shared_reader_read E (sr, h) = (res, sr', h') \<Longrightarrow>
   shared_read E (reunite sc sr sw, h) = (res, reunite sc sr' sw, h')"
  by (simp add: shared_read_def reunite_def)

lemma reunite_write:
  "shared_writer_write E (sw, h) m = (res, sw', h') \<Longrightarrow>
   shared_write E (reunite sc sr sw, h) m = (res, reunite sc sr sw', h')"
  by (simp add: shared_write_def reunite_def)

lemma reunite_asks:
  assumes "aliased (reunite sc sr sw, h)"
  shows "shared_reader_peer sr h = conn_peer (view (reunite sc sr sw, h))"
    "shared_reader_state sr h = conn_state (view (reunite sc sr sw, h))"
    "shared_writer_peer sw h = conn_peer (view (reunite sc sr sw, h))"
  using assms by (simp_all add: aliased.simps reunite_def shared_reader_peer_def shared_reader_state_def
      shared_writer_peer_def shared_peer_def shared_state_def)

lemma refinesE:
  assumes "refines s x y" and "x = (res, s')"
  shows "y = (res, view s')" "aliased s'" "confined s s'"
  using assms by (auto simp: refines_def prod_eq_iff)

lemma halves_run_whole:
  "aliased (reunite sc sr sw, h) \<Longrightarrow> shared_halves_run E sr sw h cs = (as, sr', sw', h')
   \<Longrightarrow> whole_run E (view (reunite sc sr sw, h)) cs = (as, view (reunite sc sr' sw', h'))
     \<and> aliased (reunite sc sr' sw', h') \<and> confined (reunite sc sr sw, h) (reunite sc sr' sw', h')"
proof (induction E sr sw h cs arbitrary: as sr' sw' h' rule: shared_halves_run.induct)
  case (2 E sr sw h cs)
  obtain res sr1 h1 where rd: "shared_reader_read E (sr, h) = (res, sr1, h1)" by (metis prod_cases3)
  note R = refinesE [OF shared_read_refines [OF "2.prems"(1), of E] reunite_read [OF rd]]
  obtain as1 where "shared_halves_run E sr1 sw h1 cs = (as1, sr', sw', h')" "as = Received res # as1"
    using "2.prems"(2) rd by (auto simp: map_prod_def split: prod.splits)
  with "2.IH" [OF rd [symmetric] refl refl R(2)] R show ?case by (auto intro: confined_trans)
next
  case (3 E sr sw h m cs)
  obtain res sw1 h1 where wr: "shared_writer_write E (sw, h) m = (res, sw1, h1)" by (metis prod_cases3)
  note W = refinesE [OF shared_write_refines [OF "3.prems"(1), of E m] reunite_write [OF wr]]
  obtain as1 where "shared_halves_run E sr sw1 h1 cs = (as1, sr', sw', h')" "as = Written res # as1"
    using "3.prems"(2) wr by (auto simp: map_prod_def split: prod.splits)
  with "3.IH" [OF wr [symmetric] refl refl W(2)] W show ?case by (auto intro: confined_trans)
qed (auto simp: reunite_asks map_prod_def split: prod.splits)

lemma confined_elsewhere:
  assumes "confined (sc, h) (sc', h')" and "sc_peer other \<noteq> sc_peer sc" and "sc_state other \<noteq> sc_state sc"
  shows "view (other, h') = view (other, h)"
  using assms by (auto simp: confined.simps view.simps)

text \<open>
  C25. The halves of a split connection can be used by two tasks at once. However the reads of
  the one task and the writes of the other are interleaved, and whenever somebody asks for the
  peer or the state, every call has the result that it has on the connection that was not
  split, and the cells end up as if it had not been; a connection that has cells of its own
  sees nothing of it.
\<close>

theorem shared_halves_interleave:
  assumes "aliased (sc, h)"
    and "shared_halves_run E (fst (shared_into_split sc)) (snd (shared_into_split sc)) h cs = (as, sr, sw, h')"
  shows "\<exists>c. whole_run E (view (sc, h)) cs = (as, c)
    \<and> sr_reader sr = conn_reader c \<and> sw_writer sw = conn_writer c
    \<and> shared_reader_peer sr h' = conn_peer c \<and> shared_writer_peer sw h' = conn_peer c
    \<and> shared_reader_state sr h' = conn_state c
    \<and> (\<forall>other. sc_peer other \<noteq> sc_peer sc \<and> sc_state other \<noteq> sc_state sc
         \<longrightarrow> view (other, h') = view (other :: ('r, 'w, 'pr, 'pw) shared_connection, h))"
proof -
  have "reunite sc (fst (shared_into_split sc)) (snd (shared_into_split sc)) = sc"
    by (simp add: reunite_def shared_into_split_def)
  with halves_run_whole [of sc "fst (shared_into_split sc)" "snd (shared_into_split sc)" h E cs as sr sw h'] assms
  have run: "whole_run E (view (sc, h)) cs = (as, view (reunite sc sr sw, h'))"
    and al: "aliased (reunite sc sr sw, h')" and conf: "confined (sc, h) (reunite sc sr sw, h')"
    by simp_all
  have "view (other, h') = view (other, h)"
    if "sc_peer other \<noteq> sc_peer sc" "sc_state other \<noteq> sc_state sc"
    for other :: "('r, 'w, 'pr, 'pw) shared_connection"
    using confined_elsewhere [OF conf that] .
  moreover have "conn_reader (view (reunite sc sr sw, h')) = sr_reader sr"
    "conn_writer (view (reunite sc sr sw, h')) = sw_writer sw"
    by (simp_all add: view.simps reunite_def)
  ultimately show ?thesis using run reunite_asks [OF al] by (intro exI [of _ "view (reunite sc sr sw, h')"]) simp
qed

theorem shared_halves_interleave_witness:
  "fst (whole_run packet_env (example_connection [[2], [6, 9]]) [CallRead, CallWrite GetAddr, AskReaderState, CallRead])
   = [Received (Ok SendAddrV2), Written (Ok ()), IsState (connection_state_new\<lparr>addr_v2 := addr_v2_state.ReceivedOnly\<rparr>),
      Received (Ok (Ping 9))]"
proof -
  let ?cs = "[CallRead, CallWrite GetAddr, AskReaderState, CallRead]"
  define t :: "(u8 list, u8 list, u8 list list, u8 list list) transport" where "t = transport_v2 ([[2], [6, 9]], [])"
  define p where "p = peer_new (Ipv4 1) 8333"
  define h where "h = \<lparr>peer_cells = [], state_cells = []\<rparr>"
  obtain sc h1 where new: "shared_new p example_config t h = (sc, h1)" by (rule prod.exhaust)
  have al: "aliased (sc, h1)" and v: "view (sc, h1) = example_connection [[2], [6, 9]]"
    using shared_new_view [of p example_config t h] new by (simp_all add: t_def p_def example_connection_def)
  obtain as sr sw h' where run: "shared_halves_run packet_env (fst (shared_into_split sc)) (snd (shared_into_split sc)) h1 ?cs
      = (as, sr, sw, h')" by (metis prod_cases4)
  have "as = [Received (Ok SendAddrV2), Written (Ok ()), IsState (connection_state_new\<lparr>addr_v2 := addr_v2_state.ReceivedOnly\<rparr>),
      Received (Ok (Ping 9))]"
    using run new
    by (auto simp: shared_into_split_def shared_new_def t_def h_def transport_v2_def v2_transport_new_def v2_into_split_def
        shared_reader_new_def shared_writer_new_def shared_reader_read_def shared_writer_write_def v2_reader_read_def
        v2_writer_write_def example_v2_deserialize_def shared_reader_state_def update_state_def connection_state_new_def
        addr_v2_on_receive_def Let_def)
  with shared_halves_interleave [OF al run] v show ?thesis by auto
qed

end
