(* ===== verification/Ping_Example.thy ===== *)
theory Ping_Example
  imports Connection_Properties Texts Cli
begin

text \<open>
  The example program \<^verbatim>\<open>connection/examples/connection.rs\<close>: it connects to a peer,
  splits the connection, and runs two tasks that exchange pings and pongs with the peer until
  Ctrl+C. The part before the tasks is a function of the arguments; the tasks are a step
  relation over the split connection, the channel between them and the shutdown signal.
\<close>

section \<open>Before the tasks\<close>

record connection_args =
  ca_address :: string
  ca_port :: u16
  ca_network :: string
  ca_protocol_version :: u32
  ca_user_agent :: "string option"
  ca_log_level :: string

datatype ('r, 'w, 'pr, 'pw) connection_main =
    InvalidNetwork
  | InvalidAddress string
  | UserAgentPanic
  | ConnectFailed connection_error
  | ConnectTimedOut
  | Connected "('r, 'pr) connection_reader" "('w, 'pw) connection_writer"

text \<open>
  \<^verbatim>\<open>tokio::time::timeout\<close> around a call: \<open>elapsed\<close> says that the time was up first, and
  a call that waits for ever always runs into it.
\<close>

definition timeout_result :: "bool \<Rightarrow> ('e, 'a) outcome option \<Rightarrow> ('e + 'a) option" where
  "timeout_result elapsed r =
     (if elapsed then None
      else case r of
             Some (Ok a) \<Rightarrow> Some (Inr a)
           | Some (Err e) \<Rightarrow> Some (Inl e)
           | Some Pending \<Rightarrow> None
           | None \<Rightarrow> None)"

text \<open>\<open>UserAgentPanic\<close> is the panic of \<^verbatim>\<open>UserAgent::new(ua).unwrap()\<close>.\<close>

definition user_agent_arg :: "string option \<Rightarrow> user_agent option option" where
  "user_agent_arg arg =
     (case arg of
        None \<Rightarrow> Some None
      | Some ua \<Rightarrow> (case user_agent_new ua of Some (Inr u) \<Rightarrow> Some (Some u) | _ \<Rightarrow> None))"

definition connection_main_connect ::
  "('net, 'st, 'r, 'w, 'pr, 'pw) runtime \<Rightarrow> clock \<Rightarrow> 'net \<Rightarrow> bool \<Rightarrow> connection_args
   \<Rightarrow> ('r, 'w, 'pr, 'pw) connection_main" where
  "connection_main_connect E K net elapsed args =
     (case network_of_name (ca_network args) of
        None \<Rightarrow> InvalidNetwork
      | Some network \<Rightarrow>
          (case parse_ip_addr (ca_address args) of
             None \<Rightarrow> InvalidAddress (''Invalid IP address: '' @ ca_address args)
           | Some ip_addr \<Rightarrow>
               let p = peer_new (addr_of_ip ip_addr) (ca_port args)
               in (case user_agent_arg (ca_user_agent args) of
                     None \<Rightarrow> UserAgentPanic
                   | Some ua \<Rightarrow>
                       let config = non_listening E (KnownVersion (ca_protocol_version args)) V2Preferred
                             feature_preferences_default ua
                       in (case timeout_result elapsed (connection_connect E K net p network config) of
                             Some (Inr conn) \<Rightarrow>
                               let (receiver, sender) = connection_into_split conn in Connected receiver sender
                           | Some (Inl e) \<Rightarrow> ConnectFailed e
                           | None \<Rightarrow> ConnectTimedOut))))"

section \<open>The tasks\<close>

text \<open>
  The receiving task is at its \<^verbatim>\<open>select!\<close>, is handing a ping's nonce to the sending
  task, or has ended. The sending task is at its \<^verbatim>\<open>select!\<close>, is stuck in a write that
  does not complete, has ended, or has panicked on the overflow of its counter.
\<close>

datatype receiver_task = Receiving | Forwarding u64 | ReceiverEnded

datatype sender_task = Sending | StuckInWrite | SenderEnded | SenderPanicked

record ('r, 'w, 'pr, 'pw) ping_app =
  receiver :: "('r, 'pr) connection_reader"
  sender :: "('w, 'pw) connection_writer"
  receiver_task :: receiver_task
  sender_task :: sender_task
  ping_channel :: "u64 list"
  ping_count :: u32
  nonce :: u64
  shutdown :: bool
  received :: "network_message list"
  sent :: "network_message list"

definition PING_CHANNEL_CAPACITY :: nat where
  "PING_CHANNEL_CAPACITY = 10"

definition start_tasks ::
  "('r, 'pr) connection_reader \<Rightarrow> ('w, 'pw) connection_writer \<Rightarrow> ('r, 'w, 'pr, 'pw) ping_app" where
  "start_tasks rd wr =
     \<lparr>receiver = rd, sender = wr, receiver_task = Receiving, sender_task = Sending, ping_channel = [],
      ping_count = 0, nonce = 1, shutdown = False, received = [], sent = []\<rparr>"

text \<open>
  The branches of the receiving task's \<^verbatim>\<open>select!\<close>: the shutdown signal, or a poll of
  \<open>read\<close>, which may find nothing. A send on the channel waits while the channel is full and
  fails when the sending task is gone.
\<close>

definition receive_shutdown :: "('r, 'w, 'pr, 'pw) ping_app \<Rightarrow> ('r, 'w, 'pr, 'pw) ping_app option" where
  "receive_shutdown s =
     (if receiver_task s = Receiving \<and> shutdown s then Some (s\<lparr>receiver_task := ReceiverEnded\<rparr>) else None)"

definition receive_message ::
  "('net, 'st, 'r, 'w, 'pr, 'pw) runtime \<Rightarrow> ('r, 'w, 'pr, 'pw) ping_app \<Rightarrow> ('r, 'w, 'pr, 'pw) ping_app option" where
  "receive_message E s =
     (if receiver_task s = Receiving then
        (case connection_reader_read E (receiver s) of
           (Ok msg, rd) \<Rightarrow>
             let s1 = s\<lparr>receiver := rd, received := received s @ [msg]\<rparr>
             in Some (case msg of Ping n \<Rightarrow> s1\<lparr>receiver_task := Forwarding n\<rparr> | _ \<Rightarrow> s1)
         | (Err e, rd) \<Rightarrow> Some (s\<lparr>receiver := rd, receiver_task := ReceiverEnded\<rparr>)
         | (Pending, rd) \<Rightarrow> Some (s\<lparr>receiver := rd\<rparr>))
      else None)"

definition forward_ping :: "('r, 'w, 'pr, 'pw) ping_app \<Rightarrow> ('r, 'w, 'pr, 'pw) ping_app option" where
  "forward_ping s =
     (case receiver_task s of
        Forwarding n \<Rightarrow>
          if sender_task s = SenderEnded \<or> sender_task s = SenderPanicked
          then Some (s\<lparr>receiver_task := ReceiverEnded\<rparr>)
          else if length (ping_channel s) < PING_CHANNEL_CAPACITY
          then Some (s\<lparr>ping_channel := ping_channel s @ [n], receiver_task := Receiving\<rparr>)
          else None
      | _ \<Rightarrow> None)"

text \<open>The branches of the sending task's \<^verbatim>\<open>select!\<close>.\<close>

definition send_shutdown :: "('r, 'w, 'pr, 'pw) ping_app \<Rightarrow> ('r, 'w, 'pr, 'pw) ping_app option" where
  "send_shutdown s =
     (if sender_task s = Sending \<and> shutdown s then Some (s\<lparr>sender_task := SenderEnded\<rparr>) else None)"

definition send_pong ::
  "('net, 'st, 'r, 'w, 'pr, 'pw) runtime \<Rightarrow> ('r, 'w, 'pr, 'pw) ping_app \<Rightarrow> ('r, 'w, 'pr, 'pw) ping_app option" where
  "send_pong E s =
     (case ping_channel s of
        ping_nonce # rest \<Rightarrow>
          if sender_task s = Sending then
            let s1 = s\<lparr>ping_channel := rest\<rparr>
            in (case connection_writer_write E (sender s) (Pong ping_nonce) of
                  (Ok _, wr) \<Rightarrow> Some (s1\<lparr>sender := wr, sent := sent s @ [Pong ping_nonce]\<rparr>)
                | (Err e, wr) \<Rightarrow> Some (s1\<lparr>sender := wr, sender_task := SenderEnded\<rparr>)
                | (Pending, wr) \<Rightarrow> Some (s1\<lparr>sender := wr, sender_task := StuckInWrite\<rparr>))
          else None
      | [] \<Rightarrow> None)"

text \<open>
  The counter is a \<^verbatim>\<open>u32\<close> that is incremented with \<open>+=\<close>, which panics on overflow
  when the program is compiled with overflow checks; the nonce wraps around.
\<close>

definition send_ping ::
  "('net, 'st, 'r, 'w, 'pr, 'pw) runtime \<Rightarrow> bool \<Rightarrow> ('r, 'w, 'pr, 'pw) ping_app
   \<Rightarrow> ('r, 'w, 'pr, 'pw) ping_app option" where
  "send_ping E overflow_checks s =
     (if sender_task s = Sending then
        (case connection_writer_write E (sender s) (Ping (nonce s)) of
           (Ok _, wr) \<Rightarrow>
             let s1 = s\<lparr>sender := wr, sent := sent s @ [Ping (nonce s)]\<rparr>
             in if overflow_checks \<and> ping_count s = - 1 then Some (s1\<lparr>sender_task := SenderPanicked\<rparr>)
                else Some (s1\<lparr>ping_count := ping_count s + 1, nonce := nonce s + 1\<rparr>)
         | (Err e, wr) \<Rightarrow> Some (s\<lparr>sender := wr, sender_task := SenderEnded\<rparr>)
         | (Pending, wr) \<Rightarrow> Some (s\<lparr>sender := wr, sender_task := StuckInWrite\<rparr>))
      else None)"

text \<open>
  The steps of the program. The task that waits for Ctrl+C sends the shutdown signal, or
  fails; in both cases its end of the broadcast channel is dropped, which wakes the two
  tasks, and each of them takes that for the signal.
\<close>

inductive ping_step ::
  "('net, 'st, 'r, 'w, 'pr, 'pw) runtime \<Rightarrow> bool \<Rightarrow> ('r, 'w, 'pr, 'pw) ping_app
   \<Rightarrow> ('r, 'w, 'pr, 'pw) ping_app \<Rightarrow> bool" for E overflow_checks where
  ctrl_c: "\<not> shutdown s \<Longrightarrow> ping_step E overflow_checks s (s\<lparr>shutdown := True\<rparr>)"
| receive_shutdown: "receive_shutdown s = Some t \<Longrightarrow> ping_step E overflow_checks s t"
| receive_message: "receive_message E s = Some t \<Longrightarrow> ping_step E overflow_checks s t"
| forward_ping: "forward_ping s = Some t \<Longrightarrow> ping_step E overflow_checks s t"
| send_shutdown: "send_shutdown s = Some t \<Longrightarrow> ping_step E overflow_checks s t"
| send_pong: "send_pong E s = Some t \<Longrightarrow> ping_step E overflow_checks s t"
| send_ping: "send_ping E overflow_checks s = Some t \<Longrightarrow> ping_step E overflow_checks s t"

text \<open>\<open>main\<close> returns when both tasks have ended.\<close>

definition ping_finished :: "('r, 'w, 'pr, 'pw) ping_app \<Rightarrow> bool" where
  "ping_finished s \<longleftrightarrow>
     receiver_task s = ReceiverEnded \<and> (sender_task s = SenderEnded \<or> sender_task s = SenderPanicked)"

section \<open>Invariants\<close>

definition ping_nonces :: "network_message list \<Rightarrow> u64 list" where
  "ping_nonces ms = List.map_filter (\<lambda>m. case m of Ping n \<Rightarrow> Some n | _ \<Rightarrow> None) ms"

definition pong_nonces :: "network_message list \<Rightarrow> u64 list" where
  "pong_nonces ms = List.map_filter (\<lambda>m. case m of Pong n \<Rightarrow> Some n | _ \<Rightarrow> None) ms"

lemma nonces_simps [simp]:
  "ping_nonces [] = []" "pong_nonces [] = []"
  "ping_nonces (ms @ ms') = ping_nonces ms @ ping_nonces ms'"
  "pong_nonces (ms @ ms') = pong_nonces ms @ pong_nonces ms'"
  "ping_nonces (m # ms) = (case m of Ping n \<Rightarrow> [n] | _ \<Rightarrow> []) @ ping_nonces ms"
  "pong_nonces (m # ms) = (case m of Pong n \<Rightarrow> [n] | _ \<Rightarrow> []) @ pong_nonces ms"
  by (simp_all add: ping_nonces_def pong_nonces_def map_filter_def split: network_message.splits)

text \<open>The nonces that have been read and not yet answered.\<close>

definition in_transit :: "('r, 'w, 'pr, 'pw) ping_app \<Rightarrow> u64 list" where
  "in_transit s = ping_channel s @ (case receiver_task s of Forwarding n \<Rightarrow> [n] | _ \<Rightarrow> [])"

definition answers_inv :: "('r, 'w, 'pr, 'pw) ping_app \<Rightarrow> bool" where
  "answers_inv s \<longleftrightarrow>
     (sender_task s = Sending \<longrightarrow> ping_nonces (received s) = pong_nonces (sent s) @ in_transit s)
     \<and> (\<exists>rest. ping_nonces (received s) = pong_nonces (sent s) @ rest)
     \<and> length (ping_channel s) \<le> PING_CHANNEL_CAPACITY"

text \<open>The first \<open>k\<close> nonces of the pings, and the counters after them.\<close>

definition ping_series :: "nat \<Rightarrow> u64 list" where
  "ping_series k = map (\<lambda>i. word_of_nat (Suc i)) [0..<k]"

definition counting_inv :: "bool \<Rightarrow> ('r, 'w, 'pr, 'pw) ping_app \<Rightarrow> bool" where
  "counting_inv overflow_checks s \<longleftrightarrow>
     (\<exists>k. ping_nonces (sent s) = ping_series k
        \<and> (if sender_task s = SenderPanicked then k = 4294967296
           else ping_count s = word_of_nat k \<and> nonce s = word_of_nat (Suc k)
             \<and> (overflow_checks \<longrightarrow> k < 4294967296)))"

definition logging_inv ::
  "('net, 'st, 'r, 'w, 'pr, 'pw) runtime \<Rightarrow> (('w, 'pw) transport_writer \<Rightarrow> 'b list)
   \<Rightarrow> (network_message \<Rightarrow> 'b list) \<Rightarrow> (('w, 'pw) transport_writer \<Rightarrow> bool) \<Rightarrow> 'b list
   \<Rightarrow> ('r, 'w, 'pr, 'pw) ping_app \<Rightarrow> bool" where
  "logging_inv E log enc up before s \<longleftrightarrow>
     (sender_task s = Sending \<or> sender_task s = SenderPanicked \<longrightarrow>
        up (cw_writer (sender s)) \<and> log (cw_writer (sender s)) = before @ concat (map enc (sent s)))"

lemmas ping_turns =
  receive_shutdown_def receive_message_def forward_ping_def send_shutdown_def send_pong_def send_ping_def

lemma ping_series_Suc [simp]: "ping_series (Suc k) = ping_series k @ [word_of_nat (Suc k)]"
  by (simp add: ping_series_def)

lemma ping_series_0 [simp]: "ping_series 0 = []"
  by (simp add: ping_series_def)

lemma ping_series_distinct: "k < 18446744073709551616 \<Longrightarrow> distinct (ping_series k)"
  unfolding ping_series_def distinct_map
proof (intro conjI inj_onI)
  fix i j
  assume "k < 18446744073709551616" "i \<in> set [0..<k]" "j \<in> set [0..<k]"
    "word_of_nat (Suc i) = (word_of_nat (Suc j) :: u64)"
  moreover have "unat (word_of_nat (Suc n) :: u64) = Suc n" if "n < k" "k < 18446744073709551616" for n
    using that by (subst unat_of_nat) (simp add: take_bit_nat_eq_self)
  ultimately show "i = j" by (metis Suc_inject atLeastLessThan_iff set_upt)
qed simp

lemma answers_step: "answers_inv s \<Longrightarrow> ping_step E checks s t \<Longrightarrow> answers_inv t"
  by (erule ping_step.cases)
    (auto simp: answers_inv_def in_transit_def ping_turns PING_CHANNEL_CAPACITY_def Let_def
      split: if_splits outcome.splits prod.splits network_message.splits receiver_task.splits list.splits)

lemma last_u32: "word_of_nat k = (- 1 :: u32) \<Longrightarrow> k < 4294967296 \<Longrightarrow> Suc k = 4294967296"
  by (drule arg_cong [where f = unat]) (simp add: unat_word_of_nat32 unsigned_minus_1_eq_mask mask_eq_exp_minus_1)

lemma counting_ping:
  assumes "counting_inv checks s" and "send_ping E checks s = Some t"
  shows "counting_inv checks t"
proof -
  obtain k where k: "ping_nonces (sent s) = ping_series k" "ping_count s = word_of_nat k"
    "nonce s = word_of_nat (Suc k)" "checks \<longrightarrow> k < 4294967296" and live: "sender_task s = Sending"
    using assms by (auto simp: counting_inv_def send_ping_def split: if_splits)
  show ?thesis
  proof (cases "fst (connection_writer_write E (sender s) (Ping (nonce s))) = Ok ()")
    case True
    then obtain wr where wr: "connection_writer_write E (sender s) (Ping (nonce s)) = (Ok (), wr)"
      by (metis prod.collapse)
    show ?thesis
    proof (cases "checks \<and> ping_count s = - 1")
      case True
      then have "Suc k = 4294967296" using last_u32 [of k] k(2,4) by simp
      then have "ping_series 4294967296 = ping_series k @ [nonce s]" using ping_series_Suc [of k] k(3) by metis
      with True assms(2) wr live k(1) show ?thesis
        by (auto simp: counting_inv_def send_ping_def Let_def)
    next
      case False
      have "checks \<longrightarrow> Suc k < 4294967296"
      proof (intro impI, rule ccontr)
        assume checks and "\<not> Suc k < 4294967296"
        with k(4) have "k = 4294967295" by linarith
        with k(2) have "ping_count s = - 1" by simp
        with False \<open>checks\<close> show False by simp
      qed
      with False assms(2) wr live k show ?thesis
        by (auto simp: counting_inv_def send_ping_def Let_def add.commute intro!: exI [of _ "Suc k"])
    qed
  next
    case False
    with assms(2) live k show ?thesis
      by (auto simp: counting_inv_def send_ping_def split: outcome.splits prod.splits)
  qed
qed

lemma counting_step:
  assumes "counting_inv checks s" and "ping_step E checks s t"
  shows "counting_inv checks t"
  using assms(2)
proof (cases rule: ping_step.cases)
  case send_ping
  then show ?thesis using counting_ping assms(1) by blast
qed (use assms(1) in \<open>auto simp: counting_inv_def receive_shutdown_def receive_message_def forward_ping_def
    send_shutdown_def send_pong_def Let_def
    split: if_splits outcome.splits prod.splits network_message.splits receiver_task.splits list.splits\<close>)

lemma writer_write_logs:
  assumes "writes_log E log enc up" and "connection_writer_write E cw m = (Ok (), cw')" and "up (cw_writer cw)"
  shows "up (cw_writer cw') \<and> log (cw_writer cw') = log (cw_writer cw) @ enc m"
  using assms by (auto simp: connection_writer_write_def writes_log_def case_prod_unfold Let_def
      split: prod.splits) (metis prod.collapse)+

lemma logging_step:
  assumes "writes_log E log enc up" and "logging_inv E log enc up before s" and "ping_step E checks s t"
  shows "logging_inv E log enc up before t"
  using assms(3,2) writer_write_logs [OF assms(1)]
  by (elim ping_step.cases)
    (fastforce simp: logging_inv_def ping_turns Let_def
      split: if_splits outcome.splits prod.splits network_message.splits receiver_task.splits list.splits)+

definition ping_start :: "('r, 'w, 'pr, 'pw) ping_app \<Rightarrow> bool" where
  "ping_start s \<longleftrightarrow> s = start_tasks (receiver s) (sender s)"

lemma answers_start: "ping_start s \<Longrightarrow> answers_inv s"
  unfolding ping_start_def by (erule ssubst) (simp add: answers_inv_def start_tasks_def in_transit_def)

lemma counting_start: "ping_start s \<Longrightarrow> counting_inv checks s"
  unfolding ping_start_def by (erule ssubst) (simp add: counting_inv_def start_tasks_def exI [of _ 0])

interpretation answering: inductive_invariant ping_start "ping_step E checks" answers_inv
  by unfold_locales (fact answers_start answers_step)+

interpretation counting: inductive_invariant ping_start "ping_step E checks" "counting_inv checks"
  by unfold_locales (fact counting_start counting_step)+

lemma ping_start_tasks: "ping_start (start_tasks rd wr)"
  by (simp add: ping_start_def start_tasks_def)

lemma logging_steps:
  assumes "writes_log E log enc up" and "(ping_step E checks)\<^sup>*\<^sup>* s t" and "logging_inv E log enc up before s"
  shows "logging_inv E log enc up before t"
  using assms(2,3) by (induction rule: rtranclp_induct) (auto intro: logging_step [OF assms(1)])

lemma stuck_step: "ping_step E checks s t \<Longrightarrow> sender_task s = StuckInWrite \<Longrightarrow> sender_task t = StuckInWrite"
  by (erule ping_step.cases)
    (auto simp: ping_turns Let_def split: if_splits outcome.splits prod.splits network_message.splits
      receiver_task.splits list.splits)

lemma stuck_steps:
  "(ping_step E checks)\<^sup>*\<^sup>* s t \<Longrightarrow> sender_task s = StuckInWrite \<Longrightarrow> sender_task t = StuckInWrite"
  by (induction rule: rtranclp_induct) (auto intro: stuck_step)

lemma sender_ends:
  assumes "shutdown s" and "sender_task s \<noteq> StuckInWrite"
  shows "\<exists>t. (ping_step E checks)\<^sup>*\<^sup>* s t \<and> shutdown t \<and> (sender_task t = SenderEnded \<or> sender_task t = SenderPanicked)"
proof (cases "sender_task s")
  case Sending
  with assms(1) have "ping_step E checks s (s\<lparr>sender_task := SenderEnded\<rparr>)"
    by (intro ping_step.send_shutdown) (simp add: send_shutdown_def)
  with assms(1) show ?thesis by (intro exI [of _ "s\<lparr>sender_task := SenderEnded\<rparr>"]) auto
qed (use assms in auto)

lemma receiver_ends:
  assumes "shutdown s" and "sender_task s = SenderEnded \<or> sender_task s = SenderPanicked"
  shows "\<exists>t. (ping_step E checks)\<^sup>*\<^sup>* s t \<and> ping_finished t"
proof (cases "receiver_task s = ReceiverEnded")
  case True
  with assms(2) show ?thesis by (auto simp: ping_finished_def)
next
  case False
  let ?t = "s\<lparr>receiver_task := ReceiverEnded\<rparr>"
  have "receive_shutdown s = Some ?t \<or> forward_ping s = Some ?t"
    using False assms by (cases "receiver_task s") (auto simp: receive_shutdown_def forward_ping_def)
  then have "ping_step E checks s ?t" by (auto intro: ping_step.intros)
  with assms(2) show ?thesis by (intro exI [of _ ?t]) (auto simp: ping_finished_def)
qed

section \<open>Runs\<close>

text \<open>A schedule as a list of moves, to run the program in examples.\<close>

datatype ping_move = CtrlC | SeeShutdown | ReadMessage | HandOver | StopSending | AnswerPing | TickPing

fun ping_turn ::
  "('net, 'st, 'r, 'w, 'pr, 'pw) runtime \<Rightarrow> bool \<Rightarrow> ping_move \<Rightarrow> ('r, 'w, 'pr, 'pw) ping_app
   \<Rightarrow> ('r, 'w, 'pr, 'pw) ping_app option" where
  "ping_turn E checks CtrlC s = (if shutdown s then None else Some (s\<lparr>shutdown := True\<rparr>))"
| "ping_turn E checks SeeShutdown s = receive_shutdown s"
| "ping_turn E checks ReadMessage s = receive_message E s"
| "ping_turn E checks HandOver s = forward_ping s"
| "ping_turn E checks StopSending s = send_shutdown s"
| "ping_turn E checks AnswerPing s = send_pong E s"
| "ping_turn E checks TickPing s = send_ping E checks s"

fun ping_run ::
  "('net, 'st, 'r, 'w, 'pr, 'pw) runtime \<Rightarrow> bool \<Rightarrow> ping_move list \<Rightarrow> ('r, 'w, 'pr, 'pw) ping_app
   \<Rightarrow> ('r, 'w, 'pr, 'pw) ping_app option" where
  "ping_run E checks [] s = Some s"
| "ping_run E checks (mv # mvs) s = Option.bind (ping_turn E checks mv s) (ping_run E checks mvs)"

lemma ping_turn_step: "ping_turn E checks mv s = Some t \<Longrightarrow> ping_step E checks s t"
  by (cases mv) (auto intro: ping_step.intros split: if_splits)

lemma ping_run_steps: "ping_run E checks mvs s = Some t \<Longrightarrow> (ping_step E checks)\<^sup>*\<^sup>* s t"
proof (induction mvs arbitrary: s)
  case (Cons mv mvs)
  then obtain u where "ping_turn E checks mv s = Some u" "ping_run E checks mvs u = Some t"
    by (auto simp: bind_eq_Some_conv)
  with Cons.IH show ?case by (meson converse_rtranclp_into_rtranclp ping_turn_step)
qed simp

definition example_app :: "(u8 list, u8 list, u8 list list, u8 list list) ping_app" where
  "example_app = (let (rd, wr) = connection_into_split (example_connection [[6, 42], [1]]) in start_tasks rd wr)"

definition example_moves :: "ping_move list" where
  "example_moves = [ReadMessage, TickPing, HandOver, ReadMessage, AnswerPing, TickPing]"

lemma example_app_start:
  "example_app = start_tasks (fst (connection_into_split (example_connection [[6, 42], [1]])))
     (snd (connection_into_split (example_connection [[6, 42], [1]])))"
  by (simp add: example_app_def case_prod_unfold Let_def)

lemma example_run:
  "\<exists>s. ping_run packet_env True example_moves example_app = Some s \<and> sender_task s = Sending
     \<and> sent s = [Ping 1, Pong 42, Ping 2] \<and> received s = [Ping 42, Verack]"
  by (simp add: example_moves_def example_app_def start_tasks_def connection_into_split_def ping_turns
      connection_reader_read_def connection_writer_write_def v2_reader_read_def v2_writer_write_def
      v2_reader_new_def v2_writer_new_def note_received_def example_v2_deserialize_def PING_CHANNEL_CAPACITY_def
      case_prod_unfold)

section \<open>Properties\<close>

text \<open>
  C38. Pings are answered. In every state of the example program the pongs it has sent answer
  the pings it has read, each once and in order. As long as the sending task runs, no ping
  is lost: those not answered yet are waiting in the channel, at most ten, or in the hands of
  the receiving task; and the bytes on the wire are exactly those of the messages sent.
\<close>

theorem ping_example_answers_pings:
  assumes "writes_log E log enc up" and "up (cw_writer wr)"
    and "(ping_step E checks)\<^sup>*\<^sup>* (start_tasks rd wr) s"
  shows "(\<exists>rest. ping_nonces (received s) = pong_nonces (sent s) @ rest)
    \<and> (sender_task s = Sending \<longrightarrow>
         ping_nonces (received s) = pong_nonces (sent s) @ in_transit s \<and> length (in_transit s) \<le> 11
         \<and> log (cw_writer (sender s)) = log (cw_writer wr) @ concat (map enc (sent s)))"
proof -
  have "logging_inv E log enc up (log (cw_writer wr)) (start_tasks rd wr)"
    using assms(2) by (simp add: logging_inv_def start_tasks_def)
  from logging_steps [OF assms(1,3) this] answering.reachable_inv [OF ping_start_tasks assms(3)]
  show ?thesis
    by (auto simp: logging_inv_def answers_inv_def in_transit_def PING_CHANNEL_CAPACITY_def split: receiver_task.splits)
qed

theorem ping_example_answers_pings_witness:
  "\<exists>s. (ping_step packet_env True)\<^sup>*\<^sup>* example_app s \<and> sent s = [Ping 1, Pong 42, Ping 2]
     \<and> ping_nonces (received s) = pong_nonces (sent s) @ in_transit s
     \<and> sent_packets id (cw_writer (sender s)) = map example_v2_serialize [Ping 1, Pong 42, Ping 2]"
proof -
  let ?halves = "connection_into_split (example_connection [[6, 42], [1]])"
  obtain s where s: "ping_run packet_env True example_moves example_app = Some s" "sender_task s = Sending"
    "sent s = [Ping 1, Pong 42, Ping 2]" using example_run by blast
  have steps: "(ping_step packet_env True)\<^sup>*\<^sup>* example_app s" using ping_run_steps [OF s(1)] .
  have up: "\<not> writer_is_v1 (cw_writer (snd ?halves))" and empty: "sent_packets id (cw_writer (snd ?halves)) = []"
    by (simp_all add: connection_into_split_def v2_writer_new_def)
  show ?thesis
    using ping_example_answers_pings [OF packet_env_writes(1), OF up steps [unfolded example_app_start]] steps s(2,3) empty
    by auto
qed

text \<open>
  The program's own pings carry the nonces 1, 2, 3 and so on, and its counter counts
  them, modulo \<open>2 ^ 32\<close>. Compiled with overflow checks it never sends a nonce twice: the
  sending task panics after \<open>2 ^ 32\<close> pings, long before the nonce wraps around.
\<close>

lemma ping_example_numbers_pings:
  assumes "(ping_step E checks)\<^sup>*\<^sup>* (start_tasks rd wr) s"
  shows "\<exists>k. ping_nonces (sent s) = ping_series k
    \<and> (sender_task s \<noteq> SenderPanicked \<longrightarrow> ping_count s = word_of_nat k)
    \<and> (sender_task s = SenderPanicked \<longrightarrow> k = 2 ^ 32)
    \<and> (checks \<longrightarrow> k \<le> 2 ^ 32 \<and> distinct (ping_nonces (sent s)))"
proof -
  from counting.reachable_inv [OF ping_start_tasks assms] obtain k where k: "ping_nonces (sent s) = ping_series k"
    "if sender_task s = SenderPanicked then k = 4294967296
     else ping_count s = word_of_nat k \<and> nonce s = word_of_nat (Suc k) \<and> (checks \<longrightarrow> k < 4294967296)"
    unfolding counting_inv_def by blast
  have "distinct (ping_series k)" if "k \<le> 4294967296"
    using that ping_series_distinct [of k] by simp
  with k show ?thesis by (intro exI [of _ k]) (auto split: if_splits)
qed

text \<open>
  C39. Shutting down. Once Ctrl+C was pressed, or the handler for it could not be set up, the
  program can end, from every state it can be in, unless its sending task is stuck in a write;
  in that case it never ends, for neither the signal nor the end of the receiving task
  interrupts the write.
\<close>

theorem ping_example_shuts_down:
  assumes "shutdown s"
  shows "(\<exists>t. (ping_step E checks)\<^sup>*\<^sup>* s t \<and> ping_finished t) \<longleftrightarrow> sender_task s \<noteq> StuckInWrite"
proof
  assume "\<exists>t. (ping_step E checks)\<^sup>*\<^sup>* s t \<and> ping_finished t"
  then show "sender_task s \<noteq> StuckInWrite" by (fastforce simp: ping_finished_def dest: stuck_steps)
next
  assume "sender_task s \<noteq> StuckInWrite"
  from sender_ends [OF assms this] obtain t where "(ping_step E checks)\<^sup>*\<^sup>* s t" "shutdown t"
    "sender_task t = SenderEnded \<or> sender_task t = SenderPanicked" by blast
  with receiver_ends [of t] show "\<exists>t. (ping_step E checks)\<^sup>*\<^sup>* s t \<and> ping_finished t"
    by (meson rtranclp_trans)
qed

theorem ping_example_shuts_down_witness:
  "shutdown (example_app\<lparr>shutdown := True\<rparr>)
   \<and> (\<exists>t. (ping_step packet_env True)\<^sup>*\<^sup>* (example_app\<lparr>shutdown := True\<rparr>) t \<and> ping_finished t)"
  using ping_example_shuts_down [of "example_app\<lparr>shutdown := True\<rparr>" packet_env True]
  by (simp add: example_app_def start_tasks_def case_prod_unfold Let_def)

end
