(* ===== verification/Transport_Tests.thy ===== *)
theory Transport_Tests
  imports Transport
begin

text \<open>
  The unit tests of \<^verbatim>\<open>connection/src/transport/v1.rs\<close> and of
  \<^verbatim>\<open>connection/src/transport/mod.rs\<close>, each as the assertion it makes of the model. The
  tests run on the scripted reader of \<^verbatim>\<open>tokio_test\<close>, on a \<^verbatim>\<open>Vec\<close> as the
  writer and on the codec of the \<^verbatim>\<open>bitcoin\<close> crate; here they hold for every reader,
  writer and codec with the documented behaviour.
\<close>

section \<open>The tests\<close>

definition create_test_message :: "('a) bitcoin_api_scheme \<Rightarrow> magic \<Rightarrow> network_message \<Rightarrow> u8 list" where
  "create_test_message B mg payload = raw_serialize B (mg, payload)"

definition test_basic_message_receive ::
  "('net, 'st, 'r, 'w, 'pr, 'pw) runtime \<Rightarrow> (u8 list list \<Rightarrow> 'r) \<Rightarrow> 'w \<Rightarrow> magic \<Rightarrow> bool" where
  "test_basic_message_receive E mock vec BITCOIN \<longleftrightarrow>
     (let message_bytes = create_test_message E BITCOIN (Ping 42);
          transport = v1_transport_new BITCOIN (mock [message_bytes]) vec
      in fst (v1_transport_read E transport) = Ok (Ping 42))"

definition test_send_message ::
  "('net, 'st, 'r, 'w, 'pr, 'pw) runtime \<Rightarrow> (u8 list list \<Rightarrow> 'r) \<Rightarrow> 'w \<Rightarrow> ('w \<Rightarrow> u8 list) \<Rightarrow> magic \<Rightarrow> bool" where
  "test_send_message E mock vec contents BITCOIN \<longleftrightarrow>
     (let transport = v1_transport_new BITCOIN (mock []) vec;
          message = Ping 42;
          (res, transport1) = v1_transport_write E transport message;
          (_, writer) = v1_into_split transport1;
          expected = create_test_message E BITCOIN message
      in res = Ok () \<and> contents (v1w_writer writer) = expected)"

definition test_magic_mismatch ::
  "('net, 'st, 'r, 'w, 'pr, 'pw) runtime \<Rightarrow> (u8 list list \<Rightarrow> 'r) \<Rightarrow> 'w \<Rightarrow> magic \<Rightarrow> magic \<Rightarrow> bool" where
  "test_magic_mismatch E mock vec BITCOIN TESTNET4 \<longleftrightarrow>
     (let message_bytes = create_test_message E TESTNET4 (Ping 42);
          transport = v1_transport_new BITCOIN (mock [message_bytes]) vec
      in fst (v1_transport_read E transport) = Err MagicMismatch)"

definition invalid_message :: "magic \<Rightarrow> u8 list" where
  "invalid_message BITCOIN =
     (let header = replicate HEADER_SIZE 0;
          header1 = write_at header 0 (take 4 BITCOIN);
          header2 = write_at header1 4 [0x70, 0x69, 0x6e, 0x67];
          payload_len = 6 :: u32;
          header3 = write_at header2 PAYLOAD_LENGTH_OFFSET (u32_to_le_bytes payload_len);
          invalid_payload = replicate (unat payload_len) 0xFF
      in header3 @ invalid_payload)"

definition test_invalid_message ::
  "('net, 'st, 'r, 'w, 'pr, 'pw) runtime \<Rightarrow> (u8 list list \<Rightarrow> 'r) \<Rightarrow> 'w \<Rightarrow> magic \<Rightarrow> bool" where
  "test_invalid_message E mock vec BITCOIN \<longleftrightarrow>
     (let transport = v1_transport_new BITCOIN (mock [invalid_message BITCOIN]) vec
      in case fst (v1_transport_read E transport) of Err (Deserialize _) \<Rightarrow> True | _ \<Rightarrow> False)"

definition test_unexpected_eof_during_header ::
  "('net, 'st, 'r, 'w, 'pr, 'pw) runtime \<Rightarrow> (u8 list list \<Rightarrow> 'r) \<Rightarrow> 'w \<Rightarrow> magic \<Rightarrow> bool" where
  "test_unexpected_eof_during_header E mock vec BITCOIN \<longleftrightarrow>
     (let partial_data = replicate 10 0;
          transport = v1_transport_new BITCOIN (mock [partial_data]) vec
      in case fst (v1_transport_read E transport) of Err (transport_error.Io _) \<Rightarrow> True | _ \<Rightarrow> False)"

definition test_unexpected_eof_during_payload ::
  "('net, 'st, 'r, 'w, 'pr, 'pw) runtime \<Rightarrow> (u8 list list \<Rightarrow> 'r) \<Rightarrow> 'w \<Rightarrow> magic \<Rightarrow> bool" where
  "test_unexpected_eof_during_payload E mock vec BITCOIN \<longleftrightarrow>
     (let message_bytes = take (HEADER_SIZE + 2) (create_test_message E BITCOIN (Ping 42));
          transport = v1_transport_new BITCOIN (mock [message_bytes]) vec
      in case fst (v1_transport_read E transport) of Err (transport_error.Io _) \<Rightarrow> True | _ \<Rightarrow> False)"

definition test_cancellation_safety ::
  "('net, 'st, 'r, 'w, 'pr, 'pw) runtime \<Rightarrow> (u8 list list \<Rightarrow> 'r) \<Rightarrow> 'w \<Rightarrow> magic \<Rightarrow> bool" where
  "test_cancellation_safety E mock vec BITCOIN \<longleftrightarrow>
     (let message_bytes = create_test_message E BITCOIN (Ping 42);
          mock_reader = mock (map (\<lambda>i. take 1 (drop i message_bytes)) [0..<length message_bytes]);
          transport = v1_transport_new BITCOIN mock_reader vec
      in fst (v1_transport_read E transport) = Ok (Ping 42))"

definition test_multiple_messages ::
  "('net, 'st, 'r, 'w, 'pr, 'pw) runtime \<Rightarrow> (u8 list list \<Rightarrow> 'r) \<Rightarrow> 'w \<Rightarrow> magic \<Rightarrow> bool" where
  "test_multiple_messages E mock vec BITCOIN \<longleftrightarrow>
     (let message1 = create_test_message E BITCOIN (Ping 42);
          message2 = create_test_message E BITCOIN (Ping 43);
          combined = message1 @ message2;
          transport = v1_transport_new BITCOIN (mock [combined]) vec;
          (received1, transport1) = v1_transport_read E transport;
          (received2, transport2) = v1_transport_read E transport1
      in received1 = Ok (Ping 42) \<and> received2 = Ok (Ping 43))"

definition test_transport_split ::
  "('net, 'st, 'r, 'w, 'pr, 'pw) runtime \<Rightarrow> (u8 list list \<Rightarrow> 'r) \<Rightarrow> 'w \<Rightarrow> ('w \<Rightarrow> u8 list) \<Rightarrow> magic \<Rightarrow> bool" where
  "test_transport_split E mock vec contents BITCOIN \<longleftrightarrow>
     (let transport = v1_transport_new BITCOIN (mock []) vec;
          (_, sender) = v1_into_split transport;
          message = Ping 42;
          (res, sender1) = v1_writer_write E sender message;
          expected = create_test_message E BITCOIN message;
          message_bytes = create_test_message E BITCOIN (Ping 42);
          transport' = v1_transport_new BITCOIN (mock [message_bytes]) vec;
          (receiver, _) = v1_into_split transport'
      in res = Ok () \<and> contents (v1w_writer sender1) = expected
         \<and> fst (v1_reader_read E receiver) = Ok (Ping 42))"

definition test_transport_enum_split ::
  "('net, 'st, 'r, 'w, 'pr, 'pw) runtime \<Rightarrow> (u8 list list \<Rightarrow> 'r) \<Rightarrow> 'w \<Rightarrow> magic \<Rightarrow> bool" where
  "test_transport_enum_split E mock vec BITCOIN \<longleftrightarrow>
     (let message_bytes = create_test_message E BITCOIN (Ping 42);
          transport = transport_v1 BITCOIN (mock [message_bytes]) vec;
          (receiver, sender) = transport_into_split transport
      in fst (transport_reader_read E receiver) = Ok (Ping 42)
         \<and> fst (transport_writer_write E sender (Ping 42)) = Ok ())"

definition test_transport_delegation ::
  "('net, 'st, 'r, 'w, 'pr, 'pw) runtime \<Rightarrow> (u8 list list \<Rightarrow> 'r) \<Rightarrow> 'w \<Rightarrow> magic \<Rightarrow> bool" where
  "test_transport_delegation E mock vec BITCOIN \<longleftrightarrow>
     (let message_bytes = create_test_message E BITCOIN (Ping 42);
          transport = transport_v1 BITCOIN (mock [message_bytes]) vec;
          (received, transport1) = transport_read E transport
      in received = Ok (Ping 42) \<and> fst (transport_write E transport1 (Ping 42)) = Ok ())"

definition test_transport_from_impl ::
  "('net, 'st, 'r, 'w, 'pr, 'pw) runtime \<Rightarrow> (u8 list list \<Rightarrow> 'r) \<Rightarrow> 'w \<Rightarrow> magic \<Rightarrow> bool" where
  "test_transport_from_impl E mock vec BITCOIN \<longleftrightarrow>
     (case (transport_v1 BITCOIN (mock []) vec :: ('r, 'w, 'pr, 'pw) transport) of
        TransportV1 _ \<Rightarrow> True | TransportV2 _ \<Rightarrow> False)"

definition test_transport_pattern_matching ::
  "('net, 'st, 'r, 'w, 'pr, 'pw) runtime \<Rightarrow> (u8 list list \<Rightarrow> 'r) \<Rightarrow> 'w \<Rightarrow> magic \<Rightarrow> bool" where
  "test_transport_pattern_matching E mock vec BITCOIN \<longleftrightarrow>
     (let transport = transport_v1 BITCOIN (mock []) vec :: ('r, 'w, 'pr, 'pw) transport;
          transport' = transport_v1 BITCOIN (mock []) vec :: ('r, 'w, 'pr, 'pw) transport
      in (case transport of TransportV1 _ \<Rightarrow> True | TransportV2 _ \<Rightarrow> False)
         \<and> (case transport' of TransportV1 _ \<Rightarrow> True | TransportV2 _ \<Rightarrow> False))"

section \<open>What they run on\<close>

text \<open>
  \<^verbatim>\<open>tokio_test::io::Builder\<close>: a reader that delivers the scripted chunks one after the
  other and then ends. A \<^verbatim>\<open>Vec<u8>\<close> as a writer takes everything.
\<close>

definition mock_io_law ::
  "('net, 'st, 'r, 'w, 'pr, 'pw) runtime \<Rightarrow> (u8 list list \<Rightarrow> 'r) \<Rightarrow> ('r \<Rightarrow> u8 list) \<Rightarrow> bool" where
  "mock_io_law E mock stream \<longleftrightarrow>
     byte_source (async_read E) stream \<and> eventually_delivers (async_read E) stream (\<lambda>_. 0)
     \<and> ends_with_eof (async_read E) stream \<and> (\<forall>chunks. stream (mock chunks) = concat chunks)"

definition vec_law ::
  "('net, 'st, 'r, 'w, 'pr, 'pw) runtime \<Rightarrow> 'w \<Rightarrow> ('w \<Rightarrow> u8 list) \<Rightarrow> bool" where
  "vec_law E vec contents \<longleftrightarrow>
     byte_sink (write_all E) (flush E) contents \<and> (\<forall>w bs. fst (write_all E w bs) = Ok ())
     \<and> (\<forall>w. fst (flush E w) = Ok ()) \<and> contents vec = []"

text \<open>
  The codec of the \<^verbatim>\<open>bitcoin\<close> crate on the messages of the tests: a ping has a payload
  of eight bytes, and a frame with a wrong checksum does not decode.
\<close>

definition codec_law :: "('a) bitcoin_api_scheme \<Rightarrow> magic \<Rightarrow> magic \<Rightarrow> bool" where
  "codec_law B BITCOIN TESTNET4 \<longleftrightarrow>
     well_framed B (BITCOIN, Ping 42) \<and> well_framed B (BITCOIN, Ping 43) \<and> well_framed B (TESTNET4, Ping 42)
     \<and> BITCOIN \<noteq> TESTNET4 \<and> length BITCOIN = 4 \<and> length (raw_serialize B (BITCOIN, Ping 42)) = 32
     \<and> (\<exists>e. raw_deserialize B (invalid_message BITCOIN) = Inl e)"

section \<open>They pass\<close>

lemma mock_reads_frame:
  assumes "mock_io_law E mock stream" and "complete_frame F" and "concat chunks = F @ rest"
  shows "\<exists>tr'. v1_reader_read E (v1_reader_new mg (mock chunks)) = (frame_result E mg F, tr')
    \<and> (\<forall>p. frame_result E mg F = Ok p \<longrightarrow> v1_input stream tr' = rest)"
proof -
  have io: "byte_source (async_read E) stream" "eventually_delivers (async_read E) stream (\<lambda>_. 0)"
    "stream (mock chunks) = F @ rest"
    using assms(1,3) by (auto simp: mock_io_law_def)
  from v1_read_frame [OF io(1,2) v1_wf_reader_new assms(2), of mg "mock chunks" rest] io(3)
  show ?thesis by auto
qed

lemma mock_reads_message:
  assumes "mock_io_law E mock stream" and "well_framed E (mg, m)" and "concat chunks = raw_serialize E (mg, m) @ rest"
  shows "\<exists>tr'. v1_reader_read E (v1_reader_new mg (mock chunks)) = (Ok m, tr') \<and> v1_input stream tr' = rest
    \<and> v1_wf tr' \<and> v1r_magic tr' = mg"
proof -
  obtain tr' where tr': "v1_reader_read E (v1_reader_new mg (mock chunks)) = (Ok m, tr')" "v1_input stream tr' = rest"
    using mock_reads_frame [OF assms(1) well_framed_frame(1) [OF assms(2)] assms(3), of mg] well_framed_frame(2) [OF assms(2), of mg]
    by auto
  with v1_read_returns [OF _ v1_wf_reader_new tr'(1), of stream] assms(1) show ?thesis
    by (auto simp: mock_io_law_def)
qed

lemma vec_write:
  assumes "vec_law E vec contents"
  shows "\<exists>tw'. v1_writer_write E (v1_writer_new mg w) m = (Ok (), tw')
    \<and> contents (v1w_writer tw') = contents w @ raw_serialize E (mg, m)"
proof -
  have sink: "byte_sink (write_all E) (flush E) contents" and ok: "\<forall>w bs. fst (write_all E w bs) = Ok ()" "\<forall>w. fst (flush E w) = Ok ()"
    using assms by (auto simp: vec_law_def)
  obtain w1 where w1: "write_all E w (raw_serialize E (mg, m)) = (Ok (), w1)" using ok(1) by (metis prod.collapse)
  obtain w2 where "flush E w1 = (Ok (), w2)" using ok(2) by (metis prod.collapse)
  with w1 have "v1_writer_write E (v1_writer_new mg w) m = (Ok (), (v1_writer_new mg w)\<lparr>v1w_writer := w2\<rparr>)"
    by (simp add: v1_writer_write_def v1_writer_new_def)
  with v1_write_wire [OF sink this] show ?thesis by (auto simp: v1_writer_new_def)
qed

lemmas test_parts = v1_transport_new_def v1_transport_read_def v1_transport_write_def v1_into_split_def
  create_test_message_def

lemma concat_single_bytes: "concat (map (\<lambda>i. take 1 (drop i bs)) [0..<length bs]) = bs"
proof -
  have "concat (map (\<lambda>i. take 1 (drop i bs)) [0..<length bs]) = concat (map (\<lambda>i. [bs ! i]) [0..<length bs])"
    by (rule arg_cong [where f = concat]) (simp add: take_Suc_conv_app_nth [of 0, simplified])
  also have "\<dots> = bs" by (simp add: map_nth)
  finally show ?thesis .
qed

lemma receive_tests:
  assumes "mock_io_law E mock stream" and "codec_law E BITCOIN TESTNET4"
  shows "test_basic_message_receive E mock vec BITCOIN" and "test_magic_mismatch E mock vec BITCOIN TESTNET4"
    and "test_cancellation_safety E mock vec BITCOIN"
proof -
  have fr: "well_framed E (BITCOIN, Ping 42)" "well_framed E (TESTNET4, Ping 42)" "BITCOIN \<noteq> TESTNET4"
    using assms(2) by (simp_all add: codec_law_def)
  show "test_basic_message_receive E mock vec BITCOIN"
    using mock_reads_message [OF assms(1) fr(1), of "[raw_serialize E (BITCOIN, Ping 42)]"]
    by (auto simp: test_basic_message_receive_def test_parts)
  show "test_magic_mismatch E mock vec BITCOIN TESTNET4"
    using mock_reads_frame [OF assms(1) well_framed_frame(1) [OF fr(2)], of "[raw_serialize E (TESTNET4, Ping 42)]" "[]" BITCOIN]
      well_framed_frame(2) [OF fr(2), of BITCOIN] fr(3)
    by (auto simp: test_magic_mismatch_def test_parts)
  show "test_cancellation_safety E mock vec BITCOIN"
    using mock_reads_message [OF assms(1) fr(1), where rest = "[]"] concat_single_bytes [of "raw_serialize E (BITCOIN, Ping 42)"]
    by (fastforce simp: test_cancellation_safety_def test_parts)
qed

lemma multiple_messages_test:
  assumes "mock_io_law E mock stream" and "codec_law E BITCOIN TESTNET4"
  shows "test_multiple_messages E mock vec BITCOIN"
proof -
  let ?m1 = "raw_serialize E (BITCOIN, Ping 42)" and ?m2 = "raw_serialize E (BITCOIN, Ping 43)"
  have fr: "well_framed E (BITCOIN, Ping 42)" "well_framed E (BITCOIN, Ping 43)"
    using assms(2) by (simp_all add: codec_law_def)
  have io: "byte_source (async_read E) stream" "eventually_delivers (async_read E) stream (\<lambda>_. 0)"
    using assms(1) by (auto simp: mock_io_law_def)
  obtain tr where tr: "v1_reader_read E (v1_reader_new BITCOIN (mock [?m1 @ ?m2])) = (Ok (Ping 42), tr)"
    "v1_input stream tr = ?m2" "v1_wf tr" "v1r_magic tr = BITCOIN"
    using mock_reads_message [OF assms(1) fr(1), of "[?m1 @ ?m2]" ?m2] by auto
  from v1_read_delivers [OF io tr(3), of "Ping 43" "[]"] fr(2) tr(2,4)
  have "fst (v1_reader_read E tr) = Ok (Ping 43)" by auto
  with tr(1) show ?thesis by (simp add: test_multiple_messages_def test_parts case_prod_unfold)
qed

lemma error_tests:
  assumes "mock_io_law E mock stream" and "codec_law E BITCOIN TESTNET4"
  shows "test_invalid_message E mock vec BITCOIN" and "test_unexpected_eof_during_header E mock vec BITCOIN"
    and "test_unexpected_eof_during_payload E mock vec BITCOIN"
proof -
  have io: "byte_source (async_read E) stream" "eventually_delivers (async_read E) stream (\<lambda>_. 0)"
    "ends_with_eof (async_read E) stream" "\<And>chunks. stream (mock chunks) = concat chunks"
    using assms(1) by (auto simp: mock_io_law_def)
  have new: "receive_state (v1_reader_new BITCOIN r) = ReadingHeader (replicate HEADER_SIZE 0) 0" for r :: 'c
    by (simp add: reading_header_def)
  have frame: "complete_frame (invalid_message BITCOIN)"
    using assms(2) by (simp add: codec_law_def complete_frame_def invalid_message_def write_at_def HEADER_SIZE_def
        PAYLOAD_LENGTH_OFFSET_def header_payload_len_def nth_append u32_to_le_bytes_def u32_from_le_bytes_def Let_def)
  then show "test_invalid_message E mock vec BITCOIN"
    using mock_reads_frame [OF assms(1) frame, of "[invalid_message BITCOIN]" "[]" BITCOIN] assms(2)
    by (auto simp: test_invalid_message_def test_parts frame_result_def codec_law_def)
  show "test_unexpected_eof_during_header E mock vec BITCOIN"
    using v1_truncated_header [OF io(1-3) v1_wf_reader_new new, of "mock [replicate 10 0]"] io(4)
    by (auto simp: test_unexpected_eof_during_header_def test_parts HEADER_SIZE_def)
  let ?F = "raw_serialize E (BITCOIN, Ping 42)"
  have F: "length ?F = 32" "header_payload_len ?F = 8"
    using assms(2) by (simp_all add: codec_law_def well_framed_def)
  then have "header_payload_len (take 26 ?F) = 8"
    using header_payload_len_take [of ?F] header_payload_len_take [of "take 26 ?F"] by (simp add: min_def)
  with v1_truncated_payload [OF io(1-3) v1_wf_reader_new new, of "mock [take 26 ?F]"] io(4) F
  show "test_unexpected_eof_during_payload E mock vec BITCOIN"
    by (auto simp: test_unexpected_eof_during_payload_def test_parts HEADER_SIZE_def)
qed

lemma split_tests:
  assumes "mock_io_law E mock stream" and "vec_law E vec contents" and "codec_law E BITCOIN TESTNET4"
  shows "test_send_message E mock vec contents BITCOIN" and "test_transport_split E mock vec contents BITCOIN"
    and "test_transport_enum_split E mock vec BITCOIN" and "test_transport_delegation E mock vec BITCOIN"
proof -
  have fr: "well_framed E (BITCOIN, Ping 42)" and empty: "contents vec = []"
    using assms(2,3) by (simp_all add: codec_law_def vec_law_def)
  obtain tw where tw: "v1_writer_write E (v1_writer_new BITCOIN vec) (Ping 42) = (Ok (), tw)"
    "contents (v1w_writer tw) = raw_serialize E (BITCOIN, Ping 42)"
    using vec_write [OF assms(2), of BITCOIN vec "Ping 42"] empty by auto
  obtain tr where tr: "v1_reader_read E (v1_reader_new BITCOIN (mock [raw_serialize E (BITCOIN, Ping 42)])) = (Ok (Ping 42), tr)"
    using mock_reads_message [OF assms(1) fr, of "[raw_serialize E (BITCOIN, Ping 42)]"] by auto
  show "test_send_message E mock vec contents BITCOIN"
    using tw by (simp add: test_send_message_def test_parts)
  show "test_transport_split E mock vec contents BITCOIN"
    using tw tr by (simp add: test_transport_split_def test_parts)
  show "test_transport_enum_split E mock vec BITCOIN"
    using tw tr by (simp add: test_transport_enum_split_def test_parts transport_v1_def)
  show "test_transport_delegation E mock vec BITCOIN"
    using tw tr by (simp add: test_transport_delegation_def test_parts transport_v1_def)
qed

text \<open>An environment for the tests: a codec for pings, with an eight byte payload.\<close>

definition ping_frame :: "magic \<Rightarrow> u64 \<Rightarrow> u8 list" where
  "ping_frame mg n = mg @ [0x70, 0x69, 0x6e, 0x67, 0, 0, 0, 0, 0, 0, 0, 0, 8, 0, 0, 0, 0, 0, 0, 0, ucast n, 0, 0, 0, 0, 0, 0, 0]"

definition test_env :: "(u8 list list, u8 list, u8 list, u8 list, u8 list list, u8 list list) runtime" where
  "test_env =
     (example_env trickle_read (\<lambda>r. r) Pending)
       \<lparr>raw_serialize := (\<lambda>(mg, m). case m of Ping n \<Rightarrow> ping_frame mg n | _ \<Rightarrow> []),
        raw_deserialize := (\<lambda>bs. if length bs = 32 then Inr (take 4 bs, Ping (ucast (bs ! 24))) else Inl ''truncated'')\<rparr>"

lemma test_env_laws:
  "mock_io_law test_env concat (\<lambda>r. r)" "vec_law test_env [] (\<lambda>w. w)"
  "codec_law test_env [0xF9, 0xBE, 0xB4, 0xD9] [0x1C, 0x16, 0x3F, 0x28]"
proof -
  show "mock_io_law test_env concat (\<lambda>r. r)"
    using trickle_laws by (simp add: mock_io_law_def test_env_def)
  show "vec_law test_env [] (\<lambda>w. w)"
    by (simp add: vec_law_def byte_sink_def test_env_def)
  have "well_framed test_env ([a, b, c, d], Ping 42)" "well_framed test_env ([a, b, c, d], Ping 43)" for a b c d
    by (simp_all add: well_framed_def test_env_def ping_frame_def header_payload_len_def u32_from_le_bytes_def)
  then show "codec_law test_env [0xF9, 0xBE, 0xB4, 0xD9] [0x1C, 0x16, 0x3F, 0x28]"
    by (simp add: codec_law_def)
      (simp add: test_env_def ping_frame_def invalid_message_def write_at_def HEADER_SIZE_def PAYLOAD_LENGTH_OFFSET_def
        u32_to_le_bytes_def Let_def)
qed

section \<open>Properties\<close>

text \<open>
  The unit tests of the transports hold in the model, for every scripted reader, growing
  writer and codec with the documented behaviour: messages are received whole, byte by byte
  and one after the other, sent, and read and written through the halves; a wrong magic, a
  frame that does not decode and a stream that ends in the header or in the payload are
  reported as the errors the tests expect.
\<close>

lemma transport_tests_pass:
  assumes "mock_io_law E mock stream" and "vec_law E vec contents" and "codec_law E BITCOIN TESTNET4"
  shows "test_basic_message_receive E mock vec BITCOIN \<and> test_send_message E mock vec contents BITCOIN
    \<and> test_magic_mismatch E mock vec BITCOIN TESTNET4 \<and> test_invalid_message E mock vec BITCOIN
    \<and> test_unexpected_eof_during_header E mock vec BITCOIN \<and> test_unexpected_eof_during_payload E mock vec BITCOIN
    \<and> test_cancellation_safety E mock vec BITCOIN \<and> test_multiple_messages E mock vec BITCOIN
    \<and> test_transport_split E mock vec contents BITCOIN \<and> test_transport_enum_split E mock vec BITCOIN
    \<and> test_transport_delegation E mock vec BITCOIN \<and> test_transport_from_impl E mock vec BITCOIN
    \<and> test_transport_pattern_matching E mock vec BITCOIN"
  using receive_tests [OF assms(1,3)] multiple_messages_test [OF assms(1,3)] error_tests [OF assms(1,3)]
    split_tests [OF assms]
  by (simp add: test_transport_from_impl_def test_transport_pattern_matching_def transport_v1_def)

end
