(* ===== verification/Info_Tests.thy ===== *)
theory Info_Tests
  imports Configuration
begin

text \<open>
  The unit tests of \<^verbatim>\<open>connection/src/user_agent.rs\<close>, \<^verbatim>\<open>connection/src/peer.rs\<close>
  and \<^verbatim>\<open>connection/src/connection/configuration.rs\<close>, each as the assertion it makes of
  the model.
\<close>

section \<open>User agents\<close>

definition is_ok :: "('e + 'a) option \<Rightarrow> bool" where
  "is_ok r \<longleftrightarrow> (case r of Some (Inr _) \<Rightarrow> True | _ \<Rightarrow> False)"

definition is_err :: "('e + 'a) option \<Rightarrow> bool" where
  "is_err r \<longleftrightarrow> (case r of Some (Inl _) \<Rightarrow> True | _ \<Rightarrow> False)"

definition test_validate_valid_user_agents :: bool where
  "test_validate_valid_user_agents \<longleftrightarrow>
     is_ok (validate_bitcoin_core_format ''/bitcoin-peers:0.1.0/'')
     \<and> is_ok (validate_bitcoin_core_format ''/Bitcoin Core:26.0.0/'')
     \<and> is_ok (validate_bitcoin_core_format ''/Satoshi:0.21.0/'')
     \<and> is_ok (validate_bitcoin_core_format ''/my-app:1.2.3-beta/'')"

definition test_validate_invalid_format :: bool where
  "test_validate_invalid_format \<longleftrightarrow>
     validate_bitcoin_core_format ''bitcoin-peers:0.1.0/'' = Some (Inl InvalidFormat)
     \<and> validate_bitcoin_core_format ''/bitcoin-peers:0.1.0'' = Some (Inl InvalidFormat)
     \<and> validate_bitcoin_core_format ''bitcoin-peers:0.1.0'' = Some (Inl InvalidFormat)
     \<and> validate_bitcoin_core_format ''/bitcoin-peers/'' = Some (Inl InvalidFormat)
     \<and> validate_bitcoin_core_format ''/bitcoin:peers:0.1.0/'' = Some (Inl InvalidFormat)"

definition test_validate_missing_name :: bool where
  "test_validate_missing_name \<longleftrightarrow> validate_bitcoin_core_format ''/:0.1.0/'' = Some (Inl MissingName)"

definition test_validate_missing_version :: bool where
  "test_validate_missing_version \<longleftrightarrow>
     validate_bitcoin_core_format ''/bitcoin-peers:/'' = Some (Inl MissingVersion)"

definition test_bitcoin_core_format :: bool where
  "test_bitcoin_core_format \<longleftrightarrow>
     bitcoin_core_format ''bitcoin-peers'' ''0.1.0'' = ''/bitcoin-peers:0.1.0/''
     \<and> bitcoin_core_format ''Bitcoin Core'' ''26.0.0'' = ''/Bitcoin Core:26.0.0/''
     \<and> bitcoin_core_format ''test'' ''1.0'' = ''/test:1.0/''"

definition test_error_display :: bool where
  "test_error_display \<longleftrightarrow>
     user_agent_error_display InvalidFormat
       = ''User agent must follow format '' @ [CHR 0x27] @ ''/name:version/'' @ [CHR 0x27]
     \<and> user_agent_error_display MissingName = ''User agent name component cannot be empty''
     \<and> user_agent_error_display MissingVersion = ''User agent version component cannot be empty''"

definition test_roundtrip :: bool where
  "test_roundtrip \<longleftrightarrow>
     (let ua = bitcoin_core_format ''bitcoin-peers'' ''0.1.0''
      in is_ok (validate_bitcoin_core_format ua)
         \<and> (case user_agent_new ua of
              Some (Inr validated) \<Rightarrow> user_agent_as_str validated = ''/bitcoin-peers:0.1.0/'' | _ \<Rightarrow> False))"

definition test_user_agent_new_valid :: bool where
  "test_user_agent_new_valid \<longleftrightarrow>
     (case user_agent_new ''/bitcoin-peers:0.1.0/'' of
        Some (Inr ua) \<Rightarrow> user_agent_as_str ua = ''/bitcoin-peers:0.1.0/'' | _ \<Rightarrow> False)"

definition test_user_agent_new_invalid :: bool where
  "test_user_agent_new_invalid \<longleftrightarrow>
     is_err (user_agent_new ''invalid'') \<and> is_err (user_agent_new ''/invalid/'')
     \<and> is_err (user_agent_new ''/:version/'') \<and> is_err (user_agent_new ''/name:/'')"

definition test_user_agent_from_name_version :: bool where
  "test_user_agent_from_name_version \<longleftrightarrow>
     user_agent_as_str (user_agent_from_name_version ''bitcoin-peers'' ''0.1.0'') = ''/bitcoin-peers:0.1.0/''"

definition test_user_agent_from_str :: bool where
  "test_user_agent_from_str \<longleftrightarrow>
     (case user_agent_from_str ''/bitcoin-peers:0.1.0/'' of
        Some (Inr ua) \<Rightarrow> user_agent_as_str ua = ''/bitcoin-peers:0.1.0/'' | _ \<Rightarrow> False)"

definition test_user_agent_equality :: bool where
  "test_user_agent_equality \<longleftrightarrow>
     (case user_agent_new ''/bitcoin-peers:0.1.0/'' of
        Some (Inr ua2) \<Rightarrow> user_agent_from_name_version ''bitcoin-peers'' ''0.1.0'' = ua2 | _ \<Rightarrow> False)"

definition test_user_agent_display :: bool where
  "test_user_agent_display \<longleftrightarrow>
     user_agent_display (user_agent_from_name_version ''bitcoin-peers'' ''0.1.0'') = ''/bitcoin-peers:0.1.0/''"

definition test_user_agent_as_ref :: bool where
  "test_user_agent_as_ref \<longleftrightarrow>
     user_agent_as_ref (user_agent_from_name_version ''bitcoin-peers'' ''0.1.0'') = ''/bitcoin-peers:0.1.0/''"

section \<open>Peers and preferences\<close>

definition test_peer_with_services :: "('a) bitcoin_api_scheme \<Rightarrow> service_flags \<Rightarrow> bool" where
  "test_peer_with_services B N \<longleftrightarrow>
     (let addr = Ipv4 0x7F000001; p = peer_with_services addr 8333 N
      in address p = addr \<and> port p = 8333 \<and> services p = KnownServices N \<and> version p = UnknownVersion
         \<and> has_service B p N)"

definition test_peer_constructors_equivalence :: "service_flags \<Rightarrow> bool" where
  "test_peer_constructors_equivalence NW \<longleftrightarrow>
     (let addr = Ipv4 0xC0A80101; peer1 = peer_with_services addr 8333 NW;
          peer2 = with_known_services (peer_new addr 8333) NW
      in peer1 = peer2)"

definition test_feature_preferences_default :: bool where
  "test_feature_preferences_default \<longleftrightarrow>
     (let prefs = feature_preferences_default
      in enable_addrv2 prefs \<and> enable_sendheaders prefs \<and> enable_wtxidrelay prefs)"

section \<open>They pass\<close>

lemma user_agent_tests_pass:
  "test_validate_valid_user_agents" "test_validate_invalid_format" "test_validate_missing_name"
  "test_validate_missing_version" "test_bitcoin_core_format" "test_error_display" "test_roundtrip"
  "test_user_agent_new_valid" "test_user_agent_new_invalid" "test_user_agent_from_name_version"
  "test_user_agent_from_str" "test_user_agent_equality" "test_user_agent_display" "test_user_agent_as_ref"
  by code_simp+

lemma peer_tests_pass:
  "flags_has B N N \<Longrightarrow> test_peer_with_services B N" "test_peer_constructors_equivalence NW"
  "test_feature_preferences_default"
  by (simp_all add: test_peer_with_services_def peer_with_services_def has_service_def
      test_peer_constructors_equivalence_def with_known_services_def peer_new_def
      test_feature_preferences_default_def feature_preferences_default_def Let_def)

end
