(* ===== verification/Spec2Isabelle.thy ===== *)
theory Spec2Isabelle
  imports Encrypted_Peers Circular_Test Crawler_Example Network_Crawl Peer_Task Shared_Cells Ping_Example
    Transport_Tests Info_Tests
begin

text \<open>
  A verification library for bitcoin-peers, two Rust crates that talk to the peers of the
  bitcoin network: \<^verbatim>\<open>connection\<close>, which establishes a connection to one peer, and
  \<^verbatim>\<open>crawler\<close>, which uses such connections to find all peers.

  \<^bold>\<open>The program.\<close> A \<^verbatim>\<open>Connection\<close> is made in three stages. The TCP stage
  (\<^verbatim>\<open>tcp.rs\<close>) opens a stream and decides, by the \<^verbatim>\<open>TransportPolicy\<close>, the
  peer's services and what the remote side does, between the plaintext transport
  (\<^verbatim>\<open>transport/v1.rs\<close>) and the encrypted one (\<^verbatim>\<open>transport/v2.rs\<close>). The
  handshake (\<^verbatim>\<open>futures.rs\<close>, \<^verbatim>\<open>handshake.rs\<close>) exchanges version, feature and
  verack messages over the transport and negotiates features (\<^verbatim>\<open>state.rs\<close>). After it
  the connection is read and written, whole or split into halves. The crawler's
  \<^verbatim>\<open>get_peers\<close> (\<^verbatim>\<open>crawler/src/connection.rs\<close>) asks a connection for addresses
  under a timeout; a \<^verbatim>\<open>CrawlSession\<close> (\<^verbatim>\<open>session.rs\<close>) runs a coordinator and up
  to \<^verbatim>\<open>max_concurrent_tasks\<close> tasks that share a set of tested peers and three
  channels; \<^verbatim>\<open>CrawlerBuilder\<close> and \<^verbatim>\<open>Crawler\<close> configure and start it.

  \<^bold>\<open>Conventions.\<close> A call of an \<^verbatim>\<open>async\<close> function has a value of type
  \<^typ>\<open>('e, 'a) outcome\<close>: \<open>Ok\<close>, \<open>Err\<close>, or \<open>Pending\<close> when it has to wait, or would be
  cancelled there; the state it leaves behind is returned with it, so that cancellation is
  the use of that state. Functions with a loop that need not end are
  \<open>partial_function (option)\<close>; \<^term>\<open>None\<close> is a loop that runs for ever. A theorem
  that a call returns shows that it is neither \<^term>\<open>None\<close> nor \<open>Pending\<close>. Panics of the code (slices
  out of range, a channel without capacity, \<open>unwrap\<close> and \<open>expect\<close>, checked overflow) are
  values or states of their own. Integers have the width of the source. What the code takes
  from the crates \<^verbatim>\<open>bitcoin\<close>, \<^verbatim>\<open>bip324\<close> and \<^verbatim>\<open>tokio\<close> and from the
  operating system is a parameter: the records of \<^verbatim>\<open>Foreign\<close>, \<open>E\<close> in the
  theorems. What the code relies on of it is stated by named predicates, such as
  \<open>byte_source\<close> (a stream delivers its bytes in order), \<open>well_framed\<close> (a message decodes to
  itself and its header holds the length of its payload), \<open>writes_log\<close> (a writer appends what
  it is given) and \<open>timeout_law\<close> (a timeout gives the result of the read or drops a read that
  waits).
  \<^verbatim>\<open>Example_Env\<close> has concrete parameters that fulfil them.

  \<^bold>\<open>The theories\<close>, each importing those it builds on.

  \<^item> \<^verbatim>\<open>Prelude\<close>: words, outcomes and the \<open>?\<close> operator (\<^const>\<open>and_then\<close>), little-endian
  numbers, the locale \<^const>\<open>inductive_invariant\<close> for step relations, interpreted for
  sessions and for the connection example.
  \<^item> \<^verbatim>\<open>Foreign\<close>, \<^verbatim>\<open>Example_Env\<close>: the parameters and an instance.
  \<^item> \<^verbatim>\<open>User_Agent\<close>, \<^verbatim>\<open>Peer_Info\<close>, \<^verbatim>\<open>Configuration\<close>: the files
  \<^verbatim>\<open>user_agent.rs\<close>, \<^verbatim>\<open>peer.rs\<close>, \<^verbatim>\<open>configuration.rs\<close>. The validator accepts
  exactly \<open>/name:version/\<close>, never slices out of range, and which error a string gets is
  characterised; printing and parsing are inverse where they can be.
  \<^item> \<^verbatim>\<open>Negotiation\<close>: \<^verbatim>\<open>state.rs\<close>. The locale \<^const>\<open>symmetric_negotiation\<close> is
  the contract of a feature's state machine, interpreted for the three features: enabled
  exactly when both sides announced it, in any order.
  \<^item> \<^verbatim>\<open>V1_Transport\<close>, \<^verbatim>\<open>Transport\<close>: \<^verbatim>\<open>transport/v1.rs\<close>,
  \<^verbatim>\<open>transport/v2.rs\<close>, \<^verbatim>\<open>transport/mod.rs\<close>. The resumable reader is related to a
  reference, \<^const>\<open>frame_result\<close>, which decodes a whole frame at once: for every cut of the
  stream into reads, every read that waits or is cancelled in between, the reader gives that
  result and consumes that frame. Round trip, conservation of the stream, truncation, the
  memory that a header makes the reader reserve, and errors that repeat follow.
  \<^item> \<^verbatim>\<open>Tcp\<close>: \<^verbatim>\<open>tcp.rs\<close> and \<^verbatim>\<open>error.rs\<close>; the transport policies, the fallback
  to a second stream, the detection of plaintext on accepted streams. \<^const>\<open>plaintext_route\<close> and
  \<^const>\<open>plaintext_hello\<close> say exactly when a transport is in plaintext.
  \<^item> \<^verbatim>\<open>Connection\<close>, \<^verbatim>\<open>Handshake\<close>, \<^verbatim>\<open>Connection_Properties\<close>:
  \<^verbatim>\<open>handshake.rs\<close> and \<^verbatim>\<open>futures.rs\<close>. \<^const>\<open>handshaken\<close> specifies a completed
  handshake: what was read, what was sent and in which order, what is known of the peer, which
  features are enabled. \<^const>\<open>perform_handshake\<close> gives it whenever it succeeds, and
  succeeds on every valid exchange in every order; errors, waits and connections to oneself
  are classified.
  \<^item> \<^verbatim>\<open>Two_Peers\<close>: two ends that both run this code. \<^const>\<open>handshake_turn\<close> is one
  turn of the loop of the handshake, \<^const>\<open>dialogue_step\<close> interleaves the turns of the two
  ends, with a message readable once it is written. No interleaving deadlocks, and both ends
  agree in the end; \<open>connect\<close> and \<open>accept\<close> meet over the bytes of two streams.
  \<^item> \<^verbatim>\<open>Encrypted_Peers\<close>: the same over two encrypted sessions, whose packets are a
  parameter.
  \<^item> \<^verbatim>\<open>Shared_Cells\<close>: \<^verbatim>\<open>futures.rs\<close> with its pointers. In \<^verbatim>\<open>Connection\<close> a
  connection holds its peer and its state; here they are cells of a store to which the
  connection, its reader and its writer point. Every operation over the store refines the one
  without it, and the two halves can be used in any interleaving.
  \<^item> \<^verbatim>\<open>Peer_Connection\<close>: \<^verbatim>\<open>crawler/src/connection.rs\<close>. The trait
  \<^verbatim>\<open>PeerConnection\<close> is the record \<^typ>\<open>'c peer_connection\<close>; its contract is the locale
  \<^const>\<open>duplex_connection\<close>, interpreted for real and for mock connections.
  \<^const>\<open>get_peers\<close> answers pings and returns exactly the announced peers. On every advancing
  clock its loop is left after finitely many turns; it can still wait in a write, of getaddr or
  of a pong, and it waits nowhere else.
  \<^item> \<^verbatim>\<open>Session\<close>, \<^verbatim>\<open>Session_Invariants\<close>, \<^verbatim>\<open>Session_Properties\<close>,
  \<^verbatim>\<open>Session_Termination\<close>: \<^verbatim>\<open>session.rs\<close>. \<^const>\<open>crawl_step\<close> interleaves the
  coordinator, one await point at a time, with the tasks and the caller; the flag
  \<open>parallel\<close> tells a runtime with several threads from one with a single thread. The
  network is a \<^typ>\<open>world\<close>, a fixed answer for every peer, which is all a session sees since
  it asks each peer once. Nothing is tested or reported twice, all reports are true, the
  number of tasks is bounded, no state is stuck, every run over a finite network ends, and on
  one thread it ends with exactly the reachable peers reported; on several threads it can end
  with batches of peers unread, and only those are missing. The tasks of the step relation and
  \<^const>\<open>process\<close> as one function are two views of the same lines and are shown to agree.
  \<^item> \<^verbatim>\<open>Peer_Task\<close>: the task of one peer, from the bytes on its stream to what it sends to
  the caller and to the coordinator, and the bytes it writes.
  \<^item> \<^verbatim>\<open>Session_Network\<close>, \<^verbatim>\<open>Network_Crawl\<close>: sessions over a network with a state,
  \<^const>\<open>live_step\<close>, whose answers may change or never come. Each run is a run over some
  fixed world, which justifies the worlds above and carries their theorems over: over a network
  that answers a session is complete, over a finite one its steps are bounded, and after the
  caller has hung up it winds down, its running tasks with a panic.
  \<^const>\<open>session_network\<close> is the network behind a connector. With the real connector every
  report and every tested peer is traced to a stream that the operating system has connected to
  the address and port of a peer, to a handshake completed over it and to an address message, by
  the locale \<^const>\<open>traced_connector\<close> of connectors whose connections have a known origin; a
  peer that never lets \<open>get_peers\<close> return keeps the session from ending.
  \<^item> \<^verbatim>\<open>Crawler\<close>: \<^verbatim>\<open>builder.rs\<close> and \<^verbatim>\<open>crawler.rs\<close>.
  \<^item> \<^verbatim>\<open>Texts\<close>: the \<^verbatim>\<open>Display\<close> and \<^verbatim>\<open>source\<close> of peers, states, errors and
  connections; a connection's text determines its transport, peer and state.
  \<^item> \<^verbatim>\<open>Cli\<close>, \<^verbatim>\<open>Ping_Example\<close>, \<^verbatim>\<open>Crawler_Example\<close>: the two example programs.
  The tasks of the connection example are a step relation over the split connection and their
  channel; the crawler example is the caller of a session, on one thread or on several.
  \<^item> \<^verbatim>\<open>Info_Tests\<close>, \<^verbatim>\<open>Transport_Tests\<close>, \<^verbatim>\<open>Crawler_Tests\<close>,
  \<^verbatim>\<open>Circular_Test\<close>: the unit tests of the crates as assertions about the model, proved
  for all instances of what they mock.
  \<^item> This theory: from the bytes of a stream to an established connection.

  \<^bold>\<open>Bounds.\<close> The capacity of the channel to the caller is the source's 1000, of the ping
  channel 10, of the completion channel \<open>max_concurrent_tasks\<close>; the discovery channel is
  unbounded. The fuel of a task run by itself is 4, the number of points at which a
  task can be before it finishes. The measure that bounds the steps of a session counts the
  reachable peers that are not tested yet and the work left for each: \<open>n\<close> peers whose answers
  have at most \<open>m\<close> addresses take at most \<open>n * (2 * m + 23) + 13\<close> steps.

  \<^bold>\<open>Not modelled.\<close> Log lines and the set-up of the logger; splitting of the command line
  by \<^verbatim>\<open>clap\<close>; module declarations; the derived \<^verbatim>\<open>Debug\<close> of transports and
  connections. No lock is held while a call waits, so that locks have no state of their own and
  an access to a cell is a single step. A
  system clock before 1970, on which \<^verbatim>\<open>unix_timestamp\<close> panics, is not representable.
  The integration tests in \<^verbatim>\<open>connection/tests\<close> run against a \<^verbatim>\<open>bitcoind\<close> process,
  whose behaviour is not part of the sources.
\<close>

section \<open>From bytes to connections\<close>

text \<open>
  C1. A plaintext connection, from the TCP stream to the established connection. If the peer
  is reached in plaintext, since it is known not to support encryption or, on a second TCP
  connection, since the encrypted handshake on the first has failed; if the stream takes what
  is written to it, and the remote side's bytes are the frames of a valid handshake followed
  by anything else, however they are cut into reads; then \<open>connect\<close> returns a connection. The
  bytes it has written are the frames of the local version message, of the features to
  negotiate and of a verack; it knows the peer's services and version; and what follows the
  handshake on the wire is what the connection will read next.
\<close>

theorem plaintext_connect_end_to_end:
  fixes E :: "('net, 'st, 'r, 'w, 'pr, 'pw) runtime"
  assumes route: "plaintext_route E net network p r w net1"
    and policy: "transport_policy cfg = V2Preferred"
    and sink: "byte_sink (write_all E) (flush E) wire" "\<forall>w bs. fst (write_all E w bs) = Ok ()"
      "\<forall>w. fst (flush E w) = Ok ()" "wire w = []"
    and src: "byte_source (async_read E) stream" "eventually_delivers (async_read E) stream (\<lambda>_. 0)"
    and frames: "\<forall>m \<in> set ms. well_framed E (network_magic E network, m)"
      "stream r = v1_frames E (network_magic E network) ms @ rest"
    and ex: "handshake_exchange (generate_nonce K) ms" "first_version ms = Some vm"
  shows "\<exists>c tr. connection_connect E K net p network cfg = Some (Ok c)
    \<and> conn_peer c = p\<lparr>services := KnownServices (vm_services vm), version := KnownVersion (vm_version vm)\<rparr>
    \<and> sent_bytes wire (conn_writer c) = v1_frames E (network_magic E network)
        (create_version_message E K
           (connection_new p cfg (transport_v1 (network_magic E network) r w)) (generate_nonce K)
         # version_reply cfg vm)
    \<and> conn_reader c = ReaderV1 tr \<and> v1_input stream tr = rest"
  using plaintext_connects [OF route policy sink src frames refl ex] by (fastforce simp: handshaken_def v1_connection_parts)

theorem plaintext_connect_end_to_end_witness:
  "\<exists>c. connection_connect (example_env trickle_read (\<lambda>r. r) (Err ())) example_clock
      [[9, 9], example_serialize (example_magic, Version (example_version 70016 8 77))
       @ example_serialize (example_magic, Verack) @ [1, 2, 3]]
      (peer_new (Ipv4 1) 8333) Bitcoin example_config = Some (Ok c)
    \<and> version (conn_peer c) = KnownVersion 70016"
proof -
  let ?E = "example_env trickle_read (\<lambda>r. r) (Err ())"
  let ?v = "Version (example_version 70016 8 77)"
  let ?st = "example_serialize (example_magic, ?v) @ example_serialize (example_magic, Verack) @ [1, 2, 3]"
  have "establish_tcp_connection ?E (x # net) sock = (Ok x, net)" for x net sock
    by (simp add: establish_tcp_connection_def configure_tcp_stream_def example_env_def)
  moreover have "tcp_into_split ?E x = (x, [])" "protocol_new ?E Bitcoin Initiator x [] = Err ()" for x
    by (simp_all add: example_env_def)
  ultimately have route: "plaintext_route ?E [[9, 9], ?st] Bitcoin (peer_new (Ipv4 1) 8333) ?st [] []"
    by (simp add: plaintext_route_def socket_of_def may_support_v2_def peer_new_def del: example_serialize.simps)
  have "network_magic ?E Bitcoin = example_magic" "transport_policy example_config = V2Preferred"
    by (simp_all add: example_env_def example_config_def non_listening_def)
  moreover have "handshake_exchange (generate_nonce example_clock) [?v, Verack]"
    by (simp add: example_packets example_version_def)
  ultimately show ?thesis
    using plaintext_connect_end_to_end [OF route, where cfg = example_config
        and ms = "[?v, Verack]" and vm = "example_version 70016 8 77" and K = example_clock
        and wire = "\<lambda>w. w" and stream = "\<lambda>r. r" and rest = "[1, 2, 3]"]
      example_byte_sink [of trickle_read "\<lambda>r. r" "Err ()"] trickle_laws example_well_framed [of ?E]
    by (auto simp: example_version_def simp del: example_serialize.simps)
qed

end
